(* ===== verification/Prelude.thy ===== *)
theory Prelude
  imports Main "HOL-Library.Word" "HOL-Library.AList" "HOL-Library.Char_ord"
    "HOL-Library.List_Lexorder"
begin

text \<open>
  Shared vocabulary of the development: Rust's machine integers, \<open>Result\<close>, strings, the
  few standard-library string functions the crate calls, and the two map types it keeps its
  state in.

  A Rust \<open>String\<close> is its sequence of UTF-8 bytes, one HOL \<open>char\<close> per byte, so a count of
  characters is a count of the bytes that do not continue a sequence.  A \<open>Vec<u8>\<close> is a list of
  \<open>8 word\<close>.  \<open>usize\<close> lengths are \<open>nat\<close>; the fixed-width integers of the wire
  (\<open>u16\<close>, \<open>u32\<close>, \<open>u64\<close>) are words.  \<open>Result<T, E>\<close> is \<open>'e + 't\<close> with \<open>Inl\<close> the error.  A
  \<open>Duration\<close> is its nanoseconds.
\<close>

unbundle bit_operations_syntax

named_theorems wire_defs \<open>definitions unfolded to run one step of the wire model\<close>
named_theorems step_simps \<open>field equations of the session's step functions\<close>

type_synonym byte = "8 word"
type_synonym u16 = "16 word"
type_synonym u32 = "32 word"
type_synonym u64 = "64 word"
type_synonym duration = nat

definition as_millis :: "duration \<Rightarrow> nat" where "as_millis d = d div 1000000"
definition from_secs :: "nat \<Rightarrow> duration" where "from_secs n = n * 1000000000"
definition from_millis :: "nat \<Rightarrow> duration" where "from_millis n = n * 1000000"

section \<open>Results\<close>

definition and_then :: "'e + 'a \<Rightarrow> ('a \<Rightarrow> 'e + 'b) \<Rightarrow> 'e + 'b" where
  "and_then r f = (case r of Inl e \<Rightarrow> Inl e | Inr a \<Rightarrow> f a)"

definition map_err :: "('e \<Rightarrow> 'f) \<Rightarrow> 'e + 'a \<Rightarrow> 'f + 'a" where
  "map_err g r = (case r of Inl e \<Rightarrow> Inl (g e) | Inr a \<Rightarrow> Inr a)"

definition is_ok :: "'e + 'a \<Rightarrow> bool" where
  "is_ok r = (case r of Inl _ \<Rightarrow> False | Inr _ \<Rightarrow> True)"

lemma and_then_simps [simp]:
  "and_then (Inl e) f = Inl e" "and_then (Inr a) f = f a"
  by (simp_all add: and_then_def)

lemma map_err_simps [simp]:
  "map_err g (Inl e) = Inl (g e)" "map_err g (Inr a) = Inr a"
  by (simp_all add: map_err_def)

lemma is_ok_simps [simp]: "is_ok (Inl e) = False" "is_ok (Inr a) = True"
  by (simp_all add: is_ok_def)

lemma and_then_Inr: "and_then r f = Inr b \<longleftrightarrow> (\<exists>a. r = Inr a \<and> f a = Inr b)"
  by (cases r) auto

lemma and_then_Inl: "and_then r f = Inl e \<longleftrightarrow> r = Inl e \<or> (\<exists>a. r = Inr a \<and> f a = Inl e)"
  by (cases r) auto

lemma map_err_Inr [simp]: "map_err g r = Inr a \<longleftrightarrow> r = Inr a"
  by (cases r) auto

lemma is_ok_iff: "is_ok r \<longleftrightarrow> (\<exists>a. r = Inr a)"
  by (cases r) auto

lemma is_ok_and_then: "is_ok (and_then r f) \<longleftrightarrow> (\<exists>a. r = Inr a \<and> is_ok (f a))"
  by (cases r) auto

section \<open>Numbers as text\<close>

fun show_nat :: "nat \<Rightarrow> string" where
  "show_nat n = (if n < 10 then [char_of (48 + n)] else show_nat (n div 10) @ [char_of (48 + n mod 10)])"

declare show_nat.simps [simp del]

definition digit_val :: "char \<Rightarrow> nat" where
  "digit_val c = of_char c - 48"

definition read_nat :: "string \<Rightarrow> nat" where
  "read_nat s = foldl (\<lambda>n c. 10 * n + digit_val c) 0 s"

lemma digit_val_char_of: "d < 10 \<Longrightarrow> digit_val (char_of (48 + d)) = d"
  by (simp add: digit_val_def of_char_of take_bit_eq_mod)

lemma read_show_nat [simp]: "read_nat (show_nat n) = n"
proof (induction n rule: show_nat.induct)
  case (1 n)
  then show ?case
    by (subst show_nat.simps) (auto simp: read_nat_def digit_val_char_of)
qed

lemma show_nat_inject [simp]: "show_nat m = show_nat n \<longleftrightarrow> m = n"
  by (metis read_show_nat)

lemma show_nat_nonempty [simp]: "show_nat n \<noteq> []"
  by (subst show_nat.simps) simp

definition hex_digit :: "nat \<Rightarrow> char" where
  "hex_digit d = (if d < 10 then char_of (48 + d) else char_of (87 + d))"

fun show_hex :: "nat \<Rightarrow> string" where
  "show_hex n = (if n < 16 then [hex_digit n] else show_hex (n div 16) @ [hex_digit (n mod 16)])"

declare show_hex.simps [simp del]

section \<open>Strings\<close>

text \<open>\<open>str::chars().count()\<close> and \<open>str::chars().take(n)\<close> on UTF-8 bytes.\<close>

definition is_continuation :: "char \<Rightarrow> bool" where
  "is_continuation c = ((of_char c :: nat) div 64 = 2)"

definition chars_count :: "string \<Rightarrow> nat" where
  "chars_count s = length (filter (\<lambda>c. \<not> is_continuation c) s)"

fun chars_take :: "nat \<Rightarrow> string \<Rightarrow> string" where
  "chars_take n [] = []"
| "chars_take n (c # cs) =
     (if is_continuation c then c # chars_take n cs
      else if n = 0 then [] else c # chars_take (n - 1) cs)"

definition is_ascii_lowercase :: "char \<Rightarrow> bool" where
  "is_ascii_lowercase c = ((of_char c :: nat) \<in> {97..122})"

definition is_ascii_uppercase :: "char \<Rightarrow> bool" where
  "is_ascii_uppercase c = ((of_char c :: nat) \<in> {65..90})"

definition is_ascii_digit :: "char \<Rightarrow> bool" where
  "is_ascii_digit c = ((of_char c :: nat) \<in> {48..57})"

text \<open>\<open>str::split(d)\<close>: always at least one piece.\<close>

fun split_on :: "char \<Rightarrow> string \<Rightarrow> string list" where
  "split_on d [] = [[]]"
| "split_on d (c # cs) =
     (if c = d then [] # split_on d cs
      else (case split_on d cs of [] \<Rightarrow> [[c]] | s # ss \<Rightarrow> (c # s) # ss))"

fun join_with :: "char \<Rightarrow> string list \<Rightarrow> string" where
  "join_with d [] = []"
| "join_with d [s] = s"
| "join_with d (s # t # ss) = s @ d # join_with d (t # ss)"

lemma split_on_nonempty [simp]: "split_on d s \<noteq> []"
  by (cases s) (auto split: list.split)

lemma split_on_no_sep: "p \<in> set (split_on d s) \<Longrightarrow> d \<notin> set p"
proof (induction s arbitrary: p)
  case (Cons c cs)
  then show ?case by (cases "split_on d cs") (auto split: if_splits)
qed simp

lemma join_split [simp]: "join_with d (split_on d s) = s"
proof (induction s)
  case (Cons c cs)
  obtain p ps where ps: "split_on d cs = p # ps"
    by (cases "split_on d cs") auto
  with Cons show ?case by (cases ps) auto
qed simp

lemma split_on_append_sep:
  "d \<notin> set p \<Longrightarrow> split_on d (p @ d # s) = p # split_on d s"
  by (induction p) auto

lemma split_on_plain: "d \<notin> set p \<Longrightarrow> split_on d p = [p]"
  by (induction p) auto

lemma split_join:
  "ss \<noteq> [] \<Longrightarrow> \<forall>s \<in> set ss. d \<notin> set s \<Longrightarrow> split_on d (join_with d ss) = ss"
  by (induction d ss rule: join_with.induct) (auto simp: split_on_plain split_on_append_sep)

text \<open>
  \<open>format!("{:?}")\<close> of a string: double quotes around it, and the ASCII escapes of
  \<open>char::escape_debug\<close>.  Bytes of multi-byte characters are kept as they are; the escapes
  Rust applies to unprintable characters outside ASCII are the one thing this leaves out, and no
  definition looks inside such a text.
\<close>

definition escape_debug :: "char \<Rightarrow> string" where
  "escape_debug c =
     (if c = CHR 0x22 then [CHR 0x5C, CHR 0x22]
      else if c = CHR 0x5C then [CHR 0x5C, CHR 0x5C]
      else if c = CHR 0x00 then [CHR 0x5C, CHR ''0'']
      else if c = CHR 0x09 then [CHR 0x5C, CHR ''t'']
      else if c = CHR 0x0A then [CHR 0x5C, CHR ''n'']
      else if c = CHR 0x0D then [CHR 0x5C, CHR ''r'']
      else if (of_char c :: nat) < 32 \<or> c = CHR 0x7F
      then [CHR 0x5C, CHR ''u'', CHR 0x7B] @ show_hex (of_char c) @ [CHR 0x7D]
      else [c])"

definition debug_str :: "string \<Rightarrow> string" where
  "debug_str s = [CHR 0x22] @ concat (map escape_debug s) @ [CHR 0x22]"

text \<open>The character U+2026 the crate's messages use for an ellipsis, in UTF-8.\<close>

definition ellipsis :: string where
  "ellipsis = [CHR 0xE2, CHR 0x80, CHR 0xA6]"

definition quoted :: "string \<Rightarrow> string" where
  "quoted s = [CHR 0x22] @ s @ [CHR 0x22]"

text \<open>\<open>String::from_utf8_lossy\<close>: each maximal invalid prefix becomes U+FFFD.\<close>

definition utf8_second_ok :: "byte \<Rightarrow> byte \<Rightarrow> bool" where
  "utf8_second_ok a b =
     (if a = 0xE0 then 0xA0 \<le> b \<and> b \<le> 0xBF
      else if a = 0xED then 0x80 \<le> b \<and> b \<le> 0x9F
      else if a = 0xF0 then 0x90 \<le> b \<and> b \<le> 0xBF
      else if a = 0xF4 then 0x80 \<le> b \<and> b \<le> 0x8F
      else 0x80 \<le> b \<and> b \<le> 0xBF)"

definition utf8_width :: "byte \<Rightarrow> nat" where
  "utf8_width a =
     (if a < 0x80 then 1 else if 0xC2 \<le> a \<and> a \<le> 0xDF then 2
      else if 0xE0 \<le> a \<and> a \<le> 0xEF then 3 else if 0xF0 \<le> a \<and> a \<le> 0xF4 then 4 else 0)"

text \<open>The length of the valid part of the sequence that \<open>a\<close> opens, at most its width.\<close>

definition utf8_valid_prefix :: "byte \<Rightarrow> byte list \<Rightarrow> nat" where
  "utf8_valid_prefix a rest =
     (let w = utf8_width a in
      if w \<le> 1 then w
      else (case rest of [] \<Rightarrow> 1
            | b # more \<Rightarrow>
                if utf8_second_ok a b
                then 2 + length (takeWhile (\<lambda>c. 0x80 \<le> c \<and> c \<le> 0xBF) (take (w - 2) more))
                else 1))"

definition byte_char :: "byte \<Rightarrow> char" where
  "byte_char b = char_of (unat b)"

definition char_byte :: "char \<Rightarrow> byte" where
  "char_byte c = of_nat (of_char c)"

definition bytes_of :: "string \<Rightarrow> byte list" where
  "bytes_of s = map char_byte s"

function from_utf8_lossy :: "byte list \<Rightarrow> string" where
  "from_utf8_lossy [] = []"
| "from_utf8_lossy (a # rest) =
     (let n = utf8_valid_prefix a rest in
      if n = utf8_width a \<and> 0 < n
      then map byte_char (a # take (n - 1) rest) @ from_utf8_lossy (drop (n - 1) rest)
      else [CHR 0xEF, CHR 0xBF, CHR 0xBD] @ from_utf8_lossy (drop (n - 1) rest))"
  by pat_completeness auto
termination
  by (relation "measure length") auto

lemma char_byte_char [simp]: "byte_char (char_byte c) = c"
  by (simp add: byte_char_def char_byte_def unat_of_nat of_char_mod_256)

lemma byte_char_byte [simp]: "char_byte (byte_char b) = b"
proof -
  have "unat b < 256" using unsigned_less [of b, where 'a = nat] by simp
  then show ?thesis
    by (simp add: byte_char_def char_byte_def of_char_of take_bit_eq_mod)
qed

lemma length_bytes_of [simp]: "length (bytes_of s) = length s"
  by (simp add: bytes_of_def)

section \<open>Integers on the wire\<close>

text \<open>\<open>u32::to_be_bytes\<close> and \<open>u32::from_be_bytes\<close>.\<close>

definition u32_to_be_bytes :: "u32 \<Rightarrow> byte list" where
  "u32_to_be_bytes w =
     [ucast (drop_bit 24 w), ucast (drop_bit 16 w), ucast (drop_bit 8 w), ucast w]"

definition u32_from_be_bytes :: "byte \<Rightarrow> byte \<Rightarrow> byte \<Rightarrow> byte \<Rightarrow> u32" where
  "u32_from_be_bytes a b c d =
     push_bit 24 (ucast a) OR push_bit 16 (ucast b) OR push_bit 8 (ucast c) OR ucast d"

definition u32_max :: u32 where "u32_max = 0xFFFFFFFF"

text \<open>\<open>u32::try_from(n).unwrap_or(u32::MAX)\<close>.\<close>

definition u32_saturating :: "nat \<Rightarrow> u32" where
  "u32_saturating n = (if n < 2 ^ 32 then of_nat n else u32_max)"

text \<open>\<open>u64::try_from(n).unwrap_or(u64::MAX)\<close> for a \<open>usize\<close>.\<close>

definition u64_saturating :: "nat \<Rightarrow> u64" where
  "u64_saturating n = (if n < 2 ^ 64 then of_nat n else - 1)"

definition div_ceil :: "nat \<Rightarrow> nat \<Rightarrow> nat" where
  "div_ceil a b = (if a mod b = 0 then a div b else a div b + 1)"

lemma u32_be_bytes [simp]:
  "u32_from_be_bytes (ucast (drop_bit 24 w)) (ucast (drop_bit 16 w)) (ucast (drop_bit 8 w)) (ucast w)
     = w"
proof (rule bit_word_eqI)
  fix n
  assume "n < LENGTH(32)"
  then consider "n < 8" | "8 \<le> n" "n < 16" | "16 \<le> n" "n < 24" | "24 \<le> n" "n < 32"
    by (simp, linarith)
  then show "bit (u32_from_be_bytes (ucast (drop_bit 24 w)) (ucast (drop_bit 16 w))
      (ucast (drop_bit 8 w)) (ucast w)) n = bit w n"
    by cases (auto simp: u32_from_be_bytes_def bit_simps)
qed

lemma u32_from_be_bytes_inverse [simp]:
  "u32_to_be_bytes (u32_from_be_bytes a b c d) = [a, b, c, d]"
proof -
  have "ucast (drop_bit 24 (u32_from_be_bytes a b c d)) = a"
    "ucast (drop_bit 16 (u32_from_be_bytes a b c d)) = b"
    "ucast (drop_bit 8 (u32_from_be_bytes a b c d)) = c"
    "ucast (u32_from_be_bytes a b c d) = d"
    by (rule bit_word_eqI; auto simp: u32_from_be_bytes_def bit_simps dest: bit_imp_le_length)+
  then show ?thesis by (simp add: u32_to_be_bytes_def)
qed

lemma length_u32_to_be_bytes [simp]: "length (u32_to_be_bytes w) = 4"
  by (simp add: u32_to_be_bytes_def)

lemma unat_u32_max [simp]: "unat u32_max = 2 ^ 32 - 1"
  by (simp add: u32_max_def)

lemma unat_u32_saturating: "unat (u32_saturating n) = min n (2 ^ 32 - 1)"
  by (auto simp: u32_saturating_def unat_of_nat take_bit_nat_eq_self min_def)

lemma unat_of_nat_u32: "n < 2 ^ 32 \<Longrightarrow> unat (of_nat n :: u32) = n"
  by (simp add: unat_of_nat take_bit_nat_eq_self)

lemma of_nat_u32_eq: "a < 2 ^ 32 \<Longrightarrow> b < 2 ^ 32 \<Longrightarrow> (of_nat a :: u32) = of_nat b \<longleftrightarrow> a = b"
  by (metis unat_of_nat_u32)

lemma div_ceil_le_iff: "0 < b \<Longrightarrow> div_ceil a b \<le> n \<longleftrightarrow> a \<le> n * b"
proof -
  assume b: "0 < b"
  have eq: "a = a div b * b + a mod b" by simp
  show ?thesis
  proof (cases "a mod b = 0")
    case True
    then have "a = a div b * b" using eq by simp
    then show ?thesis using True b
      by (metis div_ceil_def div_le_mono div_mult_self_is_m mult_le_mono1)
  next
    case False
    have "a div b < n \<longleftrightarrow> a < n * b"
      using b by (rule div_less_iff_less_mult)
    moreover have "a \<noteq> n * b" using False by auto
    ultimately show ?thesis using False by (auto simp: div_ceil_def)
  qed
qed

lemma div_ceil_pos: "0 < b \<Longrightarrow> 0 < a \<Longrightarrow> 0 < div_ceil a b"
  using div_ceil_le_iff [of b a 0] by auto

end
