(* ===== verification/Tables.thy ===== *)
theory Tables
  imports Prelude
begin

text \<open>
  The crate keeps its state in \<open>HashMap\<close>s (pending requests, active requests, handlers, sequence
  counters) and its JSON objects in \<open>serde_json::Map\<close>, a \<open>BTreeMap\<close>.  Both are association lists
  here: a \<open>HashMap\<close> one with distinct keys whose order nothing may depend on, a \<open>BTreeMap\<close> one
  sorted by key.  The locale \<open>table\<close> states what a client relies on of either.
\<close>

section \<open>The interface\<close>

locale table =
  fixes get :: "'t \<Rightarrow> 'k \<Rightarrow> 'v option"
    and ins :: "'k \<Rightarrow> 'v \<Rightarrow> 't \<Rightarrow> 't"
    and rem :: "'k \<Rightarrow> 't \<Rightarrow> 't"
    and len :: "'t \<Rightarrow> nat"
    and inv :: "'t \<Rightarrow> bool"
  assumes get_ins: "inv t \<Longrightarrow> get (ins k v t) = (get t)(k \<mapsto> v)"
    and get_rem: "inv t \<Longrightarrow> get (rem k t) = (get t)(k := None)"
    and inv_ins: "inv t \<Longrightarrow> inv (ins k v t)"
    and inv_rem: "inv t \<Longrightarrow> inv (rem k t)"
    and finite_dom: "inv t \<Longrightarrow> finite (dom (get t))"
    and len_card: "inv t \<Longrightarrow> len t = card (dom (get t))"
begin

lemma len_ins_new:
  assumes "inv t" and "get t k = None"
  shows "len (ins k v t) = Suc (len t)"
proof -
  have "k \<notin> dom (get t)" using assms by auto
  then show ?thesis using assms by (simp add: len_card get_ins inv_ins finite_dom)
qed

lemma len_ins_old:
  assumes "inv t" and "get t k = Some w"
  shows "len (ins k v t) = len t"
proof -
  have "insert k (dom (get t)) = dom (get t)" using assms by auto
  then show ?thesis using assms by (simp add: len_card get_ins inv_ins)
qed

lemma len_rem_present:
  assumes "inv t" and "get t k = Some w"
  shows "Suc (len (rem k t)) = len t"
proof -
  have "dom ((get t)(k := None)) = dom (get t) - {k}" by auto
  moreover have "k \<in> dom (get t)" using assms by auto
  ultimately show ?thesis
    using assms card_Suc_Diff1 [of "dom (get t)" k] by (simp add: len_card get_rem inv_rem finite_dom)
qed

lemma rem_absent:
  assumes "inv t" and "get t k = None"
  shows "get (rem k t) = get t"
  using assms by (simp add: get_rem fun_upd_idem)

lemma len_rem_le: "inv t \<Longrightarrow> len (rem k t) \<le> len t"
  by (simp add: len_card inv_rem get_rem finite_dom card_mono)

lemma rem_ins:
  assumes "inv t" and "get t k = None"
  shows "get (rem k (ins k v t)) = get t"
  using assms by (auto simp: get_rem get_ins inv_ins)

lemma len_bound_step:
  assumes "inv t" and "len t \<le> n" and "get t k \<noteq> None \<or> len t < n"
  shows "len (ins k v t) \<le> n"
  using assms by (cases "get t k") (auto simp: len_ins_new len_ins_old)

end

section \<open>HashMap\<close>

type_synonym ('k, 'v) hmap = "('k \<times> 'v) list"

definition hm_get :: "('k, 'v) hmap \<Rightarrow> 'k \<Rightarrow> 'v option" where
  "hm_get m k = map_of m k"

definition hm_insert :: "'k \<Rightarrow> 'v \<Rightarrow> ('k, 'v) hmap \<Rightarrow> ('k, 'v) hmap" where
  "hm_insert k v m = AList.update k v m"

definition hm_remove :: "'k \<Rightarrow> ('k, 'v) hmap \<Rightarrow> ('k, 'v) hmap" where
  "hm_remove k m = AList.delete k m"

definition hm_contains :: "('k, 'v) hmap \<Rightarrow> 'k \<Rightarrow> bool" where
  "hm_contains m k = (hm_get m k \<noteq> None)"

definition hm_wf :: "('k, 'v) hmap \<Rightarrow> bool" where
  "hm_wf m = distinct (map fst m)"

lemma hm_wf_empty [simp]: "hm_wf []"
  by (simp add: hm_wf_def)

lemma hm_get_empty [simp]: "hm_get [] = Map.empty"
  by (simp add: hm_get_def [abs_def])

lemma hm_get_insert [simp]: "hm_get (hm_insert k v m) = (hm_get m)(k \<mapsto> v)"
  by (simp add: hm_get_def [abs_def] hm_insert_def update_conv')

lemma hm_get_remove [simp]: "hm_get (hm_remove k m) = (hm_get m)(k := None)"
  by (simp add: hm_get_def [abs_def] hm_remove_def delete_conv')

lemma hm_wf_insert [simp]: "hm_wf m \<Longrightarrow> hm_wf (hm_insert k v m)"
  by (simp add: hm_wf_def hm_insert_def distinct_update)

lemma hm_wf_remove [simp]: "hm_wf m \<Longrightarrow> hm_wf (hm_remove k m)"
  by (simp add: hm_wf_def hm_remove_def distinct_delete)

lemma hm_get_in_set: "hm_get m k = Some v \<Longrightarrow> (k, v) \<in> set m"
  by (simp add: hm_get_def map_of_SomeD)

lemma hm_get_mem: "hm_wf m \<Longrightarrow> hm_get m k = Some v \<longleftrightarrow> (k, v) \<in> set m"
  by (simp add: hm_get_def hm_wf_def)

interpretation hm: table hm_get hm_insert hm_remove length hm_wf
proof
  fix t :: "('k, 'v) hmap"
  assume "hm_wf t"
  then show "length t = card (dom (hm_get t))"
    by (metis distinct_card dom_map_of_conv_image_fst hm_get_def [abs_def] hm_wf_def length_map list.set_map)
qed (simp_all add: hm_get_def [abs_def] finite_dom_map_of
      hm_get_insert [unfolded hm_get_def [abs_def]] hm_get_remove [unfolded hm_get_def [abs_def]])

section \<open>BTreeMap\<close>

type_synonym ('k, 'v) bmap = "('k \<times> 'v) list"

fun bm_insert :: "'k :: linorder \<Rightarrow> 'v \<Rightarrow> ('k, 'v) bmap \<Rightarrow> ('k, 'v) bmap" where
  "bm_insert k v [] = [(k, v)]"
| "bm_insert k v ((j, w) # m) =
     (if k < j then (k, v) # (j, w) # m
      else if k = j then (k, v) # m
      else (j, w) # bm_insert k v m)"

definition bm_remove :: "'k \<Rightarrow> ('k, 'v) bmap \<Rightarrow> ('k, 'v) bmap" where
  "bm_remove k m = filter (\<lambda>e. fst e \<noteq> k) m"

definition bm_get :: "('k, 'v) bmap \<Rightarrow> 'k \<Rightarrow> 'v option" where
  "bm_get m k = map_of m k"

definition bm_wf :: "('k :: linorder, 'v) bmap \<Rightarrow> bool" where
  "bm_wf m = sorted_wrt (<) (map fst m)"

lemma bm_insert_keys: "fst ` set (bm_insert k v m) = insert k (fst ` set m)"
  by (induction k v m rule: bm_insert.induct) auto

lemma bm_get_insert [simp]: "bm_get (bm_insert k v m) = (bm_get m)(k \<mapsto> v)"
proof -
  have "map_of (bm_insert k v m) = (map_of m)(k \<mapsto> v)"
    by (induction k v m rule: bm_insert.induct) auto
  then show ?thesis by (simp add: bm_get_def [abs_def])
qed

lemma bm_wf_insert [simp]: "bm_wf m \<Longrightarrow> bm_wf (bm_insert k v m)"
proof (induction k v m rule: bm_insert.induct)
  case (2 k v j w m)
  have "\<forall>x \<in> set (bm_insert k v m). fst x = k \<or> fst x \<in> fst ` set m"
    using bm_insert_keys [of k v m] by blast
  with 2 show ?case by (fastforce simp: bm_wf_def)
qed (simp add: bm_wf_def)

lemma bm_get_remove [simp]: "bm_get (bm_remove k m) = (bm_get m)(k := None)"
  by (auto simp: bm_get_def [abs_def] bm_remove_def map_of_filter_in fun_eq_iff map_of_eq_None_iff
      intro!: ext)
     (induction m, auto)+

lemma bm_get_empty [simp]: "bm_get [] k = None"
  by (simp add: bm_get_def)

lemma bm_wf_empty [simp]: "bm_wf []"
  by (simp add: bm_wf_def)

interpretation bm: table "bm_get :: ('k :: linorder, 'v) bmap \<Rightarrow> _" bm_insert bm_remove length bm_wf
proof
  fix t :: "('k, 'v) bmap" and k
  assume wf: "bm_wf t"
  show "bm_wf (bm_remove k t)"
    using wf by (simp add: bm_wf_def bm_remove_def sorted_wrt_map sorted_wrt_filter)
  from wf have "distinct (map fst t)"
    by (simp add: bm_wf_def strict_sorted_iff)
  then show "length t = card (dom (bm_get t))"
    by (metis bm_get_def [abs_def] distinct_card dom_map_of_conv_image_fst length_map list.set_map)
qed (simp_all add: bm_get_def [abs_def] finite_dom_map_of
      bm_get_insert [unfolded bm_get_def [abs_def]] bm_get_remove [unfolded bm_get_def [abs_def]])

end
