(* ===== verification/Wire.thy ===== *)
theory Wire
  imports Tables
begin

text \<open>
  The vocabulary of the wire: JSON values, the protocol version and its negotiation
  (\<open>version.rs\<close>), the close codes (\<open>close.rs\<close>), the error codes, the codec's refusal and the error
  a requester sees (\<open>error.rs\<close>), and the frames (\<open>frame.rs\<close>).
\<close>

section \<open>JSON values\<close>

text \<open>\<open>serde_json::Value\<close>; an object is a \<open>serde_json::Map\<close>, a map sorted by key.\<close>

datatype jnumber = PosInt u64 | NegInt int | is_Float: Float u64

datatype json =
  JNull | JBool bool | JNumber jnumber | JString string | JArray "json list"
  | JObject "(string \<times> json) list"

type_synonym jmap = "(string, json) bmap"

definition is_object :: "json \<Rightarrow> bool" where
  "is_object v = (case v of JObject _ \<Rightarrow> True | _ \<Rightarrow> False)"

text \<open>\<open>Value::from\<close> of the integer and string types the crate puts into \<open>details\<close>.\<close>

definition json_nat :: "nat \<Rightarrow> json" where "json_nat n = JNumber (PosInt (u64_saturating n))"
definition json_u64 :: "u64 \<Rightarrow> json" where "json_u64 w = JNumber (PosInt w)"
definition json_u32 :: "u32 \<Rightarrow> json" where "json_u32 w = JNumber (PosInt (ucast w))"
definition json_u16 :: "u16 \<Rightarrow> json" where "json_u16 w = JNumber (PosInt (ucast w))"

section \<open>Version negotiation\<close>

record protocol_version =
  pv_major :: u32
  pv_minor :: u32

definition PROTOCOL_VERSION :: protocol_version where
  "PROTOCOL_VERSION = \<lparr>pv_major = 1, pv_minor = 1\<rparr>"

definition PROTOCOL_MAJOR :: u16 where "PROTOCOL_MAJOR = 1"
definition PROTOCOL_MINOR :: u16 where "PROTOCOL_MINOR = 1"

datatype negotiation = Compatible u32 | Mismatch u16

section \<open>Close codes\<close>

definition close_RELEASED :: u16 where "close_RELEASED = 4000"
definition close_PROTOCOL_ERROR :: u16 where "close_PROTOCOL_ERROR = 4400"
definition close_UNAUTHORIZED :: u16 where "close_UNAUTHORIZED = 4401"
definition close_FORBIDDEN :: u16 where "close_FORBIDDEN = 4403"
definition close_SUPERSEDED :: u16 where "close_SUPERSEDED = 4409"
definition close_PROTOCOL_MISMATCH :: u16 where "close_PROTOCOL_MISMATCH = 4426"
definition close_RATE_LIMITED :: u16 where "close_RATE_LIMITED = 4429"
definition close_INTERNAL :: u16 where "close_INTERNAL = 4500"

lemmas close_codes =
  close_RELEASED_def close_PROTOCOL_ERROR_def close_UNAUTHORIZED_def close_FORBIDDEN_def
  close_SUPERSEDED_def close_PROTOCOL_MISMATCH_def close_RATE_LIMITED_def close_INTERNAL_def

definition MIN_CLOSE_CODE :: u16 where "MIN_CLOSE_CODE = 4000"
definition MAX_CLOSE_CODE :: u16 where "MAX_CLOSE_CODE = 4999"

definition FATAL :: "u16 list" where
  "FATAL = [close_UNAUTHORIZED, close_FORBIDDEN, close_SUPERSEDED, close_PROTOCOL_MISMATCH]"

definition is_fatal_close_code :: "u16 \<Rightarrow> bool" where
  "is_fatal_close_code code = (code \<in> set FATAL)"

definition close_code_name :: "u16 \<Rightarrow> string option" where
  "close_code_name code =
     (if code = close_RELEASED then Some ''RELEASED''
      else if code = close_PROTOCOL_ERROR then Some ''PROTOCOL_ERROR''
      else if code = close_UNAUTHORIZED then Some ''UNAUTHORIZED''
      else if code = close_FORBIDDEN then Some ''FORBIDDEN''
      else if code = close_SUPERSEDED then Some ''SUPERSEDED''
      else if code = close_PROTOCOL_MISMATCH then Some ''PROTOCOL_MISMATCH''
      else if code = close_RATE_LIMITED then Some ''RATE_LIMITED''
      else if code = close_INTERNAL then Some ''INTERNAL''
      else None)"

definition negotiate :: "protocol_version \<Rightarrow> protocol_version \<Rightarrow> negotiation" where
  "negotiate local remote =
     (if pv_major local \<noteq> pv_major remote then Mismatch close_PROTOCOL_MISMATCH
      else Compatible (min (pv_minor local) (pv_minor remote)))"

definition effective_minor :: "negotiation \<Rightarrow> u32 option" where
  "effective_minor n = (case n of Compatible m \<Rightarrow> Some m | Mismatch _ \<Rightarrow> None)"

section \<open>Error codes and errors\<close>

definition code_UNAVAILABLE :: string where "code_UNAVAILABLE = ''UNAVAILABLE''"
definition code_INVALID_REQUEST :: string where "code_INVALID_REQUEST = ''INVALID_REQUEST''"
definition code_METHOD_UNSUPPORTED :: string where "code_METHOD_UNSUPPORTED = ''METHOD_UNSUPPORTED''"
definition code_INVALID_PARAMS :: string where "code_INVALID_PARAMS = ''INVALID_PARAMS''"
definition code_DENIED :: string where "code_DENIED = ''DENIED''"
definition code_CANCELLED :: string where "code_CANCELLED = ''CANCELLED''"
definition code_TIMEOUT :: string where "code_TIMEOUT = ''TIMEOUT''"
definition code_FRAME_TOO_LARGE :: string where "code_FRAME_TOO_LARGE = ''FRAME_TOO_LARGE''"
definition code_PROTOCOL_MISMATCH :: string where "code_PROTOCOL_MISMATCH = ''PROTOCOL_MISMATCH''"
definition code_INTERNAL :: string where "code_INTERNAL = ''INTERNAL''"

definition RESERVED :: "string list" where
  "RESERVED = [code_UNAVAILABLE, code_INVALID_REQUEST, code_METHOD_UNSUPPORTED,
     code_INVALID_PARAMS, code_DENIED, code_CANCELLED, code_TIMEOUT, code_FRAME_TOO_LARGE,
     code_PROTOCOL_MISMATCH, code_INTERNAL]"

lemmas error_codes =
  code_UNAVAILABLE_def code_INVALID_REQUEST_def code_METHOD_UNSUPPORTED_def
  code_INVALID_PARAMS_def code_DENIED_def code_CANCELLED_def code_TIMEOUT_def
  code_FRAME_TOO_LARGE_def code_PROTOCOL_MISMATCH_def code_INTERNAL_def

definition is_reserved_error_code :: "string \<Rightarrow> bool" where
  "is_reserved_error_code code = (code \<in> set RESERVED)"

datatype codec_error_kind =
  InvalidJson | Schema | TooLarge | ChunkVersion | ChunkHeader | ChunkCount | ChunkIndex
  | ChunkDribble

definition kind_reason :: "codec_error_kind \<Rightarrow> string" where
  "kind_reason k =
     (case k of InvalidJson \<Rightarrow> ''invalid-json'' | Schema \<Rightarrow> ''schema'' | TooLarge \<Rightarrow> ''too-large''
      | ChunkVersion \<Rightarrow> ''chunk-version'' | ChunkHeader \<Rightarrow> ''chunk-header''
      | ChunkCount \<Rightarrow> ''chunk-count'' | ChunkIndex \<Rightarrow> ''chunk-index''
      | ChunkDribble \<Rightarrow> ''chunk-dribble'')"

record codec_error =
  ce_kind :: codec_error_kind
  ce_message :: string
  ce_frame_type :: "string option"

definition codec_error_new :: "codec_error_kind \<Rightarrow> string \<Rightarrow> codec_error" where
  "codec_error_new kind message = \<lparr>ce_kind = kind, ce_message = message, ce_frame_type = None\<rparr>"

definition with_frame_type :: "codec_error \<Rightarrow> string \<Rightarrow> codec_error" where
  "with_frame_type e ty = e\<lparr>ce_frame_type := Some ty\<rparr>"

definition codec_error_display :: "codec_error \<Rightarrow> string" where
  "codec_error_display e = kind_reason (ce_kind e) @ '': '' @ ce_message e"

definition close_code_for_codec_error :: "codec_error \<Rightarrow> u16" where
  "close_code_for_codec_error e =
     (if ce_kind e = Schema \<and> ce_frame_type e = Some ''hello'' then close_PROTOCOL_MISMATCH
      else close_PROTOCOL_ERROR)"

record remote_error =
  re_code :: string
  re_message :: string
  re_details :: "jmap option"

definition remote_error_new :: "string \<Rightarrow> string \<Rightarrow> remote_error" where
  "remote_error_new code message = \<lparr>re_code = code, re_message = message, re_details = None\<rparr>"

definition with_details :: "remote_error \<Rightarrow> jmap \<Rightarrow> remote_error" where
  "with_details e details = e\<lparr>re_details := Some details\<rparr>"

definition with_detail :: "remote_error \<Rightarrow> string \<Rightarrow> json \<Rightarrow> remote_error" where
  "with_detail e key value =
     e\<lparr>re_details := Some (bm_insert key value (case re_details e of None \<Rightarrow> [] | Some d \<Rightarrow> d))\<rparr>"

definition remote_error_display :: "remote_error \<Rightarrow> string" where
  "remote_error_display e = re_code e @ '': '' @ re_message e"

section \<open>Frames\<close>

record peer_info =
  peer_name :: string
  peer_version :: string
  peer_role :: string

record limits =
  lim_max_frame_bytes :: "u64 option"
  lim_max_in_flight :: "u64 option"

definition limits_default :: limits where
  "limits_default = \<lparr>lim_max_frame_bytes = None, lim_max_in_flight = None\<rparr>"

record hello =
  hello_protocol :: protocol_version
  hello_peer :: peer_info
  hello_capabilities :: jmap
  hello_limits :: "limits option"

record request =
  req_id :: string
  req_method :: string
  req_params :: json

record response =
  res_id :: string
  res_result :: json

record error_payload =
  ep_code :: string
  ep_message :: string
  ep_details :: "jmap option"

record error_response =
  err_id :: string
  err_error :: error_payload

text \<open>The unit-like \<open>End\<close> marker; the only JSON value it is read from is \<open>true\<close>.\<close>

datatype end_marker = End

record event =
  evt_topic :: string
  evt_seq :: u64
  evt_stream_id :: "string option"
  evt_payload :: json
  evt_end :: "end_marker option"

record cancel_frame =
  cancel_id :: string

record close_frame =
  close_code :: u16
  close_reason :: "string option"

datatype frame =
  Hello hello | Req request | Res response | Err error_response | Evt event
  | Cancel cancel_frame | Ping | Pong | Close close_frame

definition type_name :: "frame \<Rightarrow> string" where
  "type_name f =
     (case f of Hello _ \<Rightarrow> ''hello'' | Req _ \<Rightarrow> ''req'' | Res _ \<Rightarrow> ''res'' | Err _ \<Rightarrow> ''err''
      | Evt _ \<Rightarrow> ''evt'' | Cancel _ \<Rightarrow> ''cancel'' | Ping \<Rightarrow> ''ping'' | Pong \<Rightarrow> ''pong''
      | Close _ \<Rightarrow> ''close'')"

text \<open>\<open>impl Serialize for End\<close> and \<open>impl Deserialize for End\<close>.\<close>

definition end_serialize :: "end_marker \<Rightarrow> json" where
  "end_serialize m = JBool True"

definition end_deserialize :: "json \<Rightarrow> end_marker option" where
  "end_deserialize v = (case v of JBool True \<Rightarrow> Some End | _ \<Rightarrow> None)"

section \<open>Lemmas\<close>

lemma re_details_with_detail:
  "re_details (with_detail e k v) \<noteq> None"
  "re_code (with_detail e k v) = re_code e"
  "re_message (with_detail e k v) = re_message e"
  by (simp_all add: with_detail_def)

definition detail :: "remote_error \<Rightarrow> string \<Rightarrow> json option" where
  "detail e k = (case re_details e of None \<Rightarrow> None | Some d \<Rightarrow> bm_get d k)"

lemma detail_with_detail [simp]: "detail (with_detail e k v) = (detail e)(k \<mapsto> v)"
  by (auto simp: detail_def with_detail_def fun_eq_iff split: option.splits)

lemma detail_new [simp]: "detail (remote_error_new c m) k = None"
  by (simp add: detail_def remote_error_new_def)

lemma re_code_new [simp]: "re_code (remote_error_new c m) = c" "re_message (remote_error_new c m) = m"
  by (simp_all add: remote_error_new_def)

lemmas re_with_detail [simp] = re_details_with_detail(2,3)

lemma ce_new [simp]:
  "ce_kind (codec_error_new k m) = k" "ce_message (codec_error_new k m) = m"
  "ce_frame_type (codec_error_new k m) = None"
  by (simp_all add: codec_error_new_def)

lemma ce_with_frame_type [simp]:
  "ce_kind (with_frame_type e t) = ce_kind e" "ce_frame_type (with_frame_type e t) = Some t"
  by (simp_all add: with_frame_type_def)

lemma negotiate_Compatible:
  "negotiate l r = Compatible m \<longleftrightarrow> pv_major l = pv_major r \<and> m = min (pv_minor l) (pv_minor r)"
  by (auto simp: negotiate_def)

lemma is_fatal_iff:
  "is_fatal_close_code c \<longleftrightarrow> c = 4401 \<or> c = 4403 \<or> c = 4409 \<or> c = 4426"
  by (simp add: is_fatal_close_code_def FATAL_def close_codes)

text \<open>
  Negotiation is symmetric, so two peers that exchange hellos always reach the same verdict;
  when they agree on the major the session runs at a minor neither peer exceeds and one of them
  announced, and a disagreement is always close code 4426, a fatal one.
\<close>

theorem negotiate_agreement:
  "negotiate l r = negotiate r l
   \<and> (case negotiate l r of
        Compatible m \<Rightarrow> pv_major l = pv_major r \<and> m \<le> pv_minor l \<and> m \<le> pv_minor r
                        \<and> (m = pv_minor l \<or> m = pv_minor r)
      | Mismatch c \<Rightarrow> pv_major l \<noteq> pv_major r \<and> c = 4426 \<and> is_fatal_close_code c)"
  by (auto simp: negotiate_def is_fatal_iff close_codes min.commute min_def)

text \<open>
  The close-code table is coherent: a code has a name exactly when it is one of the eight the
  specification lists, names are unique, every named and every fatal code lies in the range a
  close frame may carry, and the code a refused record closes with is fatal exactly when the
  record was an unreadable hello.
\<close>

theorem close_code_table:
  "(close_code_name c \<noteq> None \<longleftrightarrow> c \<in> {4000, 4400, 4401, 4403, 4409, 4426, 4429, 4500})
   \<and> (close_code_name c = close_code_name d \<and> close_code_name c \<noteq> None \<longrightarrow> c = d)
   \<and> (close_code_name c \<noteq> None \<or> is_fatal_close_code c
        \<longrightarrow> MIN_CLOSE_CODE \<le> c \<and> c \<le> MAX_CLOSE_CODE)
   \<and> (is_fatal_close_code (close_code_for_codec_error e)
        \<longleftrightarrow> ce_kind e = Schema \<and> ce_frame_type e = Some ''hello'')"
  by (auto simp: close_code_name_def is_fatal_iff close_codes MIN_CLOSE_CODE_def
      MAX_CLOSE_CODE_def close_code_for_codec_error_def split: if_splits)

theorem close_code_table_witness:
  "close_code_name 4409 = Some ''SUPERSEDED'' \<and> MIN_CLOSE_CODE \<le> 4409 \<and> (4409 :: u16) \<le> MAX_CLOSE_CODE"
proof -
  have "close_code_name 4409 = Some ''SUPERSEDED''"
    by (simp add: close_code_name_def close_codes)
  with close_code_table [of 4409 4409 "codec_error_new Schema ''x''"] show ?thesis by simp
qed

end
