(* ===== verification/Validate.thy ===== *)
theory Validate
  imports Wire
begin

text \<open>
  The value rules of \<open>validate.rs\<close>: the name grammars, the length and range checks, and
  \<open>validate\<close> over whole frames, in the order the code applies them.  The grammars are compared with
  the regular expressions the source documents them by, whose languages are given by \<open>lang\<close>.
\<close>

section \<open>Constants\<close>

definition MAX_ID_CHARS :: nat where "MAX_ID_CHARS = 256"
definition MIN_NAME_CHARS :: nat where "MIN_NAME_CHARS = 3"
definition MAX_NAME_CHARS :: nat where "MAX_NAME_CHARS = 128"
definition MAX_CODE_CHARS :: nat where "MAX_CODE_CHARS = 64"
definition MAX_REASON_CHARS :: nat where "MAX_REASON_CHARS = 1024"
definition MIN_ANNOUNCED_FRAME_BYTES :: u64 where "MIN_ANNOUNCED_FRAME_BYTES = 4096"
definition MAX_ANNOUNCED_FRAME_BYTES :: u64 where "MAX_ANNOUNCED_FRAME_BYTES = 2147483647"
definition MIN_ANNOUNCED_IN_FLIGHT :: u64 where "MIN_ANNOUNCED_IN_FLIGHT = 1"
definition MAX_ANNOUNCED_IN_FLIGHT :: u64 where "MAX_ANNOUNCED_IN_FLIGHT = 2147483647"
definition RPC_RESERVED_PREFIX :: string where "RPC_RESERVED_PREFIX = ''rpc.''"
definition RPC_DISCOVER :: string where "RPC_DISCOVER = ''rpc.discover''"
definition RPC_DISCOVER_MINOR :: u32 where "RPC_DISCOVER_MINOR = 1"

text \<open>\<open>usize::MAX\<close> on the 64-bit targets the crate is built for.\<close>

definition usize_MAX :: nat where "usize_MAX = 2 ^ 64 - 1"

definition METHOD_NAME_PATTERN :: string where
  "METHOD_NAME_PATTERN =
     ''^[a-z](?:[a-z0-9-]*[a-z0-9])?(?:'' @ [CHR 0x5C] @ ''.[a-z](?:[a-z0-9-]*[a-z0-9])?)+$''"

lemmas name_limits = MAX_ID_CHARS_def MIN_NAME_CHARS_def MAX_NAME_CHARS_def MAX_CODE_CHARS_def
  MAX_REASON_CHARS_def
lemmas announced_limits = MIN_ANNOUNCED_FRAME_BYTES_def MAX_ANNOUNCED_FRAME_BYTES_def
  MIN_ANNOUNCED_IN_FLIGHT_def MAX_ANNOUNCED_IN_FLIGHT_def

section \<open>The refusal\<close>

record validation_error =
  ve_field :: string
  ve_received :: string
  ve_expected :: string

definition ve_new :: "string \<Rightarrow> string \<Rightarrow> string \<Rightarrow> validation_error" where
  "ve_new field received expected =
     \<lparr>ve_field = field, ve_received = received, ve_expected = expected\<rparr>"

definition ve_display :: "validation_error \<Rightarrow> string" where
  "ve_display e = ve_field e @ '': received '' @ ve_received e @ '', expected '' @ ve_expected e"

definition describe :: "string \<Rightarrow> string" where
  "describe value =
     (let count = chars_count value in
      if count \<le> 48 then debug_str value
      else debug_str (chars_take 48 value) @ ellipsis @ '' ('' @ show_nat count @ '' characters)'')"

section \<open>Grammars\<close>

definition is_valid_segment :: "string \<Rightarrow> bool" where
  "is_valid_segment segment =
     (case segment of [] \<Rightarrow> False
      | first # _ \<Rightarrow>
          if \<not> is_ascii_lowercase first then False
          else if last segment = CHR ''-'' then False
          else list_all (\<lambda>c. is_ascii_lowercase c \<or> is_ascii_digit c \<or> c = CHR ''-'') segment)"

text \<open>The loop over the remaining segments, with the running \<open>count\<close>.\<close>

fun segment_loop :: "nat \<Rightarrow> string list \<Rightarrow> bool" where
  "segment_loop count [] = (count \<ge> 2)"
| "segment_loop count (segment # segments) =
     (if \<not> is_valid_segment segment then False else segment_loop (count + 1) segments)"

definition is_valid_method_name :: "string \<Rightarrow> bool" where
  "is_valid_method_name name =
     (if chars_count name > MAX_NAME_CHARS then False
      else (case split_on CHR ''.'' name of [] \<Rightarrow> False
            | first # segments \<Rightarrow>
                if \<not> is_valid_segment first then False else segment_loop 1 segments))"

definition is_reserved_method_name :: "string \<Rightarrow> bool" where
  "is_reserved_method_name name =
     (take (length RPC_RESERVED_PREFIX) name = RPC_RESERVED_PREFIX)"

definition is_defined_reserved_method :: "string \<Rightarrow> u32 \<Rightarrow> bool" where
  "is_defined_reserved_method name minor = (name = RPC_DISCOVER \<and> minor \<ge> RPC_DISCOVER_MINOR)"

definition is_valid_role :: "string \<Rightarrow> bool" where
  "is_valid_role role =
     (let count = chars_count role in 1 \<le> count \<and> count \<le> MAX_CODE_CHARS \<and> is_valid_segment role)"

definition is_valid_error_code :: "string \<Rightarrow> bool" where
  "is_valid_error_code code =
     (let count = chars_count code in
      if \<not> (1 \<le> count \<and> count \<le> MAX_CODE_CHARS) then False
      else (case code of [] \<Rightarrow> False
            | first # rest \<Rightarrow>
                is_ascii_uppercase first \<and>
                list_all (\<lambda>c. is_ascii_uppercase c \<or> is_ascii_digit c \<or> c = CHR ''_'') rest))"

section \<open>Member checks\<close>

definition check_length :: "string \<Rightarrow> string \<Rightarrow> nat \<Rightarrow> nat \<Rightarrow> validation_error + unit" where
  "check_length field value mn mx =
     (let count = chars_count value in
      if mn \<le> count \<and> count \<le> mx then Inr ()
      else Inl (ve_new field (describe value)
             (''a string of '' @ show_nat mn @ '' to '' @ show_nat mx @ '' characters'')))"

definition check_id :: "string \<Rightarrow> string \<Rightarrow> validation_error + unit" where
  "check_id field value = check_length field value 1 MAX_ID_CHARS"

definition check_method_name :: "string \<Rightarrow> string \<Rightarrow> validation_error + unit" where
  "check_method_name field value =
     (if is_valid_method_name value then Inr ()
      else Inl (ve_new field (describe value)
             (''at least two dot-separated lowercase segments matching '' @ METHOD_NAME_PATTERN
              @ '', at most '' @ show_nat MAX_NAME_CHARS @ '' characters'')))"

definition check_range :: "string \<Rightarrow> u64 option \<Rightarrow> u64 \<Rightarrow> u64 \<Rightarrow> validation_error + unit" where
  "check_range field value minimum maximum =
     (case value of None \<Rightarrow> Inr ()
      | Some v \<Rightarrow>
          if minimum \<le> v \<and> v \<le> maximum then Inr ()
          else Inl (ve_new field (show_nat (unat v))
                 (''an integer from '' @ show_nat (unat minimum) @ '' to ''
                  @ show_nat (unat maximum))))"

definition validate_limits :: "limits \<Rightarrow> validation_error + unit" where
  "validate_limits l =
     and_then (check_range ''hello.limits.maxFrameBytes'' (lim_max_frame_bytes l)
                 MIN_ANNOUNCED_FRAME_BYTES MAX_ANNOUNCED_FRAME_BYTES)
       (\<lambda>_. check_range ''hello.limits.maxInFlight'' (lim_max_in_flight l)
                 MIN_ANNOUNCED_IN_FLIGHT MAX_ANNOUNCED_IN_FLIGHT)"

definition validate_hello :: "hello \<Rightarrow> validation_error + unit" where
  "validate_hello h =
     (if pv_major (hello_protocol h) < 1
      then Inl (ve_new ''hello.protocol.major'' (show_nat (unat (pv_major (hello_protocol h))))
                  ''an integer of at least 1'')
      else and_then (check_length ''hello.peer.name'' (peer_name (hello_peer h)) 1 MAX_NAME_CHARS)
       (\<lambda>_. and_then
          (check_length ''hello.peer.version'' (peer_version (hello_peer h)) 1 MAX_NAME_CHARS)
       (\<lambda>_. if \<not> is_valid_role (peer_role (hello_peer h))
             then Inl (ve_new ''hello.peer.role'' (describe (peer_role (hello_peer h)))
                    (''a lowercase label matching ^[a-z][a-z0-9-]*$, at most ''
                     @ show_nat MAX_CODE_CHARS @ '' characters''))
             else (case hello_limits h of Some l \<Rightarrow> validate_limits l | None \<Rightarrow> Inr ()))))"

definition validate_error_payload :: "string \<Rightarrow> error_payload \<Rightarrow> validation_error + unit" where
  "validate_error_payload field p =
     (if \<not> is_valid_error_code (ep_code p)
      then Inl (ve_new (field @ ''.code'') (describe (ep_code p))
             (''a code matching ^[A-Z][A-Z0-9_]*$, 1 to '' @ show_nat MAX_CODE_CHARS
              @ '' characters''))
      else check_length (field @ ''.message'') (ep_message p) 1 usize_MAX)"

definition validate_request :: "request \<Rightarrow> validation_error + unit" where
  "validate_request r =
     and_then (check_id ''req.id'' (req_id r)) (\<lambda>_. check_method_name ''req.method'' (req_method r))"

definition validate_response :: "response \<Rightarrow> validation_error + unit" where
  "validate_response r = check_id ''res.id'' (res_id r)"

definition validate_event :: "event \<Rightarrow> validation_error + unit" where
  "validate_event e =
     and_then (check_method_name ''evt.topic'' (evt_topic e))
       (\<lambda>_. case evt_stream_id e of Some s \<Rightarrow> check_id ''evt.streamId'' s | None \<Rightarrow> Inr ())"

definition validate_close :: "close_frame \<Rightarrow> validation_error + unit" where
  "validate_close c =
     (if \<not> (MIN_CLOSE_CODE \<le> close_code c \<and> close_code c \<le> MAX_CLOSE_CODE)
      then Inl (ve_new ''close.code'' (show_nat (unat (close_code c)))
             (''an integer from '' @ show_nat (unat MIN_CLOSE_CODE) @ '' to ''
              @ show_nat (unat MAX_CLOSE_CODE)))
      else (case close_reason c of
              Some r \<Rightarrow> check_length ''close.reason'' r 0 MAX_REASON_CHARS
            | None \<Rightarrow> Inr ()))"

definition validate :: "frame \<Rightarrow> validation_error + unit" where
  "validate f =
     (case f of
        Hello h \<Rightarrow> validate_hello h
      | Req r \<Rightarrow> validate_request r
      | Res r \<Rightarrow> validate_response r
      | Err e \<Rightarrow> and_then (check_id ''err.id'' (err_id e))
                  (\<lambda>_. validate_error_payload ''err.error'' (err_error e))
      | Evt e \<Rightarrow> validate_event e
      | Cancel c \<Rightarrow> check_id ''cancel.id'' (cancel_id c)
      | Ping \<Rightarrow> Inr () | Pong \<Rightarrow> Inr ()
      | Close c \<Rightarrow> validate_close c)"

section \<open>Regular expressions and their languages\<close>

datatype rx = Cls "char \<Rightarrow> bool" | Seq rx rx | Star rx | Opt rx | Plus rx

primrec lang :: "rx \<Rightarrow> string set" where
  "lang (Cls p) = {[c] | c. p c}"
| "lang (Seq a b) = {u @ v | u v. u \<in> lang a \<and> v \<in> lang b}"
| "lang (Star a) = {concat us | us. set us \<subseteq> lang a}"
| "lang (Opt a) = insert [] (lang a)"
| "lang (Plus a) = {concat us | us. us \<noteq> [] \<and> set us \<subseteq> lang a}"

text \<open>The patterns the source names, read as regular expressions.\<close>

definition rx_segment :: rx where
  "rx_segment =
     Seq (Cls is_ascii_lowercase)
       (Opt (Seq (Star (Cls (\<lambda>c. is_ascii_lowercase c \<or> is_ascii_digit c \<or> c = CHR ''-'')))
                 (Cls (\<lambda>c. is_ascii_lowercase c \<or> is_ascii_digit c))))"

definition rx_method_name :: rx where
  "rx_method_name = Seq rx_segment (Plus (Seq (Cls (\<lambda>c. c = CHR ''.'')) rx_segment))"

definition rx_role :: rx where
  "rx_role = Seq (Cls is_ascii_lowercase)
     (Star (Cls (\<lambda>c. is_ascii_lowercase c \<or> is_ascii_digit c \<or> c = CHR ''-'')))"

definition rx_error_code :: rx where
  "rx_error_code = Seq (Cls is_ascii_uppercase)
     (Star (Cls (\<lambda>c. is_ascii_uppercase c \<or> is_ascii_digit c \<or> c = CHR ''_'')))"


section \<open>The grammars accept the documented languages\<close>

lemma lang_Star_Cls: "lang (Star (Cls p)) = {s. list_all p s}"
proof (intro set_eqI iffI)
  fix s assume "s \<in> lang (Star (Cls p))"
  then show "s \<in> {s. list_all p s}" by (fastforce simp: list_all_iff)
next
  fix s assume "s \<in> {s. list_all p s}"
  then have "s = concat (map (\<lambda>c. [c]) s)" "set (map (\<lambda>c. [c]) s) \<subseteq> lang (Cls p)"
    by (auto simp: list_all_iff)
  then show "s \<in> lang (Star (Cls p))" unfolding lang.simps by blast
qed

lemma lang_Seq_Cls: "s \<in> lang (Seq (Cls p) b) \<longleftrightarrow> (\<exists>c v. s = c # v \<and> p c \<and> v \<in> lang b)"
  by auto (metis append_Cons append_Nil)

lemma lang_segment: "s \<in> lang rx_segment \<longleftrightarrow> is_valid_segment s"
proof
  assume "s \<in> lang rx_segment"
  then show "is_valid_segment s"
    unfolding rx_segment_def lang_Seq_Cls lang.simps(4) lang.simps(2) [of "Star _"] lang_Star_Cls
    by (auto simp: is_valid_segment_def is_ascii_lowercase_def is_ascii_digit_def list_all_iff)
next
  assume v: "is_valid_segment s"
  then obtain c cs where s: "s = c # cs" "is_ascii_lowercase c" "last s \<noteq> CHR ''-''"
    and all: "list_all (\<lambda>c. is_ascii_lowercase c \<or> is_ascii_digit c \<or> c = CHR ''-'') s"
    by (auto simp: is_valid_segment_def split: list.splits if_splits)
  show "s \<in> lang rx_segment"
  proof (cases cs rule: rev_cases)
    case Nil
    with s show ?thesis by (auto simp: rx_segment_def)
  next
    case (snoc mid z)
    with s all have "list_all (\<lambda>c. is_ascii_lowercase c \<or> is_ascii_digit c \<or> c = CHR ''-'') mid"
      "is_ascii_lowercase z \<or> is_ascii_digit z" by auto
    then have "mid @ [z] \<in> lang (Seq (Star (Cls (\<lambda>c. is_ascii_lowercase c \<or> is_ascii_digit c \<or> c = CHR ''-'')))
                 (Cls (\<lambda>c. is_ascii_lowercase c \<or> is_ascii_digit c)))"
      unfolding lang.simps(2) lang_Star_Cls by auto
    with s snoc show ?thesis
      unfolding rx_segment_def lang_Seq_Cls lang.simps(4) by auto
  qed
qed

lemma segment_loop_iff:
  "segment_loop n ss \<longleftrightarrow> 2 \<le> n + length ss \<and> (\<forall>s \<in> set ss. is_valid_segment s)"
  by (induction n ss rule: segment_loop.induct) auto

lemma is_valid_method_name_split:
  "is_valid_method_name s \<longleftrightarrow>
     chars_count s \<le> MAX_NAME_CHARS \<and> 2 \<le> length (split_on CHR ''.'' s)
     \<and> (\<forall>p \<in> set (split_on CHR ''.'' s). is_valid_segment p)"
  by (cases "split_on CHR ''.'' s") (auto simp: is_valid_method_name_def segment_loop_iff)

lemma valid_segment_no_dot: "is_valid_segment s \<Longrightarrow> CHR ''.'' \<notin> set s"
  by (auto simp: is_valid_segment_def is_ascii_lowercase_def is_ascii_digit_def list_all_iff
      split: list.splits if_splits)

lemma join_with_Cons: "join_with d ((c # s) # ts) = c # join_with d (s # ts)"
  by (cases ts) auto

lemma concat_dotted: "s @ concat (map (\<lambda>t. CHR ''.'' # t) ts) = join_with CHR ''.'' (s # ts)"
  by (induction ts arbitrary: s) (auto simp: join_with_Cons)

lemma lang_dotted:
  "s \<in> lang rx_method_name \<longleftrightarrow>
     (\<exists>t ts. s = join_with CHR ''.'' (t # ts) \<and> ts \<noteq> [] \<and> (\<forall>p \<in> set (t # ts). is_valid_segment p))"
proof
  assume "s \<in> lang rx_method_name"
  then obtain t us where t: "is_valid_segment t" "s = t @ concat us" "us \<noteq> []"
    and us: "\<forall>u \<in> set us. \<exists>p. u = CHR ''.'' # p \<and> is_valid_segment p"
    by (auto simp: rx_method_name_def lang_segment)
  from us have "us = map (\<lambda>t. CHR ''.'' # t) (map tl us)" by (induction us) auto
  moreover from us have "\<forall>p \<in> set (map tl us). is_valid_segment p" by auto
  ultimately show "\<exists>t ts. s = join_with CHR ''.'' (t # ts) \<and> ts \<noteq> [] \<and> (\<forall>p \<in> set (t # ts). is_valid_segment p)"
    using t concat_dotted [of t "map tl us"] by (intro exI [of _ t] exI [of _ "map tl us"]) auto
next
  assume "\<exists>t ts. s = join_with CHR ''.'' (t # ts) \<and> ts \<noteq> [] \<and> (\<forall>p \<in> set (t # ts). is_valid_segment p)"
  then obtain t ts where t: "s = t @ concat (map (\<lambda>t. CHR ''.'' # t) ts)" "ts \<noteq> []"
    and p: "\<forall>p \<in> set (t # ts). is_valid_segment p"
    by (auto simp: concat_dotted)
  have "concat (map (\<lambda>t. CHR ''.'' # t) ts) \<in> lang (Plus (Seq (Cls (\<lambda>c. c = CHR ''.'')) rx_segment))"
    using t p by (auto simp: lang_segment intro!: exI [of _ "map (\<lambda>t. CHR ''.'' # t) ts"])
  with t p show "s \<in> lang rx_method_name"
    unfolding rx_method_name_def lang.simps(2) [of rx_segment] by (auto simp: lang_segment)
qed

lemma valid_name_nonempty_parts: "is_valid_segment s \<Longrightarrow> s \<noteq> []"
  by (auto simp: is_valid_segment_def)

lemma ascii_not_continuation:
  "is_ascii_lowercase c \<or> is_ascii_digit c \<or> c = CHR ''-'' \<or> c = CHR ''.'' \<Longrightarrow> \<not> is_continuation c"
  by (auto simp: is_ascii_lowercase_def is_ascii_digit_def is_continuation_def)

lemma chars_count_segment: "is_valid_segment s \<Longrightarrow> chars_count s = length s"
  by (auto simp: chars_count_def is_valid_segment_def list_all_iff ascii_not_continuation
      intro!: filter_True [THEN arg_cong [where f = length]] split: list.splits if_splits)

lemma chars_count_append [simp]: "chars_count (s @ t) = chars_count s + chars_count t"
  by (simp add: chars_count_def)

lemma chars_count_Cons_dot [simp]: "chars_count (CHR ''.'' # t) = Suc (chars_count t)"
  by (simp add: chars_count_def ascii_not_continuation)

lemma method_name_lang:
  "is_valid_method_name s \<longleftrightarrow> s \<in> lang rx_method_name \<and> chars_count s \<le> 128"
proof -
  have "s \<in> lang rx_method_name \<longleftrightarrow>
      2 \<le> length (split_on CHR ''.'' s) \<and> (\<forall>p \<in> set (split_on CHR ''.'' s). is_valid_segment p)"
  proof
    assume "s \<in> lang rx_method_name"
    then obtain t ts where *: "s = join_with CHR ''.'' (t # ts)" "ts \<noteq> []"
      "\<forall>p \<in> set (t # ts). is_valid_segment p" unfolding lang_dotted by blast
    then have "\<forall>p \<in> set (t # ts). CHR ''.'' \<notin> set p" using valid_segment_no_dot by blast
    with * have "split_on CHR ''.'' s = t # ts" by (simp add: split_join)
    with * show "2 \<le> length (split_on CHR ''.'' s) \<and> (\<forall>p \<in> set (split_on CHR ''.'' s). is_valid_segment p)"
      by (cases ts) auto
  next
    assume *: "2 \<le> length (split_on CHR ''.'' s) \<and> (\<forall>p \<in> set (split_on CHR ''.'' s). is_valid_segment p)"
    then obtain t ts where ts: "split_on CHR ''.'' s = t # ts"
      by (cases "split_on CHR ''.'' s") auto
    with * have "ts \<noteq> []" by auto
    have "s = join_with CHR ''.'' (t # ts)" using join_split [of "CHR ''.''" s] ts by simp
    with * ts \<open>ts \<noteq> []\<close> show "s \<in> lang rx_method_name" unfolding lang_dotted by metis
  qed
  then show ?thesis by (auto simp: is_valid_method_name_split name_limits)
qed

text \<open>
  \<open>is_valid_method_name\<close>, which scans the name by hand, accepts exactly the language of
  \<open>METHOD_NAME_PATTERN\<close> cut at 128 characters, so the code and the pattern its messages and its
  JSON Schema quote never disagree.
\<close>

theorem is_valid_method_name_pattern:
  "is_valid_method_name s \<longleftrightarrow> s \<in> lang rx_method_name \<and> chars_count s \<le> 128"
  by (rule method_name_lang)

lemma lang_rx_role:
  "s \<in> lang rx_role \<longleftrightarrow> s \<noteq> [] \<and> is_ascii_lowercase (hd s)
     \<and> list_all (\<lambda>c. is_ascii_lowercase c \<or> is_ascii_digit c \<or> c = CHR ''-'') s"
  unfolding rx_role_def lang_Seq_Cls lang_Star_Cls
  by (cases s) auto

lemma role_lang:
  "is_valid_role s \<longleftrightarrow> s \<in> lang rx_role \<and> chars_count s \<le> 64 \<and> last s \<noteq> CHR ''-''"
proof -
  have seg: "is_valid_segment s \<longleftrightarrow> s \<in> lang rx_role \<and> last s \<noteq> CHR ''-''"
    unfolding lang_rx_role by (cases s) (auto simp: is_valid_segment_def)
  have "s \<in> lang rx_role \<Longrightarrow> 1 \<le> chars_count s"
    unfolding lang_rx_role by (cases s) (auto simp: chars_count_def ascii_not_continuation)
  with seg show ?thesis by (auto simp: is_valid_role_def name_limits Let_def)
qed

text \<open>
  C39: \<open>is_valid_role\<close> accepts the documented language \<open>^[a-z][a-z0-9-]*$\<close> of at most 64
  characters except for the labels that end with a dash, which the pattern allows and the code
  refuses, because it reuses the stricter rule for one segment of a method name.
\<close>

theorem is_valid_role_pattern:
  "is_valid_role s \<longleftrightarrow> s \<in> lang rx_role \<and> chars_count s \<le> 64 \<and> last s \<noteq> CHR ''-''"
  by (rule role_lang)

lemma is_valid_error_code_pattern:
  "is_valid_error_code s \<longleftrightarrow> s \<in> lang rx_error_code \<and> chars_count s \<le> 64"
proof -
  have "is_ascii_uppercase c \<Longrightarrow> \<not> is_continuation c" for c
    by (auto simp: is_ascii_uppercase_def is_continuation_def)
  then show ?thesis
    unfolding rx_error_code_def lang_Seq_Cls lang_Star_Cls
    by (cases s) (auto simp: is_valid_error_code_def Let_def name_limits chars_count_def)
qed

section \<open>What a valid frame is\<close>

lemma check_length_ok [simp]: "is_ok (check_length f v mn mx) \<longleftrightarrow> mn \<le> chars_count v \<and> chars_count v \<le> mx"
  by (simp add: check_length_def Let_def)

lemma check_method_name_ok [simp]: "is_ok (check_method_name f v) \<longleftrightarrow> is_valid_method_name v"
  by (simp add: check_method_name_def)

lemma check_range_ok [simp]:
  "is_ok (check_range f v mn mx) \<longleftrightarrow> (\<forall>w. v = Some w \<longrightarrow> mn \<le> w \<and> w \<le> mx)"
  by (simp add: check_range_def split: option.split)

lemma is_ok_and_then_unit:
  "is_ok (and_then (r :: 'e + unit) f) \<longleftrightarrow> is_ok r \<and> is_ok (f ())"
  by (cases r) auto

text \<open>The schema's constraints on one frame, in the schema's own terms.\<close>

definition valid_id :: "string \<Rightarrow> bool" where
  "valid_id s = (1 \<le> chars_count s \<and> chars_count s \<le> 256)"

definition valid_name :: "string \<Rightarrow> bool" where
  "valid_name s = (s \<in> lang rx_method_name \<and> chars_count s \<le> 128)"

definition valid_limits :: "limits \<Rightarrow> bool" where
  "valid_limits l =
     ((\<forall>n. lim_max_frame_bytes l = Some n \<longrightarrow> 4096 \<le> n \<and> n \<le> 2147483647)
      \<and> (\<forall>n. lim_max_in_flight l = Some n \<longrightarrow> 1 \<le> n \<and> n \<le> 2147483647))"

definition valid_frame :: "frame \<Rightarrow> bool" where
  "valid_frame f =
     (case f of
        Hello h \<Rightarrow> 1 \<le> pv_major (hello_protocol h)
          \<and> chars_count (peer_name (hello_peer h)) \<in> {1..128}
          \<and> chars_count (peer_version (hello_peer h)) \<in> {1..128}
          \<and> peer_role (hello_peer h) \<in> lang rx_role \<and> chars_count (peer_role (hello_peer h)) \<le> 64
          \<and> (\<forall>l. hello_limits h = Some l \<longrightarrow> valid_limits l)
      | Req r \<Rightarrow> valid_id (req_id r) \<and> valid_name (req_method r)
      | Res r \<Rightarrow> valid_id (res_id r)
      | Err e \<Rightarrow> valid_id (err_id e)
          \<and> ep_code (err_error e) \<in> lang rx_error_code \<and> chars_count (ep_code (err_error e)) \<le> 64
          \<and> 1 \<le> chars_count (ep_message (err_error e))
      | Evt e \<Rightarrow> valid_name (evt_topic e) \<and> (\<forall>s. evt_stream_id e = Some s \<longrightarrow> valid_id s)
      | Cancel c \<Rightarrow> valid_id (cancel_id c)
      | Ping \<Rightarrow> True | Pong \<Rightarrow> True
      | Close c \<Rightarrow> 4000 \<le> close_code c \<and> close_code c \<le> 4999
          \<and> (\<forall>r. close_reason c = Some r \<longrightarrow> chars_count r \<le> 1024))"

text \<open>
  What the code asks beyond the schema: a role does not end in a dash, and a message is no longer than
  a string in memory can be, which holds of every Rust string.
\<close>

definition beyond_schema :: "frame \<Rightarrow> bool" where
  "beyond_schema f =
     (case f of
        Hello h \<Rightarrow> last (peer_role (hello_peer h)) \<noteq> CHR ''-''
      | Err e \<Rightarrow> chars_count (ep_message (err_error e)) \<le> usize_MAX
      | _ \<Rightarrow> True)"

definition accepted_frame :: "frame \<Rightarrow> bool" where
  "accepted_frame f \<longleftrightarrow> valid_frame f \<and> beyond_schema f"

lemmas accepted_frame_defs = accepted_frame_def valid_frame_def beyond_schema_def

lemma valid_name_iff: "is_valid_method_name s \<longleftrightarrow> valid_name s"
  by (simp add: method_name_lang valid_name_def)

lemma u32_ge_1: "1 \<le> (w :: u32) \<longleftrightarrow> w \<noteq> 0"
  by (simp add: word_le_nat_alt Suc_le_eq unat_gt_0)

lemma validate_ok: "is_ok (validate f) \<longleftrightarrow> accepted_frame f"
  by (cases f)
     (auto simp: validate_def accepted_frame_defs validate_hello_def validate_request_def
        validate_response_def validate_event_def validate_close_def validate_error_payload_def
        validate_limits_def valid_limits_def check_id_def is_ok_and_then_unit valid_id_def valid_name_def
        method_name_lang role_lang is_valid_error_code_pattern
        name_limits announced_limits MIN_CLOSE_CODE_def MAX_CLOSE_CODE_def u32_ge_1
        split: option.splits if_splits)

text \<open>
  C38: \<open>validate\<close> accepts a frame exactly when every member satisfies the schema's length, grammar and
  range constraint (identifiers of 1 to 256 characters, names in the language of the method pattern,
  announced ceilings inside their ranges, close codes in 4000 to 4999, and so on) and, beyond the schema,
  the role of a hello does not end in a dash and the message of an error is at most \<open>usize::MAX\<close>
  characters.  So a frame that is accepted is valid under the schema, and the frames that are valid and
  refused are the hellos with such a role and the errors with such a message, which no memory holds.
\<close>

theorem validate_iff:
  "is_ok (validate f) \<longleftrightarrow> valid_frame f
     \<and> (case f of
          Hello h \<Rightarrow> last (peer_role (hello_peer h)) \<noteq> CHR ''-''
        | Err e \<Rightarrow> chars_count (ep_message (err_error e)) \<le> usize_MAX
        | _ \<Rightarrow> True)"
  by (simp add: validate_ok accepted_frame_def beyond_schema_def)

text \<open>
  A refusal always names a member of the frame it refused: the field path of the error
  starts with the frame's own type name and a dot.
\<close>

theorem validate_error_names_frame:
  assumes "validate f = Inl e"
  shows "take (length (type_name f) + 1) (ve_field e) = type_name f @ ''.''"
  using assms
  by (cases f)
     (auto simp: validate_def type_name_def validate_hello_def validate_request_def
        validate_response_def validate_event_def validate_close_def validate_error_payload_def
        validate_limits_def check_id_def check_length_def check_method_name_def check_range_def
        and_then_Inl ve_new_def Let_def split: if_splits option.splits)

theorem validate_error_names_frame_witness:
  "\<exists>e. validate (Close \<lparr>close_code = 3999, close_reason = None\<rparr>) = Inl e
     \<and> take 6 (ve_field e) = ''close.''"
proof -
  let ?f = "Close \<lparr>close_code = 3999, close_reason = None\<rparr>"
  have "\<not> is_ok (validate ?f)" by (simp add: validate_ok accepted_frame_defs)
  then obtain e where e: "validate ?f = Inl e" by (cases "validate ?f") auto
  from validate_error_names_frame [OF e] e show ?thesis
    by (simp add: type_name_def eval_nat_numeral)
qed

end
