(* ===== verification/Catalog.thy ===== *)
theory Catalog
  imports Validate
begin

text \<open>
  The catalog document of \<open>catalog.rs\<close>: an application's methods, events and capabilities, and the
  rules \<open>Catalog::validate\<close> checks.  The \<open>Display\<close> of a \<open>serde_json\<close> number, which one error message
  quotes, is the parameter \<open>fmt_number\<close>.
\<close>

section \<open>The document\<close>

record catalog_method =
  cm_name :: string
  cm_description :: "string option"
  cm_params :: json
  cm_result :: json
  cm_capabilities :: "string list"
  cm_deprecated :: bool

record catalog_event =
  ce_topic :: string
  ce_description :: "string option"
  ce_payload :: json
  ce_stream :: bool

record catalog =
  cat_name :: string
  cat_version :: string
  cat_description :: "string option"
  cat_protocol :: "protocol_version option"
  cat_methods :: "catalog_method list"
  cat_events :: "catalog_event list"
  cat_capabilities :: "json option"

section \<open>Its checks\<close>

text \<open>A \<open>for\<close> loop over \<open>iter().enumerate()\<close> whose body can return early.\<close>

fun for_each_from :: "nat \<Rightarrow> (nat \<Rightarrow> 'a \<Rightarrow> 'e + unit) \<Rightarrow> 'a list \<Rightarrow> 'e + unit" where
  "for_each_from i body [] = Inr ()"
| "for_each_from i body (x # xs) = and_then (body i x) (\<lambda>_. for_each_from (Suc i) body xs)"

abbreviation for_each :: "(nat \<Rightarrow> 'a \<Rightarrow> 'e + unit) \<Rightarrow> 'a list \<Rightarrow> 'e + unit" where
  "for_each \<equiv> for_each_from 0"

definition check_name :: "string \<Rightarrow> string \<Rightarrow> validation_error + unit" where
  "check_name field value =
     (let count = chars_count value in
      if 1 \<le> count \<and> count \<le> MAX_NAME_CHARS then Inr ()
      else Inl (ve_new field (''a string of '' @ show_nat count @ '' characters'')
             (''a string of 1 to '' @ show_nat MAX_NAME_CHARS @ '' characters'')))"

definition describe_json :: "(jnumber \<Rightarrow> string) \<Rightarrow> json \<Rightarrow> string" where
  "describe_json fmt_number value =
     (case value of
        JNull \<Rightarrow> ''null''
      | JBool b \<Rightarrow> ''the boolean '' @ (if b then ''true'' else ''false'')
      | JNumber n \<Rightarrow> ''the number '' @ fmt_number n
      | JString _ \<Rightarrow> ''a string''
      | JArray values \<Rightarrow> ''an array of '' @ show_nat (length values) @ '' items''
      | JObject _ \<Rightarrow> ''an object'')"

definition check_document :: "(jnumber \<Rightarrow> string) \<Rightarrow> string \<Rightarrow> json \<Rightarrow> validation_error + unit" where
  "check_document fmt_number field document =
     (if is_object document then Inr ()
      else Inl (ve_new field (describe_json fmt_number document)
             ''a JSON Schema 2020-12 document, which catalog.json requires to be an object''))"

definition check_capabilities :: "string \<Rightarrow> string list \<Rightarrow> validation_error + unit" where
  "check_capabilities field names =
     for_each (\<lambda>index name.
       let at = field @ ''['' @ show_nat index @ '']'' in
       if name = [] then
         Inl (ve_new at ''an empty string'' ''a capability name of at least one character'')
       else if name \<in> set (take index names) then
         Inl (ve_new at (debug_str name @ '', already named earlier in the list'')
           ''a capability name distinct from every other in the list'')
       else Inr ()) names"

definition check_grammar :: "string \<Rightarrow> string \<Rightarrow> validation_error + unit" where
  "check_grammar field value =
     (if is_valid_method_name value then Inr ()
      else Inl (ve_new field (debug_str value)
             (''at least two dot-separated lowercase segments, at most '' @ show_nat MAX_NAME_CHARS
              @ '' characters'')))"

definition indexed :: "string \<Rightarrow> nat \<Rightarrow> string \<Rightarrow> string" where
  "indexed list index member = ''catalog.'' @ list @ ''['' @ show_nat index @ ''].'' @ member"

definition check_method :: "(jnumber \<Rightarrow> string) \<Rightarrow> nat \<Rightarrow> catalog_method \<Rightarrow> validation_error + unit" where
  "check_method fmt_number index m =
     and_then (check_grammar (indexed ''methods'' index ''name'') (cm_name m))
     (\<lambda>_. and_then (check_document fmt_number (indexed ''methods'' index ''params'') (cm_params m))
     (\<lambda>_. and_then (check_document fmt_number (indexed ''methods'' index ''result'') (cm_result m))
     (\<lambda>_. check_capabilities (indexed ''methods'' index ''capabilities'') (cm_capabilities m))))"

definition check_event :: "(jnumber \<Rightarrow> string) \<Rightarrow> nat \<Rightarrow> catalog_event \<Rightarrow> validation_error + unit" where
  "check_event fmt_number index e =
     and_then (check_grammar (indexed ''events'' index ''topic'') (ce_topic e))
     (\<lambda>_. check_document fmt_number (indexed ''events'' index ''payload'') (ce_payload e))"

definition catalog_validate :: "(jnumber \<Rightarrow> string) \<Rightarrow> catalog \<Rightarrow> validation_error + unit" where
  "catalog_validate fmt_number c =
     and_then (check_name ''catalog.name'' (cat_name c))
     (\<lambda>_. and_then (check_name ''catalog.version'' (cat_version c))
     (\<lambda>_. and_then (for_each (check_method fmt_number) (cat_methods c))
     (\<lambda>_. and_then (for_each (check_event fmt_number) (cat_events c))
     (\<lambda>_. case cat_capabilities c of
            Some capabilities \<Rightarrow> check_document fmt_number ''catalog.capabilities'' capabilities
          | None \<Rightarrow> Inr ()))))"

section \<open>What they accept\<close>

lemma for_each_from_Inr:
  "for_each_from i body xs = Inr () \<longleftrightarrow> (\<forall>k < length xs. body (i + k) (xs ! k) = Inr ())"
proof (induction xs arbitrary: i)
  case (Cons x xs)
  have "(\<forall>k < length (x # xs). body (i + k) ((x # xs) ! k) = Inr ()) \<longleftrightarrow>
      body i x = Inr () \<and> (\<forall>k < length xs. body (Suc i + k) (xs ! k) = Inr ())"
    by (auto simp: nth_Cons less_Suc_eq_0_disj split: nat.split)
  with Cons.IH [of "Suc i"] show ?case by (cases "body i x") auto
qed simp

lemma for_each_from_Inl:
  "for_each_from i body xs = Inl e \<longleftrightarrow>
   (\<exists>k < length xs. body (i + k) (xs ! k) = Inl e \<and> (\<forall>j < k. body (i + j) (xs ! j) = Inr ()))"
proof (induction xs arbitrary: i)
  case (Cons x xs)
  have "(\<exists>k < length (x # xs). body (i + k) ((x # xs) ! k) = Inl e \<and> (\<forall>j < k. body (i + j) ((x # xs) ! j) = Inr ())) \<longleftrightarrow>
      body i x = Inl e \<or> (body i x = Inr () \<and>
        (\<exists>k < length xs. body (Suc i + k) (xs ! k) = Inl e \<and> (\<forall>j < k. body (Suc i + j) (xs ! j) = Inr ())))"
    (is "?l \<longleftrightarrow> ?r")
  proof
    assume ?l
    then obtain k where k: "k < length (x # xs)" "body (i + k) ((x # xs) ! k) = Inl e"
      "\<forall>j < k. body (i + j) ((x # xs) ! j) = Inr ()" by blast
    then show ?r
      by (cases k) (auto 0 4 simp: nth_Cons split: nat.splits)
  next
    assume ?r
    then show ?l by (auto 0 4 simp: nth_Cons less_Suc_eq_0_disj intro: exI [of _ 0] exI [of _ "Suc _"] split: nat.split)
  qed
  with Cons.IH [of "Suc i"] show ?case by (cases "body i x") auto
qed simp

definition valid_label :: "string \<Rightarrow> bool" where
  "valid_label s \<longleftrightarrow> 1 \<le> chars_count s \<and> chars_count s \<le> 128"

definition valid_method :: "catalog_method \<Rightarrow> bool" where
  "valid_method m \<longleftrightarrow> valid_name (cm_name m) \<and> is_object (cm_params m) \<and> is_object (cm_result m)
     \<and> [] \<notin> set (cm_capabilities m) \<and> distinct (cm_capabilities m)"

definition valid_event :: "catalog_event \<Rightarrow> bool" where
  "valid_event e \<longleftrightarrow> valid_name (ce_topic e) \<and> is_object (ce_payload e)"

text \<open>The catalog schema's rules, the wire version's among them, and the same without that one.\<close>

definition valid_protocol :: "protocol_version option \<Rightarrow> bool" where
  "valid_protocol p \<longleftrightarrow> (\<forall>v. p = Some v \<longrightarrow> 1 \<le> pv_major v)"

definition valid_catalog :: "catalog \<Rightarrow> bool" where
  "valid_catalog c \<longleftrightarrow> valid_label (cat_name c) \<and> valid_label (cat_version c)
     \<and> (\<forall>m \<in> set (cat_methods c). valid_method m) \<and> (\<forall>e \<in> set (cat_events c). valid_event e)
     \<and> (\<forall>v. cat_capabilities c = Some v \<longrightarrow> is_object v) \<and> valid_protocol (cat_protocol c)"

abbreviation valid_but_protocol :: "catalog \<Rightarrow> bool" where
  "valid_but_protocol c \<equiv> valid_catalog (c\<lparr>cat_protocol := None\<rparr>)"

lemma check_name_Inr: "check_name field value = Inr () \<longleftrightarrow> valid_label value"
  by (simp add: check_name_def valid_label_def MAX_NAME_CHARS_def Let_def)

lemma check_document_Inr: "check_document N field v = Inr () \<longleftrightarrow> is_object v"
  by (simp add: check_document_def)

lemma distinct_prefixes: "distinct xs \<longleftrightarrow> (\<forall>k < length xs. xs ! k \<notin> set (take k xs))"
proof
  assume "distinct xs"
  then show "\<forall>k < length xs. xs ! k \<notin> set (take k xs)"
    by (auto simp: in_set_conv_nth distinct_conv_nth)
next
  assume *: "\<forall>k < length xs. xs ! k \<notin> set (take k xs)"
  have "xs ! i \<noteq> xs ! j" if "j < length xs" "i < j" for i j
    using * that by (metis in_set_conv_nth length_take min_less_iff_conj nth_take order.strict_trans)
  then show "distinct xs" by (metis distinct_conv_nth linorder_neqE_nat)
qed

lemma check_capabilities_Inr:
  "check_capabilities field names = Inr () \<longleftrightarrow> [] \<notin> set names \<and> distinct names"
proof -
  have "[] \<notin> set names \<longleftrightarrow> (\<forall>k < length names. names ! k \<noteq> [])" by (metis in_set_conv_nth)
  then show ?thesis
    unfolding check_capabilities_def for_each_from_Inr distinct_prefixes by (simp add: Let_def) blast
qed

lemma check_grammar_Inr: "check_grammar field value = Inr () \<longleftrightarrow> valid_name value"
  by (simp add: check_grammar_def valid_name_iff)

lemma check_method_Inr: "check_method N i m = Inr () \<longleftrightarrow> valid_method m"
  by (auto simp: check_method_def and_then_Inr check_grammar_Inr check_document_Inr check_capabilities_Inr valid_method_def)

lemma check_event_Inr: "check_event N i e = Inr () \<longleftrightarrow> valid_event e"
  by (auto simp: check_event_def and_then_Inr check_grammar_Inr check_document_Inr valid_event_def)

lemma check_methods_Inr: "for_each (check_method N) ms = Inr () \<longleftrightarrow> (\<forall>m \<in> set ms. valid_method m)"
  by (simp add: for_each_from_Inr check_method_Inr all_set_conv_all_nth)

lemma check_events_Inr: "for_each (check_event N) es = Inr () \<longleftrightarrow> (\<forall>e \<in> set es. valid_event e)"
  by (simp add: for_each_from_Inr check_event_Inr all_set_conv_all_nth)

lemma catalog_validate_Inr: "catalog_validate N c = Inr () \<longleftrightarrow> valid_but_protocol c"
  by (auto simp: catalog_validate_def and_then_Inr check_name_Inr check_methods_Inr check_events_Inr
      check_document_Inr valid_catalog_def valid_protocol_def split: option.split)

text \<open>
  C31: \<open>Catalog::validate\<close> accepts exactly the catalogs that meet every rule of the catalog schema but
  one: labels of 1 to 128 characters, every method name and topic in the name grammar, every embedded
  schema document an object, and required capabilities non-empty and pairwise distinct.  The one rule
  it leaves out is that the major version of \<open>protocol\<close> is at least 1: a catalog is valid under the whole
  schema exactly when \<open>validate\<close> accepts it and a \<open>protocol\<close> it carries has such a version, and a version
  with major 0 never makes \<open>validate\<close> refuse a catalog it would accept without.
\<close>

theorem catalog_validate_iff:
  "(catalog_validate fmt_number c = Inr () \<longleftrightarrow> valid_catalog (c\<lparr>cat_protocol := None\<rparr>))
   \<and> (valid_catalog c \<longleftrightarrow> catalog_validate fmt_number c = Inr ()
        \<and> (case cat_protocol c of Some v \<Rightarrow> 1 \<le> pv_major v | None \<Rightarrow> True))"
  by (auto simp: catalog_validate_Inr valid_catalog_def valid_protocol_def split: option.split)

definition at_member :: "string \<Rightarrow> nat \<Rightarrow> string \<Rightarrow> bool" where
  "at_member list k field \<longleftrightarrow> take (length (indexed list k [])) field = indexed list k []"

lemma at_member_indexed: "at_member list k (indexed list k member @ rest)"
proof -
  have "indexed list k member = indexed list k [] @ member" by (simp add: indexed_def)
  then show ?thesis unfolding at_member_def by (metis append.assoc append_eq_conv_conj)
qed

lemma check_capabilities_field:
  "check_capabilities field names = Inl e \<Longrightarrow> \<exists>rest. ve_field e = field @ rest"
  unfolding check_capabilities_def for_each_from_Inl by (auto simp: Let_def ve_new_def split: if_splits)

lemma check_method_field:
  assumes "check_method N k m = Inl e"
  shows "at_member ''methods'' k (ve_field e)"
proof -
  have "\<exists>member rest. ve_field e = indexed ''methods'' k member @ rest"
    using assms check_capabilities_field
    by (auto simp: check_method_def and_then_Inl check_grammar_def check_document_def ve_new_def split: if_splits)
       (metis append_Nil2)+
  then show ?thesis using at_member_indexed by auto
qed

lemma check_event_field:
  assumes "check_event N k x = Inl e"
  shows "at_member ''events'' k (ve_field e)"
proof -
  have "\<exists>member rest. ve_field e = indexed ''events'' k member @ rest"
    using assms
    by (auto simp: check_event_def and_then_Inl check_grammar_def check_document_def ve_new_def split: if_splits)
       (metis append_Nil2)+
  then show ?thesis using at_member_indexed by auto
qed

text \<open>
  A refused catalog's error names the first offender in document order: the name, the version, the
  first invalid method or, when all methods are valid, the first invalid event, by its index, or the
  capabilities document.
\<close>

theorem catalog_refusal_points:
  assumes "catalog_validate fmt_number c = Inl e"
  shows "(ve_field e = ''catalog.name'' \<and> \<not> valid_label (cat_name c))
    \<or> (ve_field e = ''catalog.version'' \<and> valid_label (cat_name c) \<and> \<not> valid_label (cat_version c))
    \<or> (\<exists>k < length (cat_methods c). at_member ''methods'' k (ve_field e) \<and> \<not> valid_method (cat_methods c ! k)
         \<and> (\<forall>j < k. valid_method (cat_methods c ! j)))
    \<or> (\<exists>k < length (cat_events c). at_member ''events'' k (ve_field e) \<and> \<not> valid_event (cat_events c ! k)
         \<and> (\<forall>j < k. valid_event (cat_events c ! j)) \<and> (\<forall>m \<in> set (cat_methods c). valid_method m))
    \<or> (ve_field e = ''catalog.capabilities'' \<and> (\<exists>v. cat_capabilities c = Some v \<and> \<not> is_object v))"
proof -
  consider "check_name ''catalog.name'' (cat_name c) = Inl e"
    | "check_name ''catalog.name'' (cat_name c) = Inr ()" "check_name ''catalog.version'' (cat_version c) = Inl e"
    | "for_each (check_method fmt_number) (cat_methods c) = Inl e"
    | "for_each (check_method fmt_number) (cat_methods c) = Inr ()" "for_each (check_event fmt_number) (cat_events c) = Inl e"
    | v where "cat_capabilities c = Some v" "check_document fmt_number ''catalog.capabilities'' v = Inl e"
    using assms by (auto simp: catalog_validate_def and_then_Inl split: option.splits)
  then show ?thesis
  proof cases
    case 1
    moreover from this have "ve_field e = ''catalog.name''" by (auto simp: check_name_def ve_new_def Let_def split: if_splits)
    ultimately show ?thesis using check_name_Inr [of "''catalog.name''" "cat_name c"] by auto
  next
    case 2
    moreover from this have "ve_field e = ''catalog.version''" by (auto simp: check_name_def ve_new_def Let_def split: if_splits)
    ultimately show ?thesis
      using check_name_Inr [of "''catalog.name''" "cat_name c"] check_name_Inr [of "''catalog.version''" "cat_version c"] by auto
  next
    case 3
    then obtain k where "k < length (cat_methods c)" "check_method fmt_number k (cat_methods c ! k) = Inl e"
      "\<forall>j < k. check_method fmt_number j (cat_methods c ! j) = Inr ()"
      by (auto simp: for_each_from_Inl)
    then show ?thesis using check_method_field check_method_Inr [of fmt_number k "cat_methods c ! k"]
      by (auto simp: check_method_Inr)
  next
    case 4
    then obtain k where "k < length (cat_events c)" "check_event fmt_number k (cat_events c ! k) = Inl e"
      "\<forall>j < k. check_event fmt_number j (cat_events c ! j) = Inr ()"
      by (auto simp: for_each_from_Inl)
    with 4(1) show ?thesis using check_event_field check_event_Inr [of fmt_number k "cat_events c ! k"]
      by (auto simp: check_event_Inr check_methods_Inr)
  next
    case 5
    then show ?thesis by (auto simp: check_document_def ve_new_def split: if_splits)
  qed
qed

definition bad_name_catalog :: catalog where
  "bad_name_catalog = \<lparr>cat_name = ''c'', cat_version = ''1'', cat_description = None, cat_protocol = None,
     cat_methods = [\<lparr>cm_name = ''bad'', cm_description = None, cm_params = JObject [], cm_result = JObject [],
        cm_capabilities = [], cm_deprecated = False\<rparr>],
     cat_events = [], cat_capabilities = None\<rparr>"

lemma bad_name_labels: "chars_count ''c'' = 1" "chars_count ''1'' = 1" "\<not> is_valid_method_name ''bad''"
  by code_simp+

theorem catalog_refusal_points_witness:
  "\<exists>e. catalog_validate (\<lambda>_. []) bad_name_catalog = Inl e \<and> at_member ''methods'' 0 (ve_field e)"
proof -
  obtain e where e: "catalog_validate (\<lambda>_. []) bad_name_catalog = Inl e"
    by (simp add: catalog_validate_def bad_name_catalog_def check_name_def bad_name_labels MAX_NAME_CHARS_def
        check_method_def check_grammar_def)
  from catalog_refusal_points [OF e] have "at_member ''methods'' 0 (ve_field e)"
    by (auto simp: bad_name_catalog_def valid_label_def bad_name_labels)
  with e show ?thesis by blast
qed

end
