(* ===== verification/Ndjson.thy ===== *)
theory Ndjson
  imports Validate
begin

text \<open>
  NDJSON framing (\<open>codec/ndjson.rs\<close>) with the shared floor rule (\<open>codec/limits.rs\<close>): encoding and
  decoding one line, and the incremental \<open>LineDecoder\<close>.  \<open>serde_json\<close> is not part of the
  repository; its three entry points are the fields of the record \<open>serde_json\<close>, and \<open>serde_ok\<close>
  states what the codec relies on: the text of a frame is one JSON object in compact form, with
  every control character escaped, and reading it back gives the frame whenever the JSON it carries
  is \<open>json_exact\<close>: no floating-point number (\<open>serde_json\<close> promises exact floats only with a feature
  this crate does not enable) and not nested near the reader's recursion limit.
\<close>

section \<open>The floor rule\<close>

definition limit_message :: "string \<Rightarrow> nat \<Rightarrow> nat \<Rightarrow> string" where
  "limit_message name value floor =
     name @ '' is '' @ show_nat value @ ''; expected at least '' @ show_nat floor"

text \<open>A panic is \<open>Inl\<close> of its message.\<close>

definition check_at_least :: "string \<Rightarrow> nat \<Rightarrow> nat \<Rightarrow> string + nat" where
  "check_at_least name value floor =
     (if value \<ge> floor then Inr value else Inl (limit_message name value floor))"

definition checked_at_least :: "string \<Rightarrow> nat \<Rightarrow> nat \<Rightarrow> string + nat" where
  "checked_at_least name value floor =
     (if value < floor then Inl (limit_message name value floor) else Inr value)"

definition DEFAULT_MAX_FRAME_BYTES :: nat where "DEFAULT_MAX_FRAME_BYTES = 16 * 1024 * 1024"
definition MIN_MAX_FRAME_BYTES :: nat where "MIN_MAX_FRAME_BYTES = unat MIN_ANNOUNCED_FRAME_BYTES"
definition PREVIEW_CHARS :: nat where "PREVIEW_CHARS = 120"

definition check_max_frame_bytes :: "nat \<Rightarrow> string + nat" where
  "check_max_frame_bytes n = check_at_least ''max_frame_bytes'' n MIN_MAX_FRAME_BYTES"

lemma MIN_MAX_FRAME_BYTES [simp]: "MIN_MAX_FRAME_BYTES = 4096"
  by (simp add: MIN_MAX_FRAME_BYTES_def MIN_ANNOUNCED_FRAME_BYTES_def)

lemma checked_at_least_Inr [simp]: "checked_at_least n v f = Inr w \<longleftrightarrow> f \<le> v \<and> w = v"
  by (auto simp: checked_at_least_def)

lemma check_at_least_Inr [simp]: "check_at_least n v f = Inr w \<longleftrightarrow> f \<le> v \<and> w = v"
  by (auto simp: check_at_least_def)

section \<open>serde\_json\<close>

datatype category = Io | Syntax | Data | Eof

record serde_error =
  se_category :: category
  se_message :: string

record serde_json =
  to_vec :: "frame \<Rightarrow> string + byte list"
  from_slice :: "byte list \<Rightarrow> serde_error + frame"
  from_slice_value :: "byte list \<Rightarrow> json option"

text \<open>
  The values whose text reads back exactly: no floats, objects in key order, and at most \<open>d\<close> levels
  of nesting (\<open>serde_json\<close> refuses text nested 128 deep, the frame's own objects included).
\<close>

primrec json_exact :: "nat \<Rightarrow> json \<Rightarrow> bool" where
  "json_exact 0 v =
     (case v of JNumber n \<Rightarrow> \<not> is_Float n | JArray _ \<Rightarrow> False | JObject _ \<Rightarrow> False | _ \<Rightarrow> True)"
| "json_exact (Suc d) v =
     (case v of
        JNumber n \<Rightarrow> \<not> is_Float n
      | JArray vs \<Rightarrow> list_all (json_exact d) vs
      | JObject m \<Rightarrow> bm_wf m \<and> list_all (\<lambda>e. json_exact d (snd e)) m
      | _ \<Rightarrow> True)"

definition JSON_DEPTH :: nat where "JSON_DEPTH = 120"

definition frame_exact :: "frame \<Rightarrow> bool" where
  "frame_exact f =
     (case f of
        Hello h \<Rightarrow> json_exact JSON_DEPTH (JObject (hello_capabilities h))
      | Req r \<Rightarrow> json_exact JSON_DEPTH (req_params r)
      | Res r \<Rightarrow> json_exact JSON_DEPTH (res_result r)
      | Err e \<Rightarrow> (case ep_details (err_error e) of
                    None \<Rightarrow> True | Some d \<Rightarrow> json_exact JSON_DEPTH (JObject d))
      | Evt e \<Rightarrow> json_exact JSON_DEPTH (evt_payload e)
      | _ \<Rightarrow> True)"

definition serde_ok :: "serde_json \<Rightarrow> bool" where
  "serde_ok S \<longleftrightarrow>
     (\<forall>f bs. to_vec S f = Inr bs \<longrightarrow>
        bs \<noteq> [] \<and> hd bs = 0x7B \<and> last bs = 0x7D \<and> 0x0A \<notin> set bs
        \<and> (frame_exact f \<longrightarrow> from_slice S bs = Inr f))"

section \<open>One line\<close>

definition preview :: "byte list \<Rightarrow> string" where
  "preview bytes =
     (let text = from_utf8_lossy bytes; count = chars_count text in
      if count \<le> PREVIEW_CHARS then debug_str text
      else debug_str (chars_take PREVIEW_CHARS text) @ ellipsis @ '' ('' @ show_nat (length bytes)
           @ '' bytes)'')"

definition too_large :: "nat \<Rightarrow> nat \<Rightarrow> codec_error" where
  "too_large len max_frame_bytes =
     codec_error_new TooLarge
       (''received a line of '' @ show_nat len @ '' bytes, expected at most ''
        @ show_nat max_frame_bytes)"

definition frame_type_of :: "serde_json \<Rightarrow> byte list \<Rightarrow> string option" where
  "frame_type_of S line =
     (case from_slice_value S line of
        Some (JObject m) \<Rightarrow> (case bm_get m ''type'' of Some (JString t) \<Rightarrow> Some t | _ \<Rightarrow> None)
      | _ \<Rightarrow> None)"

definition strip_carriage_return :: "byte list \<Rightarrow> byte list" where
  "strip_carriage_return line =
     (if line \<noteq> [] \<and> last line = 0x0D then butlast line else line)"

definition is_ascii_whitespace :: "byte \<Rightarrow> bool" where
  "is_ascii_whitespace b = (b = 0x09 \<or> b = 0x0A \<or> b = 0x0C \<or> b = 0x0D \<or> b = 0x20)"

definition is_blank :: "byte list \<Rightarrow> bool" where
  "is_blank line = list_all is_ascii_whitespace line"

definition encode_frame_bytes :: "serde_json \<Rightarrow> frame \<Rightarrow> nat \<Rightarrow> codec_error + byte list" where
  "encode_frame_bytes S f max_frame_bytes =
     and_then (map_err (codec_error_new Schema)
                (checked_at_least ''max_frame_bytes'' max_frame_bytes MIN_MAX_FRAME_BYTES))
     (\<lambda>max_frame_bytes.
     and_then (map_err (\<lambda>e. codec_error_new Schema (ve_display e)) (validate f))
     (\<lambda>_.
     and_then (map_err (\<lambda>e. codec_error_new Schema
                  (''received a '' @ type_name f @ '' frame that would not serialise: '' @ e))
                (to_vec S f))
     (\<lambda>bytes.
        if length bytes > max_frame_bytes then Inl (too_large (length bytes) max_frame_bytes)
        else Inr bytes)))"

definition encode_line :: "serde_json \<Rightarrow> frame \<Rightarrow> nat \<Rightarrow> codec_error + byte list" where
  "encode_line S f max_frame_bytes =
     and_then (encode_frame_bytes S f max_frame_bytes) (\<lambda>line. Inr (line @ [0x0A]))"

definition classify_kind :: "category \<Rightarrow> codec_error_kind" where
  "classify_kind c = (case c of Syntax \<Rightarrow> InvalidJson | Eof \<Rightarrow> InvalidJson | Io \<Rightarrow> InvalidJson
     | Data \<Rightarrow> Schema)"

definition decode_line :: "serde_json \<Rightarrow> byte list \<Rightarrow> nat \<Rightarrow> codec_error + frame" where
  "decode_line S bytes max_frame_bytes =
     and_then (map_err (codec_error_new Schema)
                (checked_at_least ''max_frame_bytes'' max_frame_bytes MIN_MAX_FRAME_BYTES))
     (\<lambda>max_frame_bytes.
      let line = strip_carriage_return bytes in
      if length line > max_frame_bytes then Inl (too_large (length line) max_frame_bytes)
      else if is_blank line then
        Inl (codec_error_new Schema
          (''received a blank line of '' @ show_nat (length line)
           @ '' bytes, expected one JSON object with a type member''))
      else
        and_then
          (map_err (\<lambda>error.
              let kind = classify_kind (se_category error);
                  refusal = codec_error_new kind
                    (''received '' @ preview line @ '', expected one Mango Protocol frame: ''
                     @ se_message error)
              in case frame_type_of S line of
                   Some ty \<Rightarrow> if kind = Schema then with_frame_type refusal ty else refusal
                 | None \<Rightarrow> refusal)
            (from_slice S line))
          (\<lambda>frame.
            and_then (map_err (\<lambda>error. with_frame_type (codec_error_new Schema (ve_display error))
                                 (type_name frame)) (validate frame))
              (\<lambda>_. Inr frame)))"

section \<open>The stream decoder\<close>

record push_outcome =
  po_frames :: "frame list"
  po_error :: "codec_error option"

record line_decoder =
  ld_max_frame_bytes :: nat
  ld_buffer :: "byte list"
  ld_failure :: "codec_error option"

definition line_decoder_new :: "nat \<Rightarrow> string + line_decoder" where
  "line_decoder_new max_frame_bytes =
     and_then (check_at_least ''max_frame_bytes'' max_frame_bytes MIN_MAX_FRAME_BYTES)
       (\<lambda>m. Inr \<lparr>ld_max_frame_bytes = m, ld_buffer = [], ld_failure = None\<rparr>)"

text \<open>The bytes before the first newline of the unconsumed buffer, and those after it.\<close>

fun split_line :: "byte list \<Rightarrow> (byte list \<times> byte list) option" where
  "split_line [] = None"
| "split_line (b # bs) =
     (if b = 0x0A then Some ([], bs)
      else map_option (\<lambda>(line, rest). (b # line, rest)) (split_line bs))"

lemma split_line_SomeD: "split_line bs = Some (l, r) \<Longrightarrow> bs = l @ 0x0A # r \<and> 0x0A \<notin> set l"
  by (induction bs arbitrary: l) (auto split: if_splits)

lemma split_line_None [simp]: "split_line bs = None \<longleftrightarrow> 0x0A \<notin> set bs"
  by (induction bs) auto

text \<open>
  The \<open>while let\<close> loop of \<open>push\<close>: the frames so far, the unconsumed buffer; the result is the
  frames, the failure that broke the loop if any, and what is left after \<open>drain\<close>.
\<close>

function push_loop :: "serde_json \<Rightarrow> nat \<Rightarrow> frame list \<Rightarrow> byte list
    \<Rightarrow> frame list \<times> codec_error option \<times> byte list" where
  "push_loop S m frames buffer =
     (case split_line buffer of
        None \<Rightarrow> (frames, None, buffer)
      | Some (line, rest) \<Rightarrow>
          let content = strip_carriage_return line in
          if length content > m then (frames, Some (too_large (length content) m), rest)
          else if is_blank content then push_loop S m frames rest
          else (case decode_line S line m of
                  Inr frame \<Rightarrow> push_loop S m (frames @ [frame]) rest
                | Inl e \<Rightarrow> (frames, Some e, rest)))"
  by pat_completeness auto
termination
  by (relation "measure (\<lambda>(S, m, frames, buffer). length buffer)") (auto dest: split_line_SomeD)

declare push_loop.simps [simp del]

definition ld_push :: "serde_json \<Rightarrow> line_decoder \<Rightarrow> byte list \<Rightarrow> line_decoder \<times> push_outcome" where
  "ld_push S d bytes =
     (case ld_failure d of
        Some failure \<Rightarrow> (d, \<lparr>po_frames = [], po_error = Some failure\<rparr>)
      | None \<Rightarrow>
          let m = ld_max_frame_bytes d;
              (frames, failure, rest) = push_loop S m [] (ld_buffer d @ bytes);
              partial = length (strip_carriage_return rest);
              failure = (case failure of
                           None \<Rightarrow> if partial > m then Some (too_large partial m) else None
                         | Some e \<Rightarrow> Some e)
          in (case failure of
                Some e \<Rightarrow> (d\<lparr>ld_failure := Some e, ld_buffer := []\<rparr>,
                           \<lparr>po_frames = frames, po_error = Some e\<rparr>)
              | None \<Rightarrow> (d\<lparr>ld_buffer := rest\<rparr>, \<lparr>po_frames = frames, po_error = None\<rparr>)))"

definition ld_finish :: "serde_json \<Rightarrow> line_decoder \<Rightarrow> line_decoder \<times> (codec_error + frame list)" where
  "ld_finish S d =
     (case ld_failure d of
        Some failure \<Rightarrow> (d, Inl failure)
      | None \<Rightarrow>
          let line = ld_buffer d; d = d\<lparr>ld_buffer := []\<rparr> in
          if is_blank (strip_carriage_return line) then (d, Inr [])
          else (case decode_line S line (ld_max_frame_bytes d) of
                  Inr frame \<Rightarrow> (d, Inr [frame])
                | Inl e \<Rightarrow> (d\<lparr>ld_failure := Some e\<rparr>, Inl e)))"

section \<open>Lemmas on one line\<close>

lemma strip_length: "length (strip_carriage_return l) \<le> length l"
  by (simp add: strip_carriage_return_def)

lemma strip_length_ge: "length l \<le> Suc (length (strip_carriage_return l))"
  by (simp add: strip_carriage_return_def)

lemma strip_noop: "l \<noteq> [] \<Longrightarrow> last l \<noteq> 0x0D \<Longrightarrow> strip_carriage_return l = l"
  by (simp add: strip_carriage_return_def)

lemma strip_append_length:
  "length (strip_carriage_return a) \<le> length (strip_carriage_return (a @ b))"
  by (cases "b = []") (auto simp: strip_carriage_return_def butlast_append)

lemma encode_frame_bytes_Inr:
  "encode_frame_bytes S f m = Inr bs \<longleftrightarrow>
     4096 \<le> m \<and> accepted_frame f \<and> to_vec S f = Inr bs \<and> length bs \<le> m"
proof -
  have "encode_frame_bytes S f m = Inr bs \<longleftrightarrow>
      4096 \<le> m \<and> validate f = Inr () \<and> to_vec S f = Inr bs \<and> length bs \<le> m"
    by (cases "to_vec S f"; cases "validate f")
       (auto simp: encode_frame_bytes_def and_then_def map_err_def checked_at_least_def)
  then show ?thesis by (simp add: is_ok_iff flip: validate_ok)
qed

lemma decode_line_Inr:
  "decode_line S bs m = Inr f \<longleftrightarrow>
     4096 \<le> m \<and> length (strip_carriage_return bs) \<le> m \<and> \<not> is_blank (strip_carriage_return bs)
     \<and> from_slice S (strip_carriage_return bs) = Inr f \<and> accepted_frame f"
  by (auto simp: decode_line_def and_then_Inr Let_def simp flip: validate_ok simp: is_ok_iff)

lemma object_text_not_blank: "bs \<noteq> [] \<Longrightarrow> hd bs = 0x7B \<Longrightarrow> \<not> is_blank bs"
  by (cases bs) (auto simp: is_blank_def is_ascii_whitespace_def)

lemma encoded_object:
  assumes "serde_ok S" and "encode_frame_bytes S f m = Inr bs"
  shows "strip_carriage_return bs = bs" and "\<not> is_blank bs" and "0x0A \<notin> set bs" and "bs \<noteq> []"
  using assms by (auto simp: encode_frame_bytes_Inr serde_ok_def strip_noop object_text_not_blank)

lemma decode_encoded:
  assumes "serde_ok S" and "frame_exact f" and "encode_frame_bytes S f m = Inr bs"
  shows "decode_line S bs m = Inr f"
  using assms encoded_object [OF assms(1,3)]
  by (simp add: encode_frame_bytes_Inr serde_ok_def decode_line_Inr)


text \<open>
  Encoding and decoding one line are inverse: a frame that encodes under a ceiling, as bytes or
  as a whole record less its newline, decodes back to the same frame under the same ceiling, and the
  record ends with the only newline it holds.
\<close>

theorem line_round_trip:
  assumes "serde_ok S" and "frame_exact f" and "encode_line S f m = Inr line"
  shows "\<exists>bs. line = bs @ [0x0A] \<and> 0x0A \<notin> set bs \<and> length bs \<le> m \<and> decode_line S bs m = Inr f"
proof -
  from assms(3) obtain bs where enc: "encode_frame_bytes S f m = Inr bs" "line = bs @ [0x0A]"
    by (auto simp: encode_line_def and_then_Inr)
  with assms show ?thesis
    using encoded_object [OF assms(1) enc(1)] decode_encoded [OF assms(1,2) enc(1)]
    by (simp add: encode_frame_bytes_Inr)
qed

text \<open>A small instance of \<open>serde_json\<close> that serialises the two liveness frames, for witnesses.\<close>

definition ping_text :: "byte list" where
  "ping_text = bytes_of ([CHR 0x7B] @ quoted ''type'' @ '':'' @ quoted ''ping'' @ [CHR 0x7D])"

definition pong_text :: "byte list" where
  "pong_text = bytes_of ([CHR 0x7B] @ quoted ''type'' @ '':'' @ quoted ''pong'' @ [CHR 0x7D])"

definition liveness_serde :: serde_json where
  "liveness_serde =
     \<lparr>to_vec = (\<lambda>f. case f of Ping \<Rightarrow> Inr ping_text | Pong \<Rightarrow> Inr pong_text | _ \<Rightarrow> Inl ''unsupported''),
      from_slice = (\<lambda>bs. if bs = ping_text then Inr Ping else if bs = pong_text then Inr Pong
         else Inl \<lparr>se_category = Syntax, se_message = ''expected value''\<rparr>),
      from_slice_value = (\<lambda>bs. None)\<rparr>"

lemmas liveness_texts = ping_text_def pong_text_def bytes_of_def char_byte_def quoted_def

lemma ping_text_eq: "ping_text = [0x7B, 0x22, 0x74, 0x79, 0x70, 0x65, 0x22, 0x3A, 0x22, 0x70, 0x69, 0x6E, 0x67, 0x22, 0x7D]"
  by (simp add: liveness_texts)

lemma pong_text_eq: "pong_text = [0x7B, 0x22, 0x74, 0x79, 0x70, 0x65, 0x22, 0x3A, 0x22, 0x70, 0x6F, 0x6E, 0x67, 0x22, 0x7D]"
  by (simp add: liveness_texts)

lemma liveness_serde_ok: "serde_ok liveness_serde"
  by (auto simp: serde_ok_def liveness_serde_def ping_text_eq pong_text_eq split: frame.splits)

lemma liveness_encode:
  "4096 \<le> m \<Longrightarrow> encode_frame_bytes liveness_serde Ping m = Inr ping_text"
  "4096 \<le> m \<Longrightarrow> encode_frame_bytes liveness_serde Pong m = Inr pong_text"
  by (simp_all add: encode_frame_bytes_Inr accepted_frame_defs liveness_serde_def ping_text_eq pong_text_eq)

theorem line_round_trip_witness:
  "encode_line liveness_serde Ping 4096 = Inr (ping_text @ [0x0A])
   \<and> decode_line liveness_serde ping_text 4096 = Inr Ping"
proof -
  have e: "encode_line liveness_serde Ping 4096 = Inr (ping_text @ [0x0A])"
    by (simp add: encode_line_def liveness_encode)
  have "frame_exact Ping" by (simp add: frame_exact_def)
  from line_round_trip [OF liveness_serde_ok this e] e show ?thesis by auto
qed

text \<open>
  What a refused line reports: over the limit is \<open>too-large\<close> before anything else is looked
  at, bytes that are not JSON are \<open>invalid-json\<close>, everything else is \<open>schema\<close>; only a schema refusal
  names a frame type; and the close code is 4426 exactly when the refused record was a hello the
  decoder could not read, whether serde or \<open>validate\<close> refused it.
\<close>

theorem decode_line_refusal:
  assumes "decode_line S bs m = Inl e" and "4096 \<le> m"
  shows "(ce_kind e = TooLarge \<longleftrightarrow> m < length (strip_carriage_return bs))
    \<and> (ce_kind e = InvalidJson \<longleftrightarrow> length (strip_carriage_return bs) \<le> m
          \<and> \<not> is_blank (strip_carriage_return bs)
          \<and> (\<exists>se. from_slice S (strip_carriage_return bs) = Inl se \<and> se_category se \<noteq> Data))
    \<and> ce_kind e \<in> {TooLarge, InvalidJson, Schema}
    \<and> (ce_frame_type e \<noteq> None \<longrightarrow> ce_kind e = Schema)
    \<and> (close_code_for_codec_error e = 4426 \<longleftrightarrow> ce_frame_type e = Some ''hello'')"
  using assms
  by (cases "from_slice S (strip_carriage_return bs)")
     (auto simp: decode_line_def and_then_Inl Let_def too_large_def map_err_def checked_at_least_def
        classify_kind_def close_code_for_codec_error_def close_codes
        split: if_splits option.splits sum.splits category.splits)

theorem decode_line_refusal_witness:
  "\<exists>e. decode_line liveness_serde [0x78] 4096 = Inl e \<and> ce_kind e \<in> {TooLarge, InvalidJson, Schema}"
proof -
  have "from_slice liveness_serde (strip_carriage_return [0x78]) \<noteq> Inr f" for f
    by (simp add: strip_noop liveness_serde_def ping_text_eq pong_text_eq)
  then have "decode_line liveness_serde [0x78] 4096 \<noteq> Inr f" for f
    by (simp add: decode_line_Inr)
  then obtain e where "decode_line liveness_serde [0x78] 4096 = Inl e"
    by (cases "decode_line liveness_serde [0x78] 4096") auto
  from decode_line_refusal [OF this] this show ?thesis by auto
qed

section \<open>Incremental decoding\<close>

text \<open>
  What a port relies on of an incremental decoder: feeding a byte string in two pieces is the same
  as feeding it whole, as far as the frames, the kind of the failure and the decoder's \<open>view\<close> of its
  own state go.  Everything about longer segmentations follows.
\<close>

fun run_pushes :: "('d \<Rightarrow> 'b list \<Rightarrow> 'd \<times> 'o) \<Rightarrow> ('o \<Rightarrow> 'f list) \<Rightarrow> 'd \<Rightarrow> 'b list \<Rightarrow> 'b list list
    \<Rightarrow> 'd \<times> 'f list \<times> 'o" where
  "run_pushes push frames d p [] = (fst (push d p), frames (snd (push d p)), snd (push d p))"
| "run_pushes push frames d p (q # qs) =
     (let (d', fs, o') = run_pushes push frames (fst (push d p)) q qs
      in (d', frames (snd (push d p)) @ fs, o'))"

locale incremental_decoder =
  fixes push :: "'d \<Rightarrow> 'b list \<Rightarrow> 'd \<times> 'o"
    and frames :: "'o \<Rightarrow> 'f list"
    and failed :: "'o \<Rightarrow> 'k option"
    and view :: "'d \<Rightarrow> 'v"
    and wf :: "'d \<Rightarrow> bool"
  assumes wf_push: "wf d \<Longrightarrow> wf (fst (push d bs))"
    and push_append:
      "wf d \<Longrightarrow>
       frames (snd (push d (a @ b))) = frames (snd (push d a)) @ frames (snd (push (fst (push d a)) b))
       \<and> failed (snd (push d (a @ b))) = failed (snd (push (fst (push d a)) b))
       \<and> view (fst (push d (a @ b))) = view (fst (push (fst (push d a)) b))"
begin

lemma run_pushes_whole:
  assumes "wf d" and "run_pushes push frames d p ps = (d', fs, r)"
  shows "fs = frames (snd (push d (concat (p # ps))))
    \<and> failed r = failed (snd (push d (concat (p # ps))))
    \<and> view d' = view (fst (push d (concat (p # ps)))) \<and> wf d'"
  using assms
proof (induction ps arbitrary: p d fs)
  case Nil
  then show ?case by (auto simp: wf_push)
next
  case (Cons q qs)
  obtain gs where g: "run_pushes push frames (fst (push d p)) q qs = (d', gs, r)"
    and fs: "fs = frames (snd (push d p)) @ gs"
    using Cons.prems(2) by (auto split: prod.splits)
  from Cons.IH [OF wf_push [OF Cons.prems(1)] g] push_append [OF Cons.prems(1), of p "concat (q # qs)"] fs
  show ?case by simp
qed

lemma segmentation_independent:
  assumes "wf d" and "concat (p # ps) = concat (q # qs)"
    and "run_pushes push frames d p ps = (d1, fs1, r1)"
    and "run_pushes push frames d q qs = (d2, fs2, r2)"
  shows "fs1 = fs2 \<and> failed r1 = failed r2 \<and> view d1 = view d2"
  using run_pushes_whole [OF assms(1,3)] run_pushes_whole [OF assms(1,4)] assms(2) by simp

end

subsection \<open>The scanning loop over an appended buffer\<close>

lemma split_line_append: "split_line a = Some (l, r) \<Longrightarrow> split_line (a @ b) = Some (l, r @ b)"
  by (induction a arbitrary: l) (auto split: if_splits)

lemma split_line_join: "0x0A \<notin> set l \<Longrightarrow> split_line (l @ 0x0A # r) = Some (l, r)"
  by (induction l) auto

lemma push_loop_partial: "0x0A \<notin> set buf \<Longrightarrow> push_loop S m fs buf = (fs, None, buf)"
  by (simp add: push_loop.simps [of S m fs buf] split: option.split)
     (metis not_None_eq split_line_None)

lemma push_loop_append:
  "push_loop S m fs (a @ b) =
     (case push_loop S m fs a of
        (gs, Some e, r) \<Rightarrow> (gs, Some e, r @ b)
      | (gs, None, r) \<Rightarrow> push_loop S m gs (r @ b))"
proof (induction S m fs a rule: push_loop.induct)
  case (1 S m fs a)
  show ?case
  proof (cases "split_line a")
    case None
    then show ?thesis by (simp add: push_loop_partial)
  next
    case (Some lr)
    obtain l r where lr: "lr = (l, r)" by (cases lr)
    with Some have ab: "split_line (a @ b) = Some (l, r @ b)" by (simp add: split_line_append)
    show ?thesis
      using "1.IH" Some lr ab
      by (simp add: push_loop.simps [of S m fs a] push_loop.simps [of S m fs "a @ b"] Let_def
          split: sum.split)
  qed
qed

lemma push_loop_prefix:
  "push_loop S m (xs @ fs) buf = (case push_loop S m fs buf of (gs, e, r) \<Rightarrow> (xs @ gs, e, r))"
proof (induction S m fs buf rule: push_loop.induct)
  case (1 S m fs buf)
  show ?case
  proof (cases "split_line buf")
    case None
    then show ?thesis by (simp add: push_loop_partial)
  next
    case (Some lr)
    obtain l r where lr: "lr = (l, r)" by (cases lr)
    show ?thesis
      using "1.IH" Some lr
      by (simp add: push_loop.simps [of S m fs buf] push_loop.simps [of S m "xs @ fs" buf] Let_def
          split: sum.split)
  qed
qed

lemma push_loop_rest:
  "push_loop S m fs buf = (gs, None, r) \<Longrightarrow> 0x0A \<notin> set r"
proof (induction S m fs buf rule: push_loop.induct)
  case (1 S m fs buf)
  show ?case
  proof (cases "split_line buf")
    case None
    with "1.prems" show ?thesis by (simp add: push_loop_partial)
  next
    case (Some lr)
    obtain l r' where lr: "lr = (l, r')" by (cases lr)
    show ?thesis
      using "1.IH" "1.prems" Some lr
      by (simp add: push_loop.simps [of S m fs buf] Let_def split: sum.splits if_splits)
  qed
qed

lemma push_loop_oversize:
  assumes "0x0A \<notin> set r" and "m < length (strip_carriage_return r)"
  shows "push_loop S m fs (r @ b) = (fs, None, r @ b) \<and> m < length (strip_carriage_return (r @ b))
    \<or> (\<exists>n rest. push_loop S m fs (r @ b) = (fs, Some (too_large n m), rest))"
proof (cases "split_line (r @ b)")
  case None
  with assms(2) show ?thesis
    using strip_append_length [of r b] by (simp add: push_loop_partial)
next
  case (Some lr)
  obtain l rest where lr: "lr = (l, rest)" by (cases lr)
  with Some have "r @ b = l @ 0x0A # rest" using split_line_SomeD by blast
  with assms(1) obtain c where "l = r @ c" by (auto simp: append_eq_append_conv2 append_eq_Cons_conv)
  with assms(2) have "m < length (strip_carriage_return l)" using strip_append_length [of r c] by simp
  with Some lr show ?thesis by (auto simp: push_loop.simps [of S m fs "r @ b"] Let_def)
qed

definition ld_wf :: "line_decoder \<Rightarrow> bool" where
  "ld_wf d = (4096 \<le> ld_max_frame_bytes d \<and> 0x0A \<notin> set (ld_buffer d)
     \<and> (case ld_failure d of
          Some _ \<Rightarrow> ld_buffer d = []
        | None \<Rightarrow> length (strip_carriage_return (ld_buffer d)) \<le> ld_max_frame_bytes d))"

definition ld_view :: "line_decoder \<Rightarrow> nat \<times> byte list \<times> codec_error_kind option" where
  "ld_view d = (ld_max_frame_bytes d, ld_buffer d, map_option ce_kind (ld_failure d))"

definition po_kind :: "push_outcome \<Rightarrow> codec_error_kind option" where
  "po_kind r = map_option ce_kind (po_error r)"

lemma ld_push_failed:
  "ld_failure d = Some e \<Longrightarrow> ld_push S d bs = (d, \<lparr>po_frames = [], po_error = Some e\<rparr>)"
  by (simp add: ld_push_def)

lemma too_large_kind [simp]: "ce_kind (too_large n m) = TooLarge"
  by (simp add: too_large_def codec_error_new_def)

lemma ld_push_wf: "ld_wf d \<Longrightarrow> ld_wf (fst (ld_push S d bs))"
  by (auto simp: ld_push_def ld_wf_def Let_def dest: push_loop_rest split: option.splits prod.splits)

lemma ld_push_append:
  fixes S d a
  assumes "ld_wf d"
  defines "d1 \<equiv> fst (ld_push S d a)"
  shows "po_frames (snd (ld_push S d (a @ b))) = po_frames (snd (ld_push S d a)) @ po_frames (snd (ld_push S d1 b))
    \<and> po_kind (snd (ld_push S d (a @ b))) = po_kind (snd (ld_push S d1 b))
    \<and> ld_view (fst (ld_push S d (a @ b))) = ld_view (fst (ld_push S d1 b))"
proof (cases "ld_failure d")
  case (Some e)
  then show ?thesis by (simp add: d1_def ld_push_failed)
next
  case None
  let ?m = "ld_max_frame_bytes d"
  obtain gs fl r where pl: "push_loop S ?m [] (ld_buffer d @ a) = (gs, fl, r)" by (metis prod_cases3)
  have whole: "push_loop S ?m [] (ld_buffer d @ a @ b) =
      (case fl of Some e \<Rightarrow> (gs, Some e, r @ b) | None \<Rightarrow> push_loop S ?m gs (r @ b))"
    using push_loop_append [of S ?m "[]" "ld_buffer d @ a" b] pl by simp
  show ?thesis
  proof (cases fl)
    case (Some e)
    with None pl whole show ?thesis
      by (simp add: d1_def ld_push_def po_kind_def ld_view_def)
  next
    case fl: None
    with pl have r: "0x0A \<notin> set r" by (simp add: push_loop_rest)
    show ?thesis
    proof (cases "?m < length (strip_carriage_return r)")
      case True
      from push_loop_oversize [OF r this, of S gs b] show ?thesis
        using None fl pl whole True
        by (auto simp: d1_def ld_push_def po_kind_def ld_view_def Let_def)
    next
      case False
      have "push_loop S ?m gs (r @ b) = (case push_loop S ?m [] (r @ b) of (hs, e, r) \<Rightarrow> (gs @ hs, e, r))"
        using push_loop_prefix [of S ?m gs "[]"] by simp
      with None fl pl whole False show ?thesis
        by (simp add: d1_def ld_push_def po_kind_def ld_view_def Let_def split: prod.split option.split)
    qed
  qed
qed

interpretation ld: incremental_decoder "ld_push S" po_frames po_kind ld_view ld_wf for S
  by unfold_locales (simp_all add: ld_push_wf ld_push_append)

lemma line_decoder_new_Inr:
  "line_decoder_new m = Inr d \<longleftrightarrow> 4096 \<le> m \<and> d = \<lparr>ld_max_frame_bytes = m, ld_buffer = [], ld_failure = None\<rparr>"
  by (auto simp: line_decoder_new_def and_then_Inr)

lemma line_decoder_new_wf: "line_decoder_new m = Inr d \<Longrightarrow> ld_wf d"
  by (auto simp: line_decoder_new_Inr ld_wf_def strip_carriage_return_def)

lemma push_loop_valid:
  "push_loop S m fs buf = (gs, e, r) \<Longrightarrow> list_all accepted_frame fs \<Longrightarrow> list_all accepted_frame gs"
proof (induction S m fs buf rule: push_loop.induct)
  case (1 S m fs buf)
  show ?case
  proof (cases "split_line buf")
    case None
    with "1.prems" show ?thesis by (simp add: push_loop_partial)
  next
    case (Some lr)
    obtain l r' where lr: "lr = (l, r')" by (cases lr)
    show ?thesis
      using "1.IH" "1.prems" Some lr
      by (auto simp: push_loop.simps [of S m fs buf] Let_def decode_line_Inr split: sum.splits if_splits)
  qed
qed

lemma ld_push_valid: "list_all accepted_frame (po_frames (snd (ld_push S d bs)))"
  by (auto simp: ld_push_def Let_def dest: push_loop_valid split: option.splits prod.splits)

lemma ld_push_max: "ld_max_frame_bytes (fst (ld_push S d bs)) = ld_max_frame_bytes d"
  by (simp add: ld_push_def Let_def split: option.split prod.split)

lemma ld_push_error: "po_error (snd (ld_push S d bs)) = ld_failure (fst (ld_push S d bs))"
  by (simp add: ld_push_def Let_def split: option.split prod.split)

lemma run_pushes_ld:
  "run_pushes (ld_push S) po_frames d p ps = (d', fs, r) \<Longrightarrow>
     list_all accepted_frame fs \<and> ld_max_frame_bytes d' = ld_max_frame_bytes d \<and> po_error r = ld_failure d'"
proof (induction ps arbitrary: p d fs)
  case Nil
  then show ?case by (auto simp: ld_push_valid ld_push_max ld_push_error)
next
  case (Cons q qs)
  then show ?case by (fastforce simp: ld_push_valid ld_push_max split: prod.splits)
qed

text \<open>
  C32: However a byte stream is cut into reads, the decoder delivers the same frames, fails in the
  same way or not at all, and ends in the same state (up to the byte count an over-limit message
  quotes).
\<close>

theorem ld_segmentation_independent:
  assumes "line_decoder_new m = Inr d" and "concat (p # ps) = concat (q # qs)"
    and "run_pushes (ld_push S) po_frames d p ps = (d1, fs1, r1)"
    and "run_pushes (ld_push S) po_frames d q qs = (d2, fs2, r2)"
  shows "fs1 = fs2 \<and> po_kind r1 = po_kind r2 \<and> ld_view d1 = ld_view d2"
  using ld.segmentation_independent [OF line_decoder_new_wf [OF assms(1)] assms(2-4)] .

lemma prod3_eta: "x = (fst x, fst (snd x), snd (snd x))"
  by simp

definition fresh_decoder :: line_decoder where
  "fresh_decoder = \<lparr>ld_max_frame_bytes = 4096, ld_buffer = [], ld_failure = None\<rparr>"

lemma fresh_decoder_new: "line_decoder_new 4096 = Inr fresh_decoder"
  by (simp add: line_decoder_new_Inr fresh_decoder_def)

theorem ld_segmentation_independent_witness:
  "fst (snd (run_pushes (ld_push liveness_serde) po_frames fresh_decoder [0x7B] [tl ping_text, [0x0A]]))
   = fst (snd (run_pushes (ld_push liveness_serde) po_frames fresh_decoder (ping_text @ [0x0A]) []))"
proof -
  have "concat [[0x7B], tl ping_text, [0x0A]] = concat [ping_text @ [0x0A]]" by (simp add: ping_text_eq)
  from ld_segmentation_independent [OF fresh_decoder_new this prod3_eta prod3_eta] show ?thesis by blast
qed

text \<open>
  C33: A decoder holds at most one partial line within the limit plus a carriage return, delivers
  only valid frames, and once it has reported an error it stays failed: every later push delivers
  nothing and repeats the error, and so does \<open>finish\<close>.
\<close>

theorem ld_bounded_and_sticky:
  assumes "line_decoder_new m = Inr d" and "run_pushes (ld_push S) po_frames d p ps = (d', fs, r)"
  shows "length (ld_buffer d') \<le> m + 1 \<and> 0x0A \<notin> set (ld_buffer d') \<and> list_all accepted_frame fs
    \<and> (\<forall>e. po_error r = Some e \<longrightarrow>
          ld_buffer d' = [] \<and> ld_finish S d' = (d', Inl e)
          \<and> (\<forall>bs. ld_push S d' bs = (d', \<lparr>po_frames = [], po_error = Some e\<rparr>)))"
proof -
  have wf: "ld_wf d'" using ld.run_pushes_whole [OF line_decoder_new_wf [OF assms(1)] assms(2)] by simp
  note run = run_pushes_ld [OF assms(2)]
  have m: "ld_max_frame_bytes d = m" using assms(1) by (simp add: line_decoder_new_Inr)
  have "length (ld_buffer d') \<le> m + 1"
    using wf run m strip_length_ge [of "ld_buffer d'"] by (auto simp: ld_wf_def split: option.splits)
  with wf run show ?thesis
    by (auto simp: ld_wf_def ld_push_failed ld_finish_def split: option.splits)
qed

theorem ld_bounded_and_sticky_witness:
  "length (ld_buffer (fst (ld_push liveness_serde fresh_decoder [0x7B]))) \<le> 4097"
  using ld_bounded_and_sticky [OF fresh_decoder_new, of liveness_serde "[0x7B]" "[]"] by simp

lemma push_loop_lines:
  assumes "serde_ok S" and "4096 \<le> m"
  shows "list_all2 (\<lambda>f l. frame_exact f \<and> encode_line S f m = Inr l) fs ls \<Longrightarrow>
    push_loop S m gs (concat ls) = (gs @ fs, None, [])"
proof (induction fs ls arbitrary: gs rule: list_all2_induct)
  case Nil
  then show ?case by (simp add: push_loop_partial)
next
  case (Cons f fs l ls)
  from Cons.hyps have "encode_line S f m = Inr l" "frame_exact f" by simp_all
  then obtain bs where l: "l = bs @ [0x0A]" and enc: "encode_frame_bytes S f m = Inr bs"
    by (auto simp: encode_line_def and_then_Inr)
  note bs = encoded_object [OF assms(1) enc]
  have "decode_line S bs m = Inr f" "length bs \<le> m"
    using decode_encoded [OF assms(1) \<open>frame_exact f\<close> enc] enc by (simp_all add: encode_frame_bytes_Inr)
  with bs l Cons.IH show ?case by (simp add: push_loop.simps [of S m gs] split_line_join)
qed

text \<open>
  What one side encodes the other side decodes: the records of any sequence of frames,
  concatenated and cut into reads in any way, come out of a fresh decoder as the same frames in the
  same order with no error and nothing left for \<open>finish\<close>.
\<close>

theorem ld_stream_round_trip:
  assumes "serde_ok S" and "line_decoder_new m = Inr d"
    and "list_all2 (\<lambda>f l. frame_exact f \<and> encode_line S f m = Inr l) fs ls"
    and "concat (p # ps) = concat ls"
    and "run_pushes (ld_push S) po_frames d p ps = (d', gs, r)"
  shows "gs = fs \<and> po_error r = None \<and> ld_finish S d' = (d', Inr [])"
proof -
  have d: "4096 \<le> m" "d = \<lparr>ld_max_frame_bytes = m, ld_buffer = [], ld_failure = None\<rparr>"
    using assms(2) by (auto simp: line_decoder_new_Inr)
  have whole: "ld_push S d (concat ls) = (d, \<lparr>po_frames = fs, po_error = None\<rparr>)"
    using push_loop_lines [OF assms(1) d(1) assms(3), of "[]"] d
    by (simp add: ld_push_def strip_carriage_return_def)
  with ld.run_pushes_whole [OF line_decoder_new_wf [OF assms(2)] assms(5)] assms(4) run_pushes_ld [OF assms(5)] d(2)
  show ?thesis
    by (auto simp: po_kind_def ld_view_def ld_finish_def strip_carriage_return_def is_blank_def)
qed

theorem ld_stream_round_trip_witness:
  "fst (snd (run_pushes (ld_push liveness_serde) po_frames fresh_decoder (ping_text @ [0x0A])
     [pong_text, [0x0A]])) = [Ping, Pong]"
proof -
  have "list_all2 (\<lambda>f l. frame_exact f \<and> encode_line liveness_serde f 4096 = Inr l)
      [Ping, Pong] [ping_text @ [0x0A], pong_text @ [0x0A]]"
    by (simp add: encode_line_def liveness_encode frame_exact_def)
  moreover have "concat [ping_text @ [0x0A], pong_text, [0x0A]] =
      concat [ping_text @ [0x0A], pong_text @ [0x0A]]" by simp
  ultimately show ?thesis
    using ld_stream_round_trip [OF liveness_serde_ok fresh_decoder_new _ _ prod3_eta] by blast
qed

end
