(* ===== verification/Chunk.thy ===== *)
theory Chunk
  imports Ndjson
begin

text \<open>
  WebSocket chunk framing (\<open>codec/chunk.rs\<close>): \<open>encode_chunks\<close> and the \<open>ChunkReassembler\<close>.  The
  capacity hint \<open>Vec::reserve\<close> has no observable effect and is left out.  The last section states what
  a transport relies on of a codec, one frame out and the same frame back, as a locale, and shows that
  both framings meet it.
\<close>

definition CHUNK_HEADER_BYTES :: nat where "CHUNK_HEADER_BYTES = 9"
definition CHUNK_FORMAT_VERSION :: byte where "CHUNK_FORMAT_VERSION = 1"
definition DEFAULT_MAX_MESSAGE_BYTES :: nat where "DEFAULT_MAX_MESSAGE_BYTES = 16 * 1024"
definition MIN_MAX_MESSAGE_BYTES :: nat where "MIN_MAX_MESSAGE_BYTES = 2048"
definition MIN_NONFINAL_PAYLOAD_BYTES :: nat where "MIN_NONFINAL_PAYLOAD_BYTES = 1024"

lemmas chunk_consts [simp] = CHUNK_HEADER_BYTES_def CHUNK_FORMAT_VERSION_def
  MIN_MAX_MESSAGE_BYTES_def MIN_NONFINAL_PAYLOAD_BYTES_def

definition max_chunks_for :: "nat \<Rightarrow> u32" where
  "max_chunks_for max_frame_bytes =
     u32_saturating (div_ceil max_frame_bytes MIN_NONFINAL_PAYLOAD_BYTES)"

definition refuse :: "codec_error_kind \<Rightarrow> string \<Rightarrow> codec_error" where
  "refuse kind message = codec_error_new kind message"

section \<open>Encoding\<close>

definition chunk_message :: "u32 \<Rightarrow> u32 \<Rightarrow> byte list \<Rightarrow> byte list" where
  "chunk_message index count payload =
     CHUNK_FORMAT_VERSION # u32_to_be_bytes index @ u32_to_be_bytes count @ payload"

text \<open>The payload of one turn of the loop: \<open>&bytes[start..end]\<close>.\<close>

definition chunk_payload :: "byte list \<Rightarrow> nat \<Rightarrow> nat \<Rightarrow> byte list" where
  "chunk_payload bytes capacity i =
     (let start = i * capacity; end = min (start + capacity) (length bytes)
      in take (end - start) (drop start bytes))"

definition encode_chunks :: "serde_json \<Rightarrow> frame \<Rightarrow> nat \<Rightarrow> nat \<Rightarrow> codec_error + byte list list" where
  "encode_chunks S f max_message_bytes max_frame_bytes =
     (if max_message_bytes < MIN_MAX_MESSAGE_BYTES then
        Inl (refuse ChunkHeader
          (''received a message ceiling of '' @ show_nat max_message_bytes
           @ '' bytes, expected at least '' @ show_nat MIN_MAX_MESSAGE_BYTES))
      else
        and_then (encode_frame_bytes S f max_frame_bytes) (\<lambda>bytes.
          let capacity = max_message_bytes - CHUNK_HEADER_BYTES;
              count = max (div_ceil (length bytes) capacity) 1;
              bound = max_chunks_for max_frame_bytes;
              count = u32_saturating count
          in if count > bound then
               Inl (refuse ChunkCount
                 (''received a frame needing '' @ show_nat (unat count)
                  @ '' chunks, expected at most '' @ show_nat (unat bound)))
             else
               Inr (map (\<lambda>i. chunk_message (of_nat i) count (chunk_payload bytes capacity i))
                      [0..<unat count])))"

section \<open>Reassembly\<close>

record reassembler =
  cr_max_message_bytes :: nat
  cr_max_frame_bytes :: nat
  cr_count :: "u32 option"
  cr_next_index :: u32
  cr_buffer :: "byte list"

definition reassembler_new :: "nat \<Rightarrow> nat \<Rightarrow> string + reassembler" where
  "reassembler_new max_message_bytes max_frame_bytes =
     and_then (check_at_least ''max_message_bytes'' max_message_bytes MIN_MAX_MESSAGE_BYTES)
     (\<lambda>max_message_bytes.
     and_then (check_max_frame_bytes max_frame_bytes)
     (\<lambda>max_frame_bytes.
        Inr \<lparr>cr_max_message_bytes = max_message_bytes, cr_max_frame_bytes = max_frame_bytes,
             cr_count = None, cr_next_index = 0, cr_buffer = []\<rparr>))"

definition cr_reset :: "reassembler \<Rightarrow> reassembler" where
  "cr_reset r = r\<lparr>cr_count := None, cr_next_index := 0, cr_buffer := []\<rparr>"

definition is_reassembling :: "reassembler \<Rightarrow> bool" where
  "is_reassembling r = (cr_count r \<noteq> None)"

text \<open>The header checks of \<open>decode\<close>, up to the point where its state first changes.\<close>

definition cr_check :: "reassembler \<Rightarrow> byte list \<Rightarrow> codec_error + u32 \<times> u32 \<times> byte list" where
  "cr_check r message =
     (if message \<noteq> [] \<and> hd message \<noteq> CHUNK_FORMAT_VERSION then
        Inl (refuse ChunkVersion
          (''received chunk format version '' @ show_nat (unat (hd message))
           @ '', expected '' @ show_nat (unat CHUNK_FORMAT_VERSION)))
      else if length message < CHUNK_HEADER_BYTES then
        Inl (refuse ChunkHeader
          (''received a chunk message of '' @ show_nat (length message)
           @ '' bytes, expected at least '' @ show_nat CHUNK_HEADER_BYTES))
      else
        let index = u32_from_be_bytes (message ! 1) (message ! 2) (message ! 3) (message ! 4);
            count = u32_from_be_bytes (message ! 5) (message ! 6) (message ! 7) (message ! 8);
            payload = drop CHUNK_HEADER_BYTES message;
            bound = max_chunks_for (cr_max_frame_bytes r)
        in if count = 0 \<or> count > bound then
          Inl (refuse ChunkCount
            (''received chunk count '' @ show_nat (unat count) @ '', expected 1 to ''
             @ show_nat (unat bound)))
        else if cr_count r \<noteq> None \<and> count \<noteq> the (cr_count r) then
          Inl (refuse ChunkCount
            (''received chunk count '' @ show_nat (unat count) @ '', expected ''
             @ show_nat (unat (the (cr_count r))) @ '' for this frame''))
        else if index \<noteq> cr_next_index r then
          Inl (refuse ChunkIndex
            (''received chunk index '' @ show_nat (unat index) @ '', expected ''
             @ show_nat (unat (cr_next_index r)) @ '' of a '' @ show_nat (unat count)
             @ ''-chunk frame''))
        else if payload = [] then
          Inl (refuse ChunkDribble
            (''received chunk '' @ show_nat (unat index)
             @ '' with no payload, expected at least 1 byte''))
        else if index + 1 \<noteq> count \<and> length payload < MIN_NONFINAL_PAYLOAD_BYTES then
          Inl (refuse ChunkDribble
            (''received '' @ show_nat (length payload) @ '' payload bytes in non-final chunk ''
             @ show_nat (unat index) @ '', expected at least ''
             @ show_nat MIN_NONFINAL_PAYLOAD_BYTES))
        else if length (cr_buffer r) + length payload > cr_max_frame_bytes r then
          Inl (refuse TooLarge
            (''received '' @ show_nat (length (cr_buffer r) + length payload)
             @ '' reassembled bytes, expected at most '' @ show_nat (cr_max_frame_bytes r)))
        else Inr (index, count, payload))"

definition cr_decode :: "serde_json \<Rightarrow> reassembler \<Rightarrow> byte list
    \<Rightarrow> reassembler \<times> (codec_error + frame option)" where
  "cr_decode S r message =
     (case cr_check r message of
        Inl e \<Rightarrow> (r, Inl e)
      | Inr (index, count, payload) \<Rightarrow>
          let is_final = (index + 1 = count);
              r = (if cr_count r = None then r\<lparr>cr_count := Some count\<rparr> else r);
              r = r\<lparr>cr_buffer := cr_buffer r @ payload\<rparr>
          in if \<not> is_final then (r\<lparr>cr_next_index := index + 1\<rparr>, Inr None)
             else
               let line = cr_buffer r; r = cr_reset r
               in (r, and_then (decode_line S line (cr_max_frame_bytes r)) (\<lambda>f. Inr (Some f))))"

definition cr_push :: "serde_json \<Rightarrow> reassembler \<Rightarrow> byte list
    \<Rightarrow> reassembler \<times> (codec_error + frame option)" where
  "cr_push S r message =
     (case cr_decode S r message of
        (r', Inr outcome) \<Rightarrow> (r', Inr outcome)
      | (r', Inl e) \<Rightarrow> (cr_reset r', Inl e))"

section \<open>Lemmas on one message\<close>

lemma chunk_message_length [simp]: "length (chunk_message i c p) = 9 + length p"
  by (simp add: chunk_message_def)

lemma chunk_message_parts [simp]:
  "chunk_message i c p \<noteq> []" "hd (chunk_message i c p) = 1" "drop 9 (chunk_message i c p) = p"
  "u32_from_be_bytes (chunk_message i c p ! Suc 0) (chunk_message i c p ! 2) (chunk_message i c p ! 3)
     (chunk_message i c p ! 4) = i"
  "u32_from_be_bytes (chunk_message i c p ! 5) (chunk_message i c p ! 6) (chunk_message i c p ! 7)
     (chunk_message i c p ! 8) = c"
  by (simp_all add: chunk_message_def u32_to_be_bytes_def)

lemma message_is_chunk_message:
  assumes "9 \<le> length message" and "hd message = 1"
  shows "message = chunk_message (u32_from_be_bytes (message ! 1) (message ! 2) (message ! 3) (message ! 4))
    (u32_from_be_bytes (message ! 5) (message ! 6) (message ! 7) (message ! 8)) (drop 9 message)"
proof -
  obtain v a b c d e f g h rest where "message = v # a # b # c # d # e # f # g # h # rest"
    using assms(1) by (auto simp: Suc_le_length_iff numeral_eq_Suc)
  with assms(2) show ?thesis by (simp add: chunk_message_def)
qed

definition cr_accepts :: "reassembler \<Rightarrow> u32 \<Rightarrow> u32 \<Rightarrow> byte list \<Rightarrow> bool" where
  "cr_accepts r index count payload \<longleftrightarrow>
     0 < count \<and> count \<le> max_chunks_for (cr_max_frame_bytes r)
     \<and> (cr_count r = None \<or> cr_count r = Some count) \<and> index = cr_next_index r
     \<and> payload \<noteq> [] \<and> (index + 1 = count \<or> 1024 \<le> length payload)
     \<and> length (cr_buffer r) + length payload \<le> cr_max_frame_bytes r"

lemma cr_check_message:
  "cr_accepts r i c p \<Longrightarrow> cr_check r (chunk_message i c p) = Inr (i, c, p)"
  by (cases "cr_count r") (simp_all add: cr_check_def cr_accepts_def Let_def word_gt_0 linorder_not_less, blast+)

lemma cr_check_Inr:
  assumes "cr_check r message = Inr (i, c, p)"
  shows "message = chunk_message i c p \<and> cr_accepts r i c p"
proof -
  have len: "9 \<le> length message" "hd message = 1"
    using assms by (auto simp: cr_check_def split: if_splits)
  from assms len
  have "i = u32_from_be_bytes (message ! 1) (message ! 2) (message ! 3) (message ! 4)"
    "c = u32_from_be_bytes (message ! 5) (message ! 6) (message ! 7) (message ! 8)"
    "p = drop 9 message"
    by (auto simp: cr_check_def Let_def split: if_splits)
  with message_is_chunk_message [OF len] have m: "message = chunk_message i c p" by simp
  with assms show ?thesis
    by (cases "cr_count r")
       (simp_all add: cr_check_def cr_accepts_def Let_def word_gt_0 linorder_not_less split: if_splits)
qed

lemma cr_check_Inr_iff:
  "cr_check r message = Inr (i, c, p) \<longleftrightarrow> message = chunk_message i c p \<and> cr_accepts r i c p"
  using cr_check_Inr cr_check_message by blast

section \<open>The reassembler's invariant\<close>

definition cr_wf :: "reassembler \<Rightarrow> bool" where
  "cr_wf r \<longleftrightarrow> 4096 \<le> cr_max_frame_bytes r \<and> length (cr_buffer r) \<le> cr_max_frame_bytes r
     \<and> (case cr_count r of
          None \<Rightarrow> cr_next_index r = 0 \<and> cr_buffer r = []
        | Some c \<Rightarrow> 0 < cr_next_index r \<and> cr_next_index r < c \<and> c \<le> max_chunks_for (cr_max_frame_bytes r)
            \<and> 1024 * unat (cr_next_index r) \<le> length (cr_buffer r))"

lemma reassembler_new_Inr:
  "reassembler_new mm m = Inr r \<longleftrightarrow> 2048 \<le> mm \<and> 4096 \<le> m
     \<and> r = \<lparr>cr_max_message_bytes = mm, cr_max_frame_bytes = m, cr_count = None, cr_next_index = 0, cr_buffer = []\<rparr>"
  by (auto simp: reassembler_new_def and_then_Inr check_max_frame_bytes_def)

lemma cr_reset_wf: "4096 \<le> cr_max_frame_bytes r \<Longrightarrow> cr_wf (cr_reset r)"
  by (simp add: cr_wf_def cr_reset_def)

lemma cr_reset_max [simp]:
  "cr_max_frame_bytes (cr_reset r) = cr_max_frame_bytes r"
  "cr_max_message_bytes (cr_reset r) = cr_max_message_bytes r"
  "cr_count (cr_reset r) = None" "cr_buffer (cr_reset r) = []" "cr_next_index (cr_reset r) = 0"
  by (simp_all add: cr_reset_def)

lemma cr_accepts_index:
  assumes "cr_wf r" and "cr_accepts r i c p"
  shows "i < c" and "unat (i + 1) = unat i + 1"
proof -
  show "i < c" using assms by (auto simp: cr_wf_def cr_accepts_def split: option.splits)
  then have "unat i < unat c" by (simp add: word_less_nat_alt)
  moreover have "unat c < 2 ^ 32" using unsigned_less [of c, where 'a = nat] by simp
  ultimately show "unat (i + 1) = unat i + 1" by (simp add: unat_word_ariths)
qed

lemma cr_push_wf:
  assumes "cr_wf r"
  shows "cr_wf (fst (cr_push S r message))"
proof (cases "cr_check r message")
  case (Inl e)
  with assms show ?thesis by (simp add: cr_push_def cr_decode_def cr_reset_wf cr_wf_def)
next
  case (Inr t)
  obtain i c p where t: "t = (i, c, p)" by (cases t)
  with Inr have acc: "cr_accepts r i c p" using cr_check_Inr by blast
  note idx = cr_accepts_index [OF assms acc]
  show ?thesis
  proof (cases "i + 1 = c")
    case True
    with Inr t assms show ?thesis
      by (auto simp: cr_push_def cr_decode_def Let_def cr_wf_def split: sum.split)
  next
    case False
    with idx have "i + 1 < c" by (metis inc_le order_le_less)
    moreover have "0 < i + 1" using idx(2) by (metis add_is_0 one_neq_zero unat_0 word_gt_0)
    moreover have "1024 * unat i \<le> length (cr_buffer r)"
      using assms acc by (auto simp: cr_wf_def cr_accepts_def split: option.splits)
    ultimately show ?thesis
      using False Inr t acc assms idx
      by (auto simp: cr_push_def cr_decode_def Let_def cr_wf_def cr_accepts_def split: option.splits)
  qed
qed

fun cr_pushes :: "serde_json \<Rightarrow> reassembler \<Rightarrow> byte list list
    \<Rightarrow> reassembler \<times> (codec_error + frame option) list" where
  "cr_pushes S r [] = (r, [])"
| "cr_pushes S r (m # ms) =
     (let (r1, x) = cr_push S r m; (r2, xs) = cr_pushes S r1 ms in (r2, x # xs))"

lemma cr_push_max:
  "cr_max_frame_bytes (fst (cr_push S r m)) = cr_max_frame_bytes r"
  "cr_max_message_bytes (fst (cr_push S r m)) = cr_max_message_bytes r"
  by (auto simp: cr_push_def cr_decode_def Let_def split: sum.splits prod.splits if_splits)

lemma cr_pushes_max:
  "cr_max_frame_bytes (fst (cr_pushes S r ms)) = cr_max_frame_bytes r"
  "cr_max_message_bytes (fst (cr_pushes S r ms)) = cr_max_message_bytes r"
  by (induction ms arbitrary: r)
     (auto simp: Let_def split: prod.splits, (metis cr_push_max fst_conv)+)

lemma cr_push_done: "snd (cr_push S r m) \<noteq> Inr None \<Longrightarrow> fst (cr_push S r m) = cr_reset r"
  by (auto simp: cr_push_def cr_decode_def Let_def cr_reset_def and_then_def
      split: sum.splits prod.splits if_splits)

lemma cr_pushes_append:
  "cr_pushes S r (ms @ ns) =
     (let (r1, xs) = cr_pushes S r ms; (r2, ys) = cr_pushes S r1 ns in (r2, xs @ ys))"
  by (induction ms arbitrary: r) (auto simp: Let_def split: prod.splits)

lemma cr_pushes_wf: "cr_wf r \<Longrightarrow> cr_wf (fst (cr_pushes S r ms))"
  by (induction ms arbitrary: r) (auto simp: Let_def split: prod.splits dest: cr_push_wf, metis cr_push_wf fst_conv)

section \<open>Encoding and reassembling one frame\<close>

lemma chunk_payload_eq: "chunk_payload bs cap i = take cap (drop (i * cap) bs)"
  by (simp add: chunk_payload_def Let_def min_def)

lemma chunk_payloads_concat:
  "concat (map (chunk_payload bs cap) [0..<k]) = take (k * cap) bs"
  by (induction k) (simp_all add: chunk_payload_eq add.commute flip: take_add)

lemma max_chunks_for_mono: "m \<le> m' \<Longrightarrow> max_chunks_for m \<le> max_chunks_for m'"
proof -
  assume "m \<le> m'"
  then have "div_ceil m 1024 \<le> div_ceil m' 1024"
    using div_ceil_le_iff [of 1024 m' "div_ceil m' 1024"] by (simp add: div_ceil_le_iff)
  then show ?thesis by (simp add: max_chunks_for_def word_le_nat_alt unat_u32_saturating min_le_iff_disj)
qed

lemma chunk_count_le_bound:
  assumes "length bs \<le> m" and "1024 \<le> cap" and "0 < m"
  shows "u32_saturating (max (div_ceil (length bs) cap) 1) \<le> max_chunks_for m"
proof -
  have "m \<le> div_ceil m 1024 * 1024" using div_ceil_le_iff [of 1024 m "div_ceil m 1024"] by simp
  also have "\<dots> \<le> div_ceil m 1024 * cap" using assms by simp
  finally have "div_ceil (length bs) cap \<le> div_ceil m 1024"
    using assms by (simp add: div_ceil_le_iff)
  moreover have "0 < div_ceil m 1024" using assms by (simp add: div_ceil_pos)
  ultimately show ?thesis
    by (simp add: max_chunks_for_def word_le_nat_alt unat_u32_saturating)
qed

lemma encode_chunks_Inr:
  "encode_chunks S f mm m = Inr msgs \<longleftrightarrow>
     2048 \<le> mm \<and> (\<exists>bs. encode_frame_bytes S f m = Inr bs
       \<and> (let c = u32_saturating (max (div_ceil (length bs) (mm - 9)) 1)
          in msgs = map (\<lambda>i. chunk_message (of_nat i) c (chunk_payload bs (mm - 9) i)) [0..<unat c]))"
proof (cases "2048 \<le> mm \<and> is_ok (encode_frame_bytes S f m)")
  case True
  then obtain bs where bs: "encode_frame_bytes S f m = Inr bs" by (auto simp: is_ok_iff)
  then have "length bs \<le> m" "4096 \<le> m" by (simp_all add: encode_frame_bytes_Inr)
  then have "u32_saturating (max (div_ceil (length bs) (mm - 9)) 1) \<le> max_chunks_for m"
    using True by (intro chunk_count_le_bound) auto
  with bs True show ?thesis by (auto simp: encode_chunks_def Let_def)
next
  case False
  then show ?thesis by (auto simp: encode_chunks_def is_ok_iff and_then_Inr)
qed

definition idle :: "reassembler \<Rightarrow> bool" where
  "idle r \<longleftrightarrow> cr_count r = None \<and> cr_next_index r = 0 \<and> cr_buffer r = []"

lemma idle_reset: "idle r \<Longrightarrow> cr_reset (r\<lparr>cr_count := c, cr_next_index := i, cr_buffer := b\<rparr>) = r"
  by (cases r) (simp add: idle_def cr_reset_def)

text \<open>The messages of \<open>bs\<close> in \<open>n\<close> chunks of \<open>cap\<close> bytes, as a receiver that can take them sees them.\<close>

definition cut_for :: "reassembler \<Rightarrow> byte list \<Rightarrow> nat \<Rightarrow> nat \<Rightarrow> bool" where
  "cut_for r bs cap n \<longleftrightarrow> 1024 \<le> cap \<and> n < 2 ^ 32 \<and> 0 < n \<and> (n - 1) * cap < length bs \<and> length bs \<le> n * cap
     \<and> (of_nat n :: u32) \<le> max_chunks_for (cr_max_frame_bytes r) \<and> length bs \<le> cr_max_frame_bytes r"

abbreviation cut_message :: "byte list \<Rightarrow> nat \<Rightarrow> nat \<Rightarrow> nat \<Rightarrow> byte list" where
  "cut_message bs cap n i \<equiv> chunk_message (of_nat i) (of_nat n) (chunk_payload bs cap i)"

definition cut_state :: "reassembler \<Rightarrow> byte list \<Rightarrow> nat \<Rightarrow> nat \<Rightarrow> nat \<Rightarrow> reassembler" where
  "cut_state r bs cap n k = r\<lparr>cr_count := (if k = 0 then None else Some (of_nat n)),
     cr_next_index := of_nat k, cr_buffer := take (k * cap) bs\<rparr>"

lemma cut_accepts:
  assumes "cut_for r bs cap n" and "k < n"
  shows "cr_accepts (cut_state r bs cap n k) (of_nat k) (of_nat n) (chunk_payload bs cap k)"
proof -
  have lt: "k * cap < length bs"
  proof -
    have "k * cap \<le> (n - 1) * cap" using assms(2) by (intro mult_le_mono1) simp
    also have "\<dots> < length bs" using assms(1) by (simp add: cut_for_def)
    finally show ?thesis .
  qed
  have last: "cap \<le> length bs - k * cap" if "k + 1 \<noteq> n"
  proof -
    have "k + 1 \<le> n - 1" using that assms(2) by simp
    then have "(k + 1) * cap \<le> (n - 1) * cap" by (rule mult_le_mono1)
    also have "\<dots> < length bs" using assms(1) by (simp add: cut_for_def)
    finally show ?thesis by (simp add: add_mult_distrib)
  qed
  have "(of_nat k + 1 :: u32) = of_nat n \<or> 1024 \<le> length (chunk_payload bs cap k)"
    using last assms(1) by (cases "k + 1 = n") (auto simp: cut_for_def chunk_payload_eq)
  moreover have "(of_nat n :: u32) \<noteq> 0"
    using assms of_nat_u32_eq [of n 0] by (simp add: cut_for_def)
  moreover have "length (take (k * cap) bs) + length (chunk_payload bs cap k) \<le> cr_max_frame_bytes r"
  proof -
    have "length bs \<le> cr_max_frame_bytes r" using assms(1) by (simp add: cut_for_def)
    then show ?thesis using lt by (auto simp: chunk_payload_eq min_def)
  qed
  ultimately show ?thesis
    using assms lt by (simp add: cr_accepts_def cut_state_def cut_for_def word_gt_0 chunk_payload_eq)
qed

lemma cut_push:
  assumes "cut_for r bs cap n" and "idle r" and "k < n"
  shows "cr_push S (cut_state r bs cap n k) (cut_message bs cap n k) =
    (if k + 1 = n
     then (r, and_then (decode_line S bs (cr_max_frame_bytes r)) (\<lambda>f. Inr (Some f)))
     else (cut_state r bs cap n (k + 1), Inr None))"
proof -
  have n: "n < 2 ^ 32" using assms(1) by (simp add: cut_for_def)
  have fin: "(of_nat k + 1 :: u32) = of_nat n \<longleftrightarrow> k + 1 = n"
    using of_nat_u32_eq [of "k + 1" n] n assms(3) by (simp add: add.commute)
  have buf: "take (k * cap) bs @ chunk_payload bs cap k = take ((k + 1) * cap) bs"
    by (simp add: chunk_payload_eq add.commute flip: take_add)
  have whole: "take (n * cap) bs = bs" using assms(1) by (simp add: cut_for_def)
  show ?thesis
    using cr_check_message [OF cut_accepts [OF assms(1,3)]] fin buf whole assms(2)
    by (cases "decode_line S bs (cr_max_frame_bytes r)")
       (auto simp: cr_push_def cr_decode_def Let_def cut_state_def idle_def cr_reset_def)
qed

lemma cut_pushes:
  assumes "cut_for r bs cap n" and "idle r"
  shows "k < n \<Longrightarrow> cr_pushes S r (map (cut_message bs cap n) [0..<k]) =
    (cut_state r bs cap n k, replicate k (Inr None))"
proof (induction k)
  case 0
  then show ?case using assms(2) by (cases r) (simp add: cut_state_def idle_def)
next
  case (Suc k)
  then show ?case
    using cut_push [OF assms, of k S]
    by (simp add: cr_pushes_append replicate_append_same)
qed

lemma cut_delivers:
  assumes "cut_for r bs cap n" and "idle r"
  shows "cr_pushes S r (map (cut_message bs cap n) [0..<n]) =
    (r, replicate (n - 1) (Inr None)
        @ [and_then (decode_line S bs (cr_max_frame_bytes r)) (\<lambda>f. Inr (Some f))])"
proof -
  from assms(1) obtain k where n: "n = Suc k" by (cases n) (auto simp: cut_for_def)
  then show ?thesis
    using cut_pushes [OF assms, of k S] cut_push [OF assms, of k S] by (simp add: cr_pushes_append)
qed

lemma decode_line_mono:
  "decode_line S bs m = Inr f \<Longrightarrow> m \<le> m' \<Longrightarrow> decode_line S bs m' = Inr f"
  by (simp add: decode_line_Inr)

lemma encode_chunks_cut:
  assumes "encode_chunks S f mm m = Inr msgs" and "serde_ok S" and "m \<le> 1024 * (2 ^ 32 - 1)"
    and "idle r" and "m \<le> cr_max_frame_bytes r"
  shows "\<exists>bs n. encode_frame_bytes S f m = Inr bs \<and> cut_for r bs (mm - 9) n
    \<and> msgs = map (cut_message bs (mm - 9) n) [0..<n]"
proof -
  let ?cap = "mm - 9"
  from assms(1) obtain bs where mm: "2048 \<le> mm" and enc: "encode_frame_bytes S f m = Inr bs"
    and msgs: "msgs = map (\<lambda>i. chunk_message (of_nat i) (u32_saturating (max (div_ceil (length bs) ?cap) 1))
      (chunk_payload bs ?cap i)) [0..<unat (u32_saturating (max (div_ceil (length bs) ?cap) 1))]"
    by (auto simp: encode_chunks_Inr Let_def)
  let ?n = "div_ceil (length bs) ?cap"
  have bs: "bs \<noteq> []" "length bs \<le> m" using enc assms(2) by (auto simp: encode_frame_bytes_Inr serde_ok_def)
  then have pos: "0 < ?n" using mm by (simp add: div_ceil_pos)
  have "1024 * (2 ^ 32 - 1) \<le> (2 ^ 32 - 1) * ?cap" using mm by simp
  then have small: "?n \<le> 2 ^ 32 - 1" using bs assms(3) mm by (simp add: div_ceil_le_iff)
  moreover have "max ?n 1 = ?n" using pos by simp
  ultimately have c: "u32_saturating (max ?n 1) = of_nat ?n" by (simp only: u32_saturating_def) simp
  have "\<not> ?n \<le> ?n - 1" "?n \<le> ?n" using pos by simp_all
  then have "(?n - 1) * ?cap < length bs" "length bs \<le> ?n * ?cap"
    using div_ceil_le_iff [of ?cap "length bs" "?n - 1"] div_ceil_le_iff [of ?cap "length bs" ?n] mm
    by simp_all
  moreover have "(of_nat ?n :: u32) \<le> max_chunks_for (cr_max_frame_bytes r)"
  proof -
    have "length bs \<le> cr_max_frame_bytes r" "1024 \<le> ?cap" "0 < cr_max_frame_bytes r"
      using bs assms(5) mm by (cases bs; simp)+
    from chunk_count_le_bound [OF this] c show ?thesis by simp
  qed
  ultimately have "cut_for r bs ?cap ?n"
    using small pos mm bs assms(5) by (simp add: cut_for_def)
  with enc msgs c small show ?thesis by (auto simp: unat_of_nat_u32)
qed

section \<open>What a transport relies on of a codec\<close>

text \<open>
  One frame becomes a list of units (a line, or the binary messages of one frame); feeding them to
  a decoder that is between frames delivers that frame and leaves it between frames again.
\<close>

fun feed_all :: "('d \<Rightarrow> 'm \<Rightarrow> 'd \<times> 'o) \<Rightarrow> 'd \<Rightarrow> 'm list \<Rightarrow> 'd \<times> 'o list" where
  "feed_all feed d [] = (d, [])"
| "feed_all feed d (m # ms) =
     (let (d1, x) = feed d m; (d2, xs) = feed_all feed d1 ms in (d2, x # xs))"

lemma feed_all_append:
  "feed_all feed d (ms @ ns) =
     (let (d1, xs) = feed_all feed d ms; (d2, ys) = feed_all feed d1 ns in (d2, xs @ ys))"
  by (induction ms arbitrary: d) (auto simp: Let_def split: prod.splits)

locale frame_codec =
  fixes encode :: "'f \<Rightarrow> 'e + 'm list"
    and feed :: "'d \<Rightarrow> 'm \<Rightarrow> 'd \<times> 'o"
    and delivered :: "'o \<Rightarrow> 'f list"
    and accepted :: "'o \<Rightarrow> bool"
    and between :: "'d \<Rightarrow> bool"
    and sendable :: "'f \<Rightarrow> bool"
  assumes one_frame:
    "between d \<Longrightarrow> sendable f \<Longrightarrow> encode f = Inr ms \<Longrightarrow> feed_all feed d ms = (d', xs) \<Longrightarrow>
     between d' \<and> list_all accepted xs \<and> concat (map delivered xs) = [f]"
begin

lemma frames_in_order:
  assumes "list_all2 (\<lambda>f ms. sendable f \<and> encode f = Inr ms) fs mss" and "between d"
    and "feed_all feed d (concat mss) = (d', xs)"
  shows "between d' \<and> list_all accepted xs \<and> concat (map delivered xs) = fs"
  using assms
proof (induction fs mss arbitrary: d d' xs rule: list_all2_induct)
  case Nil
  then show ?case by simp
next
  case (Cons f fs ms mss)
  obtain d1 ys where y: "feed_all feed d ms = (d1, ys)" by force
  obtain d2 zs where z: "feed_all feed d1 (concat mss) = (d2, zs)" by force
  have split: "d' = d2" "xs = ys @ zs" using Cons.prems(2) y z by (simp_all add: feed_all_append)
  have "between d1 \<and> list_all accepted ys \<and> concat (map delivered ys) = [f]"
    using Cons.hyps by (intro one_frame [OF Cons.prems(1) _ _ y]) auto
  with Cons.IH [OF _ z] split show ?case by simp
qed

end

definition delivered_frame :: "codec_error + frame option \<Rightarrow> frame list" where
  "delivered_frame x = (case x of Inr (Some f) \<Rightarrow> [f] | _ \<Rightarrow> [])"

lemma delivered_frame_simps [simp]:
  "delivered_frame (Inl e) = []" "delivered_frame (Inr None) = []" "delivered_frame (Inr (Some f)) = [f]"
  by (simp_all add: delivered_frame_def)

lemma cr_pushes_feed_all: "cr_pushes S = feed_all (cr_push S)"
proof (intro ext)
  fix r ms
  show "cr_pushes S r ms = feed_all (cr_push S) r ms"
    by (induction ms arbitrary: r) simp_all
qed

definition chunk_receiver :: "nat \<Rightarrow> reassembler \<Rightarrow> bool" where
  "chunk_receiver m r \<longleftrightarrow> idle r \<and> m \<le> cr_max_frame_bytes r"

lemma chunk_one_frame:
  assumes "chunk_receiver m r" and "serde_ok S \<and> frame_exact f \<and> m \<le> 1024 * (2 ^ 32 - 1)"
    and "encode_chunks S f mm m = Inr msgs"
  shows "cr_pushes S r msgs = (r, replicate (length msgs - 1) (Inr None) @ [Inr (Some f)])"
proof -
  from assms obtain bs n where enc: "encode_frame_bytes S f m = Inr bs"
    and cut: "cut_for r bs (mm - 9) n" "msgs = map (cut_message bs (mm - 9) n) [0..<n]"
    using encode_chunks_cut [OF assms(3), of r] unfolding chunk_receiver_def by blast
  have "decode_line S bs m = Inr f" using decode_encoded enc assms(2) by blast
  then have "decode_line S bs (cr_max_frame_bytes r) = Inr f"
    using assms(1) decode_line_mono chunk_receiver_def by blast
  with cut_delivers [OF cut(1), of S] cut(2) assms(1) show ?thesis by (simp add: chunk_receiver_def)
qed

interpretation chunk_codec: frame_codec "\<lambda>f. encode_chunks S f mm m" "cr_push S" delivered_frame is_ok
    "chunk_receiver m" "\<lambda>f. serde_ok S \<and> frame_exact f \<and> m \<le> 1024 * (2 ^ 32 - 1)" for S mm m
proof unfold_locales
  fix r f msgs r' xs
  assume "chunk_receiver m r" and "serde_ok S \<and> frame_exact f \<and> m \<le> 1024 * (2 ^ 32 - 1)"
    and "encode_chunks S f mm m = Inr msgs" and "feed_all (cr_push S) r msgs = (r', xs)"
  with chunk_one_frame
  have "r' = r" "xs = replicate (length msgs - 1) (Inr None) @ [Inr (Some f)]" "chunk_receiver m r"
    by (fastforce simp flip: cr_pushes_feed_all)+
  then show "chunk_receiver m r' \<and> list_all is_ok xs \<and> concat (map delivered_frame xs) = [f]"
    by (simp add: list_all_iff)
qed

definition line_receiver :: "nat \<Rightarrow> line_decoder \<Rightarrow> bool" where
  "line_receiver m d \<longleftrightarrow> ld_max_frame_bytes d = m \<and> ld_buffer d = [] \<and> ld_failure d = None"

lemma line_one_frame:
  assumes "line_receiver m d" and "serde_ok S" and "frame_exact f" and "encode_line S f m = Inr l"
  shows "ld_push S d l = (d, \<lparr>po_frames = [f], po_error = None\<rparr>)"
proof -
  have "4096 \<le> m" using assms(4) by (auto simp: encode_line_def and_then_Inr encode_frame_bytes_Inr)
  from push_loop_lines [OF assms(2) this, of "[f]" "[l]" "[]"] assms
  show ?thesis by (cases d) (simp add: line_receiver_def ld_push_def strip_carriage_return_def)
qed

interpretation line_codec: frame_codec "\<lambda>f. and_then (encode_line S f m) (\<lambda>l. Inr [l])" "ld_push S" po_frames
    "\<lambda>x. po_error x = None" "line_receiver m" "\<lambda>f. serde_ok S \<and> frame_exact f" for S m
  by unfold_locales (auto simp: and_then_Inr line_one_frame)

text \<open>
  C34: What one side cuts into chunks the other side reassembles: the messages \<open>encode_chunks\<close> makes of
  any sequence of frames are all accepted by a fresh reassembler and deliver exactly those frames in
  order, and the receiver is between frames again at the end.  Sender and receiver may use different
  message ceilings.  This is for a JSON library that does what it documents, frames it reads back
  exactly (no floating-point number, objects in key order, nesting at most 120), a receiver whose frame
  limit is not below the sender's, and a sender's limit of at most 1024 (2^32 - 1) bytes, above which the
  chunk count would not fit its field.
\<close>

theorem chunk_stream_round_trip:
  assumes "serde_ok S" and "reassembler_new mm' m' = Inr r" and "m \<le> m'" and "m \<le> 1024 * (2 ^ 32 - 1)"
    and "list_all2 (\<lambda>f ms. frame_exact f \<and> encode_chunks S f mm m = Inr ms) fs mss"
    and "cr_pushes S r (concat mss) = (r', xs)"
  shows "list_all is_ok xs \<and> concat (map delivered_frame xs) = fs \<and> \<not> is_reassembling r'"
proof -
  have "chunk_receiver m r" using assms(2,3) by (auto simp: reassembler_new_Inr chunk_receiver_def idle_def)
  moreover have "list_all2 (\<lambda>f ms. (serde_ok S \<and> frame_exact f \<and> m \<le> 1024 * (2 ^ 32 - 1))
      \<and> encode_chunks S f mm m = Inr ms) fs mss"
    using assms(5) by (rule list_all2_mono) (use assms in auto)
  moreover have "feed_all (cr_push S) r (concat mss) = (r', xs)"
    using assms(6) by (simp add: cr_pushes_feed_all)
  ultimately have "chunk_receiver m r' \<and> list_all is_ok xs \<and> concat (map delivered_frame xs) = fs"
    by (intro chunk_codec.frames_in_order)
  then show ?thesis by (simp add: chunk_receiver_def idle_def is_reassembling_def)
qed

lemma ping_chunks:
  "encode_chunks liveness_serde Ping 2048 4096 = Inr [chunk_message 0 1 ping_text]"
proof -
  have "u32_saturating (max (div_ceil (length ping_text) 2039) 1) = 1"
    by (simp add: ping_text_eq div_ceil_def u32_saturating_def)
  then show ?thesis
    by (simp add: encode_chunks_Inr liveness_encode Let_def chunk_payload_eq ping_text_eq)
qed

definition fresh_reassembler :: reassembler where
  "fresh_reassembler = \<lparr>cr_max_message_bytes = 2048, cr_max_frame_bytes = 4096, cr_count = None,
     cr_next_index = 0, cr_buffer = []\<rparr>"

lemma fresh_reassembler_new: "reassembler_new 2048 4096 = Inr fresh_reassembler"
  by (simp add: reassembler_new_Inr fresh_reassembler_def)

theorem chunk_stream_round_trip_witness:
  "concat (map delivered_frame (snd (cr_pushes liveness_serde fresh_reassembler
     [chunk_message 0 1 ping_text, chunk_message 0 1 ping_text]))) = [Ping, Ping]"
proof -
  have "list_all2 (\<lambda>f ms. frame_exact f \<and> encode_chunks liveness_serde f 2048 4096 = Inr ms)
      [Ping, Ping] [[chunk_message 0 1 ping_text], [chunk_message 0 1 ping_text]]"
    by (simp add: ping_chunks frame_exact_def)
  from chunk_stream_round_trip [OF liveness_serde_ok fresh_reassembler_new _ _ this surjective_pairing]
  show ?thesis by simp
qed

text \<open>
  The shape of what \<open>encode_chunks\<close> sends: it succeeds exactly when the message ceiling is legal
  and the frame encodes (the chunk-count refusal cannot occur), it sends at least one and at most
  \<open>max_chunks_for\<close> messages, none is over the ceiling, every message but the last is exactly full, and
  the payloads in order are the frame's bytes, none empty, for every frame limit up to 4 TiB.
\<close>

theorem encode_chunks_shape:
  assumes "serde_ok S" and "m \<le> 1024 * (2 ^ 32 - 1)"
  shows "(is_ok (encode_chunks S f mm m) \<longleftrightarrow> 2048 \<le> mm \<and> is_ok (encode_frame_bytes S f m))
    \<and> (\<forall>msgs. encode_chunks S f mm m = Inr msgs \<longrightarrow>
          0 < length msgs \<and> length msgs \<le> unat (max_chunks_for m)
          \<and> (\<forall>i < length msgs. 9 < length (msgs ! i) \<and> length (msgs ! i) \<le> mm
               \<and> (i + 1 < length msgs \<longrightarrow> length (msgs ! i) = mm))
          \<and> encode_frame_bytes S f m = Inr (concat (map (drop 9) msgs)))"
proof (intro conjI allI impI)
  show "is_ok (encode_chunks S f mm m) \<longleftrightarrow> 2048 \<le> mm \<and> is_ok (encode_frame_bytes S f m)"
    by (auto simp: is_ok_iff encode_chunks_Inr Let_def)
next
  fix msgs
  assume enc: "encode_chunks S f mm m = Inr msgs"
  then have mm: "2048 \<le> mm" by (simp add: encode_chunks_Inr)
  let ?r = "\<lparr>cr_max_message_bytes = mm, cr_max_frame_bytes = m, cr_count = None, cr_next_index = 0,
    cr_buffer = []\<rparr>"
  obtain bs n where bs: "encode_frame_bytes S f m = Inr bs" and cut: "cut_for ?r bs (mm - 9) n"
    and msgs: "msgs = map (cut_message bs (mm - 9) n) [0..<n]"
    using encode_chunks_cut [OF enc assms, of ?r] by (auto simp: idle_def)
  have n: "0 < n" "n < 2 ^ 32" "(of_nat n :: u32) \<le> max_chunks_for m" "length bs \<le> n * (mm - 9)"
    using cut by (simp_all add: cut_for_def)
  show "0 < length msgs" using msgs n by simp
  show "length msgs \<le> unat (max_chunks_for m)"
    using msgs n by (simp add: word_le_nat_alt unat_of_nat_u32)
  show "encode_frame_bytes S f m = Inr (concat (map (drop 9) msgs))"
    using msgs bs n chunk_payloads_concat [of bs "mm - 9" n] by (simp add: comp_def)
  fix i
  assume i: "i < length msgs"
  then have acc: "cr_accepts (cut_state ?r bs (mm - 9) n i) (of_nat i) (of_nat n) (chunk_payload bs (mm - 9) i)"
    using cut_accepts [OF cut] msgs by simp
  then show "9 < length (msgs ! i)" using msgs i by (simp add: cr_accepts_def)
  show "length (msgs ! i) \<le> mm" using msgs i mm by (simp add: chunk_payload_eq)
  assume next_i: "i + 1 < length msgs"
  have "(i + 1) * (mm - 9) \<le> (n - 1) * (mm - 9)" using next_i msgs by (intro mult_le_mono1) simp
  also have "\<dots> < length bs" using cut by (simp add: cut_for_def)
  finally show "length (msgs ! i) = mm" using msgs i mm by (simp add: chunk_payload_eq)
qed

theorem encode_chunks_shape_witness:
  "is_ok (encode_chunks liveness_serde Ping 2048 4096)
   \<and> encode_frame_bytes liveness_serde Ping 4096 = Inr (concat (map (drop 9) [chunk_message 0 1 ping_text]))"
  using encode_chunks_shape [OF liveness_serde_ok, of 4096 Ping 2048] by (simp add: ping_chunks)

text \<open>
  C36: The reassembler is bounded and self-cleaning, whatever arrives: its buffer stays within the
  frame limit and holds at least 1024 bytes per chunk taken, the index it expects is below the
  announced count (so \<open>index + 1\<close> cannot wrap), and after a refusal or a delivered frame it is
  exactly as it was built.
\<close>

theorem reassembler_bounded:
  assumes "reassembler_new mm m = Inr r" and "cr_pushes S r ms = (r', xs)"
  shows "length (cr_buffer r') \<le> m
    \<and> (case cr_count r' of
         None \<Rightarrow> r' = r
       | Some c \<Rightarrow> 0 < cr_next_index r' \<and> cr_next_index r' < c \<and> c \<le> max_chunks_for m
           \<and> 1024 * unat (cr_next_index r') \<le> length (cr_buffer r'))
    \<and> (\<forall>message. snd (cr_push S r' message) \<noteq> Inr None \<longrightarrow> fst (cr_push S r' message) = r)"
proof -
  have wf: "cr_wf r'"
    using cr_pushes_wf [of r S ms] assms by (simp add: cr_wf_def reassembler_new_Inr)
  have same: "cr_max_frame_bytes r' = m" "cr_max_message_bytes r' = mm"
    using assms cr_pushes_max [of S r ms] by (simp_all add: reassembler_new_Inr)
  have reset: "cr_reset r' = r" using same assms(1) by (simp add: reassembler_new_Inr cr_reset_def)
  have "fst (cr_push S r' message) = r" if "snd (cr_push S r' message) \<noteq> Inr None" for message
    using that cr_push_done [of S r' message] reset by simp
  moreover have "r' = r" if "cr_count r' = None"
    using that wf reset by (cases r') (simp add: cr_wf_def cr_reset_def)
  ultimately show ?thesis using wf same by (auto simp: cr_wf_def split: option.split)
qed

theorem reassembler_bounded_witness:
  "length (cr_buffer (fst (cr_pushes liveness_serde fresh_reassembler [[1, 2, 3]]))) \<le> 4096"
  using reassembler_bounded [OF fresh_reassembler_new surjective_pairing] by blast

lemma cr_push_more:
  assumes "cr_push S r x = (r2, Inr None)"
  obtains c p where "x = chunk_message (cr_next_index r) c p" and "cr_accepts r (cr_next_index r) c p"
    and "cr_next_index r + 1 \<noteq> c" and "1024 \<le> length p"
    and "r2 = r\<lparr>cr_count := Some c, cr_buffer := cr_buffer r @ p, cr_next_index := cr_next_index r + 1\<rparr>"
proof -
  obtain i c p where chk: "cr_check r x = Inr (i, c, p)"
    using assms by (auto simp: cr_push_def cr_decode_def split: sum.splits)
  then have x: "x = chunk_message i c p" "cr_accepts r i c p" by (auto simp: cr_check_Inr_iff)
  then have i: "i = cr_next_index r" by (simp add: cr_accepts_def)
  have more: "i + 1 \<noteq> c"
    using assms chk by (auto simp: cr_push_def cr_decode_def Let_def and_then_Inr split: if_splits sum.splits)
  with x have "1024 \<le> length p" by (simp add: cr_accepts_def)
  moreover have "r2 = r\<lparr>cr_count := Some c, cr_buffer := cr_buffer r @ p, cr_next_index := i + 1\<rparr>"
    using assms chk more x
    by (auto simp: cr_push_def cr_decode_def Let_def cr_accepts_def split: if_splits)
  ultimately show thesis using that x i more by blast
qed

lemma cr_push_frame:
  assumes "cr_push S r x = (r2, Inr (Some f))"
  obtains p where "x = chunk_message (cr_next_index r) (cr_next_index r + 1) p"
    and "cr_accepts r (cr_next_index r) (cr_next_index r + 1) p"
    and "decode_line S (cr_buffer r @ p) (cr_max_frame_bytes r) = Inr f"
proof -
  obtain i c p where chk: "cr_check r x = Inr (i, c, p)"
    using assms by (auto simp: cr_push_def cr_decode_def split: sum.splits)
  then have x: "x = chunk_message i c p" "cr_accepts r i c p" by (auto simp: cr_check_Inr_iff)
  then have i: "i = cr_next_index r" by (simp add: cr_accepts_def)
  have "i + 1 = c \<and> decode_line S (cr_buffer r @ p) (cr_max_frame_bytes r) = Inr f"
    using assms chk
    by (auto simp: cr_push_def cr_decode_def Let_def and_then_Inr split: if_splits sum.splits)
  then show thesis using that x i by blast
qed

definition taken :: "reassembler \<Rightarrow> byte list list \<Rightarrow> byte list list \<Rightarrow> u32 \<Rightarrow> bool" where
  "taken r ms ps c \<longleftrightarrow> length ps = length ms \<and> length ms < 2 ^ 32
     \<and> (\<forall>i < length ms. ms ! i = chunk_message (of_nat i) c (ps ! i))
     \<and> cr_buffer r = concat ps \<and> cr_next_index r = of_nat (length ms)
     \<and> cr_count r = (if ms = [] then None else Some c) \<and> (\<forall>p \<in> set ps. 1024 \<le> length p)"

lemma taken_pushes:
  assumes "cr_wf r" and "idle r"
  shows "cr_pushes S r ms = (r1, replicate (length ms) (Inr None)) \<Longrightarrow> \<exists>ps c. taken r1 ms ps c"
proof (induction ms arbitrary: r1 rule: rev_induct)
  case Nil
  then show ?case using assms(2) by (auto simp: taken_def idle_def)
next
  case (snoc x ms)
  obtain r0 xs where pre: "cr_pushes S r ms = (r0, xs)" by force
  have len: "length xs = length ms"
    using pre by (induction ms arbitrary: r xs) (auto simp: Let_def split: prod.splits)
  have last: "cr_push S r0 x = (r1, Inr None)" and xs: "xs = replicate (length ms) (Inr None)"
    using snoc.prems pre len
    by (auto simp: cr_pushes_append Let_def replicate_append_same [symmetric] split: prod.splits)
  from snoc.IH pre xs obtain ps c where t: "taken r0 ms ps c" by blast
  from cr_push_more [OF last] obtain c' p where x: "x = chunk_message (cr_next_index r0) c' p"
    "cr_accepts r0 (cr_next_index r0) c' p" "1024 \<le> length p"
    and r1: "r1 = r0\<lparr>cr_count := Some c', cr_buffer := cr_buffer r0 @ p, cr_next_index := cr_next_index r0 + 1\<rparr>"
    by blast
  have wf: "cr_wf r0" using cr_pushes_wf [OF assms(1), of S ms] pre by simp
  have "unat (cr_next_index r0 + 1) = length ms + 1"
    using cr_accepts_index [OF wf x(2)] t by (simp add: taken_def unat_of_nat_u32)
  moreover have "unat (cr_next_index r0 + 1) < 2 ^ 32" 
    using unsigned_less [of "cr_next_index r0 + 1", where 'a = nat] by simp
  ultimately have "length ms + 1 < 2 ^ 32" by simp
  moreover have "ms = [] \<or> c' = c" using x(2) t by (cases "ms = []") (auto simp: cr_accepts_def taken_def)
  ultimately have "taken r1 (ms @ [x]) (ps @ [p]) c'"
    using t x(1,3) r1 by (auto simp: taken_def nth_append less_Suc_eq add.commute)
  then show ?case by blast
qed

text \<open>
  C35: The reassembler delivers only whole frames: when a fresh reassembler has taken some
  messages without delivering anything and the next one delivers a frame, the messages are exactly
  chunks 0 to n-1 of one n-chunk frame, every non-final payload has at least 1024 bytes, and the frame
  is what \<open>decode_line\<close> reads from the payloads put together.
\<close>

theorem reassembler_sound:
  assumes "reassembler_new mm m = Inr r"
    and "cr_pushes S r (ms @ [x]) = (r', replicate (length ms) (Inr None) @ [Inr (Some f)])"
  shows "\<exists>ps. length ps = length ms + 1
    \<and> ms @ [x] = map (\<lambda>i. chunk_message (of_nat i) (of_nat (length ps)) (ps ! i)) [0..<length ps]
    \<and> (\<forall>i < length ms. 1024 \<le> length (ps ! i)) \<and> ps ! length ms \<noteq> []
    \<and> decode_line S (concat ps) m = Inr f"
proof -
  have r: "cr_wf r" "idle r" "cr_max_frame_bytes r = m"
    using assms(1) by (auto simp: reassembler_new_Inr cr_wf_def idle_def)
  obtain r0 xs where pre: "cr_pushes S r ms = (r0, xs)" by force
  with assms(2) have last: "cr_push S r0 x = (r', Inr (Some f))" and xs: "xs = replicate (length ms) (Inr None)"
    by (auto simp: cr_pushes_append Let_def split: prod.splits)
  from taken_pushes [OF r(1,2)] pre xs obtain ps c where t: "taken r0 ms ps c" by blast
  from cr_push_frame [OF last] obtain p where x: "x = chunk_message (cr_next_index r0) (cr_next_index r0 + 1) p"
    "cr_accepts r0 (cr_next_index r0) (cr_next_index r0 + 1) p"
    "decode_line S (cr_buffer r0 @ p) (cr_max_frame_bytes r0) = Inr f" by blast
  have m: "cr_max_frame_bytes r0 = m" using cr_pushes_max [of S r ms] pre r(3) by simp
  have c: "ms = [] \<or> c = of_nat (length ms) + 1"
    using x(2) t by (cases "ms = []") (auto simp: cr_accepts_def taken_def)
  have "ms @ [x] = map (\<lambda>i. chunk_message (of_nat i) (of_nat (length (ps @ [p]))) ((ps @ [p]) ! i)) [0..<length (ps @ [p])]"
    using t x(1) c by (intro nth_equalityI) (auto simp: taken_def nth_append less_Suc_eq add.commute)
  with t x(2,3) m show ?thesis
    by (intro exI [of _ "ps @ [p]"]) (simp add: taken_def nth_append cr_accepts_def)
qed

theorem reassembler_sound_witness:
  "\<exists>ps. length ps = 1 \<and> decode_line liveness_serde (concat ps) 4096 = Inr Ping"
proof -
  have "chunk_receiver 4096 fresh_reassembler"
    by (simp add: chunk_receiver_def idle_def fresh_reassembler_def)
  from chunk_one_frame [OF this _ ping_chunks]
  have "cr_pushes liveness_serde fresh_reassembler ([] @ [chunk_message 0 1 ping_text])
      = (fresh_reassembler, replicate (length []) (Inr None) @ [Inr (Some Ping)])"
    by (simp add: liveness_serde_ok frame_exact_def)
  from reassembler_sound [OF fresh_reassembler_new this] show ?thesis by auto
qed

end
