(* ===== verification/Port.thy ===== *)
theory Port
  imports Chunk
begin

text \<open>
  The transport seam (\<open>port.rs\<close>) and the in-process pair (\<open>port/pair.rs\<close>).  One direction of a pair
  is an unbounded \<open>tokio::sync::mpsc\<close> channel: its queue, and whether its sender and its receiver
  still exist.  Polling \<open>recv\<close> yields \<open>Pending\<close> when the queue is empty and the sender is alive.  The
  locale \<open>port_receiver\<close> is the contract of \<open>PortRx::recv\<close>: \<open>Closed\<close> is the last item.
\<close>

section \<open>The trait's vocabulary\<close>

datatype port_closure =
    PortClosed "u16 option" "string option"
  | ProtocolError codec_error u16

datatype inbound = InFrame frame | is_InClosed: InClosed port_closure

datatype send_outcome = Sent | SendClosed | Refused codec_error

datatype 'a poll = Pending | Polled 'a

section \<open>The in-process pair\<close>

record memory_port_options =
  mpo_max_frame_bytes :: "nat option"
  mpo_validate_frames :: bool

definition memory_port_options_default :: memory_port_options where
  "memory_port_options_default = \<lparr>mpo_max_frame_bytes = None, mpo_validate_frames = False\<rparr>"

datatype wire_message = WFrame frame | WClose u16 "string option"

record 'm channel =
  ch_queue :: "'m list"
  ch_sender :: bool
  ch_receiver :: bool

definition unbounded_channel :: "'m channel" where
  "unbounded_channel = \<lparr>ch_queue = [], ch_sender = True, ch_receiver = True\<rparr>"

text \<open>\<open>UnboundedSender::send\<close> fails exactly when the receiver is gone.\<close>

definition ch_send :: "'m \<Rightarrow> 'm channel \<Rightarrow> 'm channel \<times> bool" where
  "ch_send msg ch = (if ch_receiver ch then (ch\<lparr>ch_queue := ch_queue ch @ [msg]\<rparr>, True) else (ch, False))"

text \<open>\<open>UnboundedReceiver::recv\<close>.\<close>

definition ch_recv :: "'m channel \<Rightarrow> 'm channel \<times> 'm option poll" where
  "ch_recv ch =
     (case ch_queue ch of
        msg # rest \<Rightarrow> (ch\<lparr>ch_queue := rest\<rparr>, Polled (Some msg))
      | [] \<Rightarrow> (ch, if ch_sender ch then Pending else Polled None))"

record memory_port_tx =
  mtx_max_frame_bytes :: "nat option"
  mtx_validate_frames :: bool

record memory_port_rx =
  mrx_terminal :: bool

text \<open>A whole pair: the two channels, and the options both ends carry.\<close>

record memory_pair =
  mp_options :: memory_port_options
  mp_a_to_b :: "wire_message channel"
  mp_b_to_a :: "wire_message channel"

definition port_pair_with :: "memory_port_options \<Rightarrow> string + memory_pair" where
  "port_pair_with options =
     and_then (case mpo_max_frame_bytes options of
                 Some m \<Rightarrow> and_then (check_max_frame_bytes m) (\<lambda>_. Inr ())
               | None \<Rightarrow> Inr ())
       (\<lambda>_. Inr \<lparr>mp_options = options, mp_a_to_b = unbounded_channel, mp_b_to_a = unbounded_channel\<rparr>)"

definition port_pair :: "string + memory_pair" where
  "port_pair = port_pair_with memory_port_options_default"

definition mp_split :: "memory_port_options \<Rightarrow> memory_port_tx \<times> memory_port_rx" where
  "mp_split options =
     (\<lparr>mtx_max_frame_bytes = mpo_max_frame_bytes options,
       mtx_validate_frames = mpo_validate_frames options\<rparr>,
      \<lparr>mrx_terminal = False\<rparr>)"

definition mtx_forward :: "wire_message \<Rightarrow> wire_message channel \<Rightarrow> wire_message channel \<times> send_outcome" where
  "mtx_forward msg ch =
     (case ch_send msg ch of (ch', ok) \<Rightarrow> (ch', if ok then Sent else SendClosed))"

definition mtx_send :: "serde_json \<Rightarrow> memory_port_tx \<Rightarrow> frame \<Rightarrow> wire_message channel \<Rightarrow> wire_message channel \<times> send_outcome" where
  "mtx_send S tx f ch =
     (if mtx_validate_frames tx then
        let m = (case mtx_max_frame_bytes tx of Some m \<Rightarrow> m | None \<Rightarrow> DEFAULT_MAX_FRAME_BYTES)
        in case and_then (encode_frame_bytes S f m) (\<lambda>bytes. decode_line S bytes m) of
             Inr roundtripped \<Rightarrow> mtx_forward (WFrame roundtripped) ch
           | Inl e \<Rightarrow> (ch, Refused e)
      else mtx_forward (WFrame f) ch)"

text \<open>\<open>close\<close> consumes the sending half, so the channel's sender is dropped after the message.\<close>

definition mtx_drop :: "wire_message channel \<Rightarrow> wire_message channel" where
  "mtx_drop ch = ch\<lparr>ch_sender := False\<rparr>"

definition mtx_close :: "u16 \<Rightarrow> string option \<Rightarrow> wire_message channel \<Rightarrow> wire_message channel" where
  "mtx_close code reason ch = mtx_drop (fst (ch_send (WClose code reason) ch))"

definition mrx_recv :: "memory_port_rx \<Rightarrow> wire_message channel \<Rightarrow> (memory_port_rx \<times> wire_message channel) \<times> inbound option poll" where
  "mrx_recv rx ch =
     (if mrx_terminal rx then ((rx, ch), Polled None)
      else case ch_recv ch of
        (ch', Pending) \<Rightarrow> ((rx, ch'), Pending)
      | (ch', Polled (Some (WFrame f))) \<Rightarrow> ((rx, ch'), Polled (Some (InFrame f)))
      | (ch', Polled (Some (WClose code reason))) \<Rightarrow>
          ((rx\<lparr>mrx_terminal := True\<rparr>, ch'), Polled (Some (InClosed (PortClosed (Some code) reason))))
      | (ch', Polled None) \<Rightarrow>
          ((rx\<lparr>mrx_terminal := True\<rparr>, ch'), Polled (Some (InClosed (PortClosed None None)))))"

section \<open>The contract of a receiving half\<close>

fun recvs :: "('s \<Rightarrow> 's \<times> inbound option poll) \<Rightarrow> nat \<Rightarrow> 's \<Rightarrow> 's \<times> inbound list" where
  "recvs recv 0 s = (s, [])"
| "recvs recv (Suc n) s =
     (case recv s of
        (s', Polled (Some item)) \<Rightarrow> (case recvs recv n s' of (s'', items) \<Rightarrow> (s'', item # items))
      | (s', _) \<Rightarrow> recvs recv n s')"

locale port_receiver =
  fixes recv :: "'s \<Rightarrow> 's \<times> inbound option poll"
    and ended :: "'s \<Rightarrow> bool"
  assumes closed_ends: "recv s = (s', Polled (Some (InClosed c))) \<Longrightarrow> ended s'"
    and ended_none: "ended s \<Longrightarrow> recv s = (s, Polled None)"
begin

lemma recvs_ended: "ended s \<Longrightarrow> recvs recv n s = (s, [])"
  by (induction n) (simp_all add: ended_none)

lemma closed_is_last:
  "recvs recv n s = (s', items) \<Longrightarrow> items = pre @ InClosed c # post \<Longrightarrow> post = [] \<and> ended s'"
proof (induction n arbitrary: s s' items pre)
  case 0
  then show ?case by simp
next
  case (Suc n)
  show ?case
  proof (cases "\<exists>s1 item. recv s = (s1, Polled (Some item))")
    case False
    then show ?thesis using Suc
      by (fastforce split: prod.splits poll.splits option.splits)
  next
    case True
    then obtain s1 item where r: "recv s = (s1, Polled (Some item))" by blast
    obtain s2 rest where rest: "recvs recv n s1 = (s2, rest)" by force
    have eq: "s' = s2" "item # rest = pre @ InClosed c # post" using Suc.prems r rest by simp_all
    show ?thesis
    proof (cases pre)
      case Nil
      with eq have item: "item = InClosed c" "rest = post" by simp_all
      with r have "ended s1" by (simp add: closed_ends)
      with recvs_ended rest item eq show ?thesis by simp
    next
      case (Cons x xs)
      with eq Suc.IH [OF rest] show ?thesis by simp
    qed
  qed
qed

end

definition mrx_step :: "memory_port_rx \<times> wire_message channel \<Rightarrow> (memory_port_rx \<times> wire_message channel) \<times> inbound option poll" where
  "mrx_step s = (case s of (rx, ch) \<Rightarrow> mrx_recv rx ch)"

interpretation mrx: port_receiver mrx_step "\<lambda>s. mrx_terminal (fst s)"
  by unfold_locales
     (auto simp: mrx_step_def mrx_recv_def split: prod.splits if_splits poll.splits option.splits wire_message.splits)

section \<open>One direction of a pair, driven by any sequence of calls\<close>

datatype link_op =
    DoSend frame | DoClose u16 "string option" | DoDropTx | DoRecv | DoDropRx

text \<open>The two halves (\<open>None\<close> once dropped), their channel, and what the callers have seen so far.\<close>

record link =
  ln_tx :: "memory_port_tx option"
  ln_rx :: "memory_port_rx option"
  ln_ch :: "wire_message channel"
  ln_sent :: "frame list"
  ln_farewell :: "(u16 \<times> string option) option"
  ln_got :: "inbound list"

definition link_open :: "memory_port_options \<Rightarrow> link" where
  "link_open options =
     \<lparr>ln_tx = Some (fst (mp_split options)), ln_rx = Some (snd (mp_split options)),
      ln_ch = unbounded_channel, ln_sent = [], ln_farewell = None, ln_got = []\<rparr>"

definition link_step :: "serde_json \<Rightarrow> link_op \<Rightarrow> link \<Rightarrow> link" where
  "link_step S oper l =
     (case oper of
        DoSend f \<Rightarrow>
          (case ln_tx l of
             None \<Rightarrow> l
           | Some tx \<Rightarrow>
               (case mtx_send S tx f (ln_ch l) of
                  (ch, out) \<Rightarrow> l\<lparr>ln_ch := ch, ln_sent := ln_sent l @ (if out = Sent then [f] else [])\<rparr>))
      | DoClose code reason \<Rightarrow>
          (case ln_tx l of
             None \<Rightarrow> l
           | Some tx \<Rightarrow> l\<lparr>ln_tx := None, ln_ch := mtx_close code reason (ln_ch l),
                           ln_farewell := (if ch_receiver (ln_ch l) then Some (code, reason) else None)\<rparr>)
      | DoDropTx \<Rightarrow>
          (case ln_tx l of None \<Rightarrow> l | Some tx \<Rightarrow> l\<lparr>ln_tx := None, ln_ch := mtx_drop (ln_ch l)\<rparr>)
      | DoRecv \<Rightarrow>
          (case ln_rx l of
             None \<Rightarrow> l
           | Some rx \<Rightarrow>
               (case mrx_recv rx (ln_ch l) of
                  ((rx', ch), Polled (Some item)) \<Rightarrow>
                    l\<lparr>ln_rx := Some rx', ln_ch := ch, ln_got := ln_got l @ [item]\<rparr>
                | ((rx', ch), _) \<Rightarrow> l\<lparr>ln_rx := Some rx', ln_ch := ch\<rparr>))
      | DoDropRx \<Rightarrow> l\<lparr>ln_rx := None, ln_ch := (ln_ch l)\<lparr>ch_receiver := False\<rparr>\<rparr>)"

definition link_run :: "serde_json \<Rightarrow> link_op list \<Rightarrow> link \<Rightarrow> link" where
  "link_run S ops l = fold (link_step S) ops l"

fun frames_of :: "inbound list \<Rightarrow> frame list" where
  "frames_of [] = []"
| "frames_of (InFrame f # items) = f # frames_of items"
| "frames_of (InClosed c # items) = frames_of items"

lemma frames_of_map [simp]: "frames_of (map InFrame fs @ items) = fs @ frames_of items"
  by (induction fs) simp_all

lemma frames_of_InFrame [simp]: "frames_of (map InFrame fs) = fs"
  using frames_of_map [of fs "[]"] by simp

definition farewell_item :: "(u16 \<times> string option) option \<Rightarrow> inbound" where
  "farewell_item w =
     (case w of Some (code, reason) \<Rightarrow> InClosed (PortClosed (Some code) reason)
      | None \<Rightarrow> InClosed (PortClosed None None))"

definition farewell_message :: "(u16 \<times> string option) option \<Rightarrow> wire_message list" where
  "farewell_message w = (case w of Some (code, reason) \<Rightarrow> [WClose code reason] | None \<Rightarrow> [])"

text \<open>
  The invariant: what was received and what is queued are together what was sent; the farewell is
  behind every frame; and once it (or the end of the channel) was received the queue is empty.
\<close>

definition link_inv :: "link \<Rightarrow> bool" where
  "link_inv l \<longleftrightarrow>
     (\<exists>dn todo. ln_sent l = dn @ todo
        \<and> (if \<not> list_ex is_InClosed (ln_got l)
           then ln_got l = map InFrame dn
              \<and> ch_queue (ln_ch l) = map WFrame todo @ farewell_message (ln_farewell l)
              \<and> (\<forall>rx. ln_rx l = Some rx \<longrightarrow> \<not> mrx_terminal rx)
           else ln_got l = map InFrame dn @ [farewell_item (ln_farewell l)] \<and> todo = []
              \<and> ln_tx l = None \<and> (\<forall>rx. ln_rx l = Some rx \<longrightarrow> mrx_terminal rx)))
     \<and> (ch_sender (ln_ch l) \<longleftrightarrow> ln_tx l \<noteq> None) \<and> (ln_tx l \<noteq> None \<longrightarrow> ln_farewell l = None)
     \<and> (ch_receiver (ln_ch l) \<longleftrightarrow> ln_rx l \<noteq> None)"

text \<open>Only a pair that validates its frames puts them through the codec, and only there must they be exact.\<close>

definition sends_exact :: "serde_json \<Rightarrow> bool \<Rightarrow> link_op list \<Rightarrow> bool" where
  "sends_exact S validates ops \<longleftrightarrow>
     (validates \<longrightarrow> serde_ok S \<and> (\<forall>f. DoSend f \<in> set ops \<longrightarrow> frame_exact f))"

lemma sends_exact_ConsD:
  "sends_exact S v (oper # ops) \<Longrightarrow> sends_exact S v [oper] \<and> sends_exact S v ops"
  by (auto simp: sends_exact_def)

definition tx_validates :: "bool \<Rightarrow> link \<Rightarrow> bool" where
  "tx_validates v l \<longleftrightarrow> (\<forall>tx. ln_tx l = Some tx \<longrightarrow> mtx_validate_frames tx = v)"

lemma tx_validates_step: "tx_validates v l \<Longrightarrow> tx_validates v (link_step S oper l)"
  by (auto simp: tx_validates_def link_step_def split: link_op.splits option.splits prod.splits poll.splits send_outcome.splits)

lemma mtx_send_exact:
  assumes "sends_exact S (mtx_validate_frames tx) [DoSend f]"
  shows "mtx_send S tx f ch = mtx_forward (WFrame f) ch \<or> (\<exists>e. mtx_send S tx f ch = (ch, Refused e))"
proof -
  have "decode_line S bs m = Inr f" if "encode_frame_bytes S f m = Inr bs" and "mtx_validate_frames tx"
    for m bs
    using assms that decode_encoded by (auto simp: sends_exact_def)
  then show ?thesis
    by (auto simp: mtx_send_def Let_def and_then_def split: sum.split)
qed

lemma farewell_closed [simp]: "is_InClosed (farewell_item w)"
  by (simp add: farewell_item_def split: option.split prod.split)

lemma list_ex_InFrame [simp]: "\<not> list_ex is_InClosed (map InFrame fs)"
  by (induction fs) auto

lemma link_inv_openI:
  "ln_sent l = dn @ todo \<Longrightarrow> ln_got l = map InFrame dn \<Longrightarrow>
   ch_queue (ln_ch l) = map WFrame todo @ farewell_message (ln_farewell l) \<Longrightarrow>
   (\<And>rx. ln_rx l = Some rx \<Longrightarrow> \<not> mrx_terminal rx) \<Longrightarrow>
   (ch_sender (ln_ch l) \<longleftrightarrow> ln_tx l \<noteq> None) \<Longrightarrow> (ln_tx l \<noteq> None \<Longrightarrow> ln_farewell l = None) \<Longrightarrow>
   (ch_receiver (ln_ch l) \<longleftrightarrow> ln_rx l \<noteq> None) \<Longrightarrow> link_inv l"
  unfolding link_inv_def by (intro conjI exI [of _ dn] exI [of _ todo]) auto

lemma link_inv_closedI:
  "ln_got l = map InFrame (ln_sent l) @ [farewell_item (ln_farewell l)] \<Longrightarrow> ln_tx l = None \<Longrightarrow>
   (\<And>rx. ln_rx l = Some rx \<Longrightarrow> mrx_terminal rx) \<Longrightarrow>
   \<not> ch_sender (ln_ch l) \<Longrightarrow> (ch_receiver (ln_ch l) \<longleftrightarrow> ln_rx l \<noteq> None) \<Longrightarrow> link_inv l"
  unfolding link_inv_def by (intro conjI exI [of _ "ln_sent l"] exI [of _ "[]"]) auto

lemma link_invE:
  assumes "link_inv l"
  obtains (running) dn todo where "ln_sent l = dn @ todo" and "ln_got l = map InFrame dn"
      and "ch_queue (ln_ch l) = map WFrame todo @ farewell_message (ln_farewell l)"
      and "\<And>rx. ln_rx l = Some rx \<Longrightarrow> \<not> mrx_terminal rx"
      and "ch_sender (ln_ch l) \<longleftrightarrow> ln_tx l \<noteq> None" and "ln_tx l \<noteq> None \<Longrightarrow> ln_farewell l = None"
      and "ch_receiver (ln_ch l) \<longleftrightarrow> ln_rx l \<noteq> None"
  | (closed) "ln_got l = map InFrame (ln_sent l) @ [farewell_item (ln_farewell l)]" and "ln_tx l = None"
      and "\<And>rx. ln_rx l = Some rx \<Longrightarrow> mrx_terminal rx" and "\<not> ch_sender (ln_ch l)"
      and "ch_receiver (ln_ch l) \<longleftrightarrow> ln_rx l \<noteq> None"
proof -
  from assms obtain dn todo where sent: "ln_sent l = dn @ todo"
    and cond: "if \<not> list_ex is_InClosed (ln_got l)
           then ln_got l = map InFrame dn
              \<and> ch_queue (ln_ch l) = map WFrame todo @ farewell_message (ln_farewell l)
              \<and> (\<forall>rx. ln_rx l = Some rx \<longrightarrow> \<not> mrx_terminal rx)
           else ln_got l = map InFrame dn @ [farewell_item (ln_farewell l)] \<and> todo = []
              \<and> ln_tx l = None \<and> (\<forall>rx. ln_rx l = Some rx \<longrightarrow> mrx_terminal rx)"
    and rest: "ch_sender (ln_ch l) \<longleftrightarrow> ln_tx l \<noteq> None" "ln_tx l \<noteq> None \<longrightarrow> ln_farewell l = None"
      "ch_receiver (ln_ch l) \<longleftrightarrow> ln_rx l \<noteq> None"
    unfolding link_inv_def by blast
  show thesis
  proof (cases "list_ex is_InClosed (ln_got l)")
    case True
    then show thesis using cond sent rest by (intro closed) simp_all
  next
    case False
    then show thesis using cond sent rest by (intro running [of dn todo]) simp_all
  qed
qed

lemmas link_recv_simps = link_step_def mrx_recv_def ch_recv_def farewell_message_def farewell_item_def

lemma link_inv_recv: "link_inv l \<Longrightarrow> link_inv (link_step S DoRecv l)"
proof (cases "ln_rx l")
  case None
  then show "link_inv l \<Longrightarrow> ?thesis" by (simp add: link_step_def)
next
  case (Some rx)
  assume "link_inv l"
  then show ?thesis
  proof (cases rule: link_invE)
    case (running dn todo)
    show ?thesis
    proof (cases todo)
      case (Cons f rest)
      have "link_step S DoRecv l = l\<lparr>ln_ch := (ln_ch l)\<lparr>ch_queue := map WFrame rest @ farewell_message (ln_farewell l)\<rparr>,
          ln_got := ln_got l @ [InFrame f]\<rparr>"
        using running Some Cons by (cases l) (simp add: link_step_def mrx_recv_def ch_recv_def)
      then show ?thesis
        using running Some Cons by (intro link_inv_openI [of _ "dn @ [f]" rest]) simp_all
    next
      case Nil
      show ?thesis
      proof (cases "ln_farewell l")
        case None
        show ?thesis
        proof (cases "ln_tx l")
          case tx: None
          show ?thesis
            by (rule link_inv_closedI)
               (use running Some Nil None tx in \<open>auto simp: link_recv_simps\<close>)
        next
          case tx: (Some tx)
          show ?thesis
            by (rule link_inv_openI [of _ dn "[]"])
               (use running Some Nil None tx in \<open>auto simp: link_recv_simps\<close>)
        qed
      next
        case w: (Some w)
        then have "ln_tx l = None" using running by auto
        show ?thesis
          by (rule link_inv_closedI; cases w)
             (use running Some Nil w \<open>ln_tx l = None\<close> in \<open>auto simp: link_recv_simps\<close>)
      qed
    qed
  next
    case closed
    have "link_step S DoRecv l = l" using closed Some by (cases l) (simp add: link_step_def mrx_recv_def)
    then show ?thesis using \<open>link_inv l\<close> by simp
  qed
qed

lemma link_recv_closed:
  assumes "link_inv l" and "list_ex is_InClosed (ln_got l)"
  shows "ln_got (link_run S (replicate k DoRecv) l) = map InFrame (ln_sent l) @ [farewell_item (ln_farewell l)]"
  using assms(1)
proof (cases rule: link_invE)
  case (running dn todo)
  then show ?thesis using assms(2) by simp
next
  case closed
  have "link_step S DoRecv l = l"
    using closed(3) by (cases "ln_rx l"; cases l) (simp_all add: link_step_def mrx_recv_def)
  then have "link_run S (replicate k DoRecv) l = l" by (induction k) (simp_all add: link_run_def)
  then show ?thesis using closed by simp
qed

lemma link_recv_progress:
  assumes "link_inv l" and "ln_tx l = None" and "ln_rx l \<noteq> None"
  shows "list_ex is_InClosed (ln_got (link_step S DoRecv l))
    \<or> length (ch_queue (ln_ch (link_step S DoRecv l))) < length (ch_queue (ln_ch l))"
  using assms(1)
proof (cases rule: link_invE)
  case (running dn todo)
  obtain rx where rx: "ln_rx l = Some rx" using assms(3) by blast
  show ?thesis
    using running(4,5) rx assms(2)
    by (cases "ch_queue (ln_ch l)")
       (auto simp: link_step_def mrx_recv_def ch_recv_def split: wire_message.split)
next
  case closed
  obtain rx where "ln_rx l = Some rx" using assms(3) by blast
  with closed show ?thesis by (simp add: link_step_def mrx_recv_def)
qed

lemma link_inv_send:
  assumes "sends_exact S v [DoSend f]" and "tx_validates v l" and "link_inv l"
  shows "link_inv (link_step S (DoSend f) l)"
proof (cases "ln_tx l")
  case None
  then show ?thesis using assms(3) by (simp add: link_step_def)
next
  case (Some tx)
  have or_not: "link_step S (DoSend f) l = l \<or>
      ch_receiver (ln_ch l) \<and> link_step S (DoSend f) l =
        l\<lparr>ln_ch := (ln_ch l)\<lparr>ch_queue := ch_queue (ln_ch l) @ [WFrame f]\<rparr>, ln_sent := ln_sent l @ [f]\<rparr>"
    using mtx_send_exact [of S tx f "ln_ch l"] Some assms(1,2)
    by (cases l) (auto simp: tx_validates_def link_step_def mtx_forward_def ch_send_def split: if_splits)
  from assms(3) show ?thesis
  proof (cases rule: link_invE)
    case (running dn todo)
    then have "ln_farewell l = None" using Some by simp
    then have "link_inv (l\<lparr>ln_ch := (ln_ch l)\<lparr>ch_queue := ch_queue (ln_ch l) @ [WFrame f]\<rparr>, ln_sent := ln_sent l @ [f]\<rparr>)"
      by (intro link_inv_openI [of _ dn "todo @ [f]"])
         (use running in \<open>simp_all add: farewell_message_def\<close>)
    with or_not assms(3) show ?thesis by auto
  next
    case closed
    with Some show ?thesis by simp
  qed
qed

lemma link_inv_close:
  assumes "link_inv l" and "oper = DoClose code reason \<or> oper = DoDropTx"
  shows "link_inv (link_step S oper l)"
  using assms(1)
proof (cases rule: link_invE)
  case (running dn todo)
  show ?thesis
  proof (cases "ln_tx l")
    case None
    then show ?thesis using assms by (auto simp: link_step_def)
  next
    case (Some tx)
    with running have w: "ln_farewell l = None" by simp
    show ?thesis
      by (rule link_inv_openI [of _ dn todo])
         (use assms(2) running Some w in
           \<open>auto simp: link_step_def mtx_close_def mtx_drop_def ch_send_def farewell_message_def\<close>)
  qed
next
  case closed
  then show ?thesis using assms by (auto simp: link_step_def)
qed

lemma link_inv_drop_rx:
  assumes "link_inv l"
  shows "link_inv (link_step S DoDropRx l)"
  using assms
proof (cases rule: link_invE)
  case (running dn todo)
  show ?thesis
    by (rule link_inv_openI [of _ dn todo]) (use running in \<open>simp_all add: link_step_def\<close>)
next
  case closed
  show ?thesis by (rule link_inv_closedI) (use closed in \<open>simp_all add: link_step_def\<close>)
qed

lemma link_inv_step:
  "sends_exact S v [oper] \<Longrightarrow> tx_validates v l \<Longrightarrow> link_inv l \<Longrightarrow> link_inv (link_step S oper l)"
  by (cases oper) (auto intro: link_inv_send link_inv_recv link_inv_close link_inv_drop_rx)

lemma link_inv_run:
  "sends_exact S v ops \<Longrightarrow> tx_validates v l \<Longrightarrow> link_inv l \<Longrightarrow> link_inv (link_run S ops l)"
proof (induction ops arbitrary: l)
  case Nil
  then show ?case by (simp add: link_run_def)
next
  case (Cons oper ops)
  then have "link_inv (link_step S oper l)" and "sends_exact S v ops"
    using link_inv_step [of S v oper l] sends_exact_ConsD [of S v oper ops] by blast+
  then show ?case using Cons.IH tx_validates_step [OF Cons.prems(2)] by (simp add: link_run_def)
qed

lemma tx_validates_open: "tx_validates (mpo_validate_frames options) (link_open options)"
  by (simp add: tx_validates_def link_open_def mp_split_def)

lemma link_inv_open: "link_inv (link_open options)"
  by (rule link_inv_openI [of _ "[]" "[]"])
     (auto simp: link_open_def mp_split_def unbounded_channel_def farewell_message_def)

text \<open>
  C37: The in-process pair is a faithful wire in each direction: under any interleaving of sends,
  receives, a close and dropped halves, the receiver has seen a prefix of the frames whose send
  reported \<open>Sent\<close>, in order and unchanged; and when it has seen the closing item it has seen all of
  them, that item is the last, appears once, and carries what \<open>close\<close> was called with (or no code when
  the sender was dropped).  Nothing is asked of the frames where they are handed over as values, which
  is the default; on a pair with \<open>validate_frames\<close> set, which puts every frame through the byte codec,
  the JSON library does what it documents and the frames sent carry no floating-point number, objects
  in key order and no nesting its reader refuses.
\<close>

theorem memory_port_fifo:
  assumes "sends_exact S (mpo_validate_frames options) ops" and "link_run S ops (link_open options) = l"
  shows "(\<exists>rest. ln_sent l = frames_of (ln_got l) @ rest \<and> (list_ex is_InClosed (ln_got l) \<longrightarrow> rest = []))
    \<and> (list_ex is_InClosed (ln_got l) \<longrightarrow>
         ln_got l = map InFrame (ln_sent l) @ [farewell_item (ln_farewell l)])"
proof -
  have "link_inv l" using link_inv_run [OF assms(1) tx_validates_open link_inv_open] assms(2) by blast
  then show ?thesis
  proof (cases rule: link_invE)
    case (running dn todo)
    then show ?thesis by simp
  next
    case closed
    have "frames_of [farewell_item (ln_farewell l)] = []"
      by (simp add: farewell_item_def split: option.split prod.split)
    with closed show ?thesis by simp
  qed
qed

theorem memory_port_fifo_witness:
  "ln_got (link_run liveness_serde [DoSend Ping, DoSend Pong, DoClose 4000 None, DoRecv, DoRecv, DoRecv, DoRecv]
     (link_open \<lparr>mpo_max_frame_bytes = Some 4096, mpo_validate_frames = True\<rparr>))
   = [InFrame Ping, InFrame Pong, InClosed (PortClosed (Some 4000) None)]"
proof -
  have ex: "sends_exact liveness_serde True [DoSend Ping, DoSend Pong, DoClose 4000 None, DoRecv, DoRecv, DoRecv, DoRecv]"
    by (simp add: sends_exact_def frame_exact_def liveness_serde_ok)
  from memory_port_fifo [OF _ refl, of liveness_serde
      "\<lparr>mpo_max_frame_bytes = Some 4096, mpo_validate_frames = True\<rparr>"] ex
  show ?thesis
    by (simp add: liveness_encode decode_encoded [OF liveness_serde_ok _ liveness_encode(1)]
        decode_encoded [OF liveness_serde_ok _ liveness_encode(2)] frame_exact_def link_run_def link_step_def link_open_def mp_split_def unbounded_channel_def mtx_send_def
        mtx_forward_def ch_send_def mtx_close_def mtx_drop_def mrx_recv_def ch_recv_def farewell_item_def)
qed

text \<open>
  Nothing sent is lost: while the receiver is kept, once the sending half is closed or
  dropped, one \<open>recv\<close> per queued message and one more has delivered every frame sent and the closing
  item, however many were queued.
\<close>

theorem memory_port_drains:
  assumes "sends_exact S (mpo_validate_frames options) ops" and "link_run S ops (link_open options) = l"
    and "ln_tx l = None" and "ln_rx l \<noteq> None" and "length (ch_queue (ln_ch l)) < n"
  shows "ln_got (link_run S (replicate n DoRecv) l) = map InFrame (ln_sent l) @ [farewell_item (ln_farewell l)]"
proof -
  have "link_inv l" using link_inv_run [OF assms(1) tx_validates_open link_inv_open] assms(2) by blast
  then show ?thesis using assms(3,4,5)
  proof (induction n arbitrary: l)
    case 0
    then show ?case by simp
  next
    case (Suc n)
    let ?l = "link_step S DoRecv l"
    have keep: "ln_tx ?l = None" "ln_rx ?l \<noteq> None" "ln_sent ?l = ln_sent l" "ln_farewell ?l = ln_farewell l"
      using Suc.prems by (auto simp: link_step_def split: poll.splits option.splits prod.splits)
    have run: "link_run S (replicate (Suc n) DoRecv) l = link_run S (replicate n DoRecv) ?l"
      by (simp add: link_run_def)
    have inv: "link_inv ?l" using Suc.prems(1) by (rule link_inv_recv)
    have fin: "ln_got (link_run S (replicate k DoRecv) l) = map InFrame (ln_sent l) @ [farewell_item (ln_farewell l)]"
      if "link_inv l" "list_ex is_InClosed (ln_got l)" for k l
      using that by (rule link_recv_closed)
    show ?case
    proof (cases "list_ex is_InClosed (ln_got ?l)")
      case True
      with fin [OF inv True, of n] run keep show ?thesis by simp
    next
      case False
      then have "length (ch_queue (ln_ch ?l)) < length (ch_queue (ln_ch l))"
        using link_recv_progress [OF Suc.prems(1-3)] by blast
      with Suc.IH [OF inv keep(1,2)] Suc.prems(4) run keep show ?thesis by simp
    qed
  qed
qed

definition closed_link_ops :: "link_op list" where
  "closed_link_ops = [DoSend Ping, DoSend Pong, DoDropTx]"

theorem memory_port_drains_witness:
  "ln_got (link_run liveness_serde (replicate 3 DoRecv)
     (link_run liveness_serde closed_link_ops (link_open memory_port_options_default)))
   = [InFrame Ping, InFrame Pong, InClosed (PortClosed None None)]"
proof -
  let ?l = "link_run liveness_serde closed_link_ops (link_open memory_port_options_default)"
  have ex: "sends_exact liveness_serde (mpo_validate_frames memory_port_options_default) closed_link_ops"
    by (simp add: sends_exact_def frame_exact_def closed_link_ops_def liveness_serde_ok)
  have l: "ln_tx ?l = None" "ln_rx ?l \<noteq> None" "length (ch_queue (ln_ch ?l)) < 3"
    "ln_sent ?l = [Ping, Pong]" "ln_farewell ?l = None"
    by (simp_all add: closed_link_ops_def memory_port_options_default_def link_run_def link_step_def
        link_open_def mp_split_def unbounded_channel_def mtx_send_def mtx_forward_def ch_send_def mtx_drop_def)
  from memory_port_drains [OF ex refl l(1-3)] l(4,5)
  show ?thesis by (simp add: farewell_item_def)
qed

end
