(* ===== verification/Session_Shared.thy ===== *)
theory Session_Shared
  imports Port
begin

text \<open>
  The state a \<open>Session\<close> handle and its driver share (\<open>session/shared.rs\<close>), with the options it is
  built from (\<open>session/options.rs\<close>), the command vocabulary (\<open>session/command.rs\<close>), the handle's data
  types (\<open>session/handle.rs\<close>) and the registration guard (\<open>session/handler.rs\<close>).  A mutex-protected
  field is a field; an atomic counter is a word of its width; a \<open>watch\<close> channel is its current value;
  an \<open>mpsc\<close> channel is its queue.  A handler is user code: it is named by a number, and what it answers
  is an input of the driver's step.  A \<open>oneshot\<close> reply channel is named by a number too.
\<close>

type_synonym handler_ref = nat
type_synonym reply_ref = nat

section \<open>Options\<close>

definition DEFAULT_HANDSHAKE_TIMEOUT :: duration where "DEFAULT_HANDSHAKE_TIMEOUT = from_secs 15"
definition DEFAULT_LIVENESS_INTERVAL :: duration where "DEFAULT_LIVENESS_INTERVAL = from_secs 20"
definition DEFAULT_HANDLER_GRACE :: duration where "DEFAULT_HANDLER_GRACE = from_secs 5"
definition DEFAULT_MAX_IN_FLIGHT :: nat where "DEFAULT_MAX_IN_FLIGHT = 256"
definition DEFAULT_MAX_STREAM_KEYS :: nat where "DEFAULT_MAX_STREAM_KEYS = 1024"
definition MIN_OPEN_IN_FLIGHT :: nat where "MIN_OPEN_IN_FLIGHT = unat MIN_ANNOUNCED_IN_FLIGHT"
definition MIN_OPEN_STREAM_KEYS :: nat where "MIN_OPEN_STREAM_KEYS = 1"
definition IN_FLIGHT_LIMIT_KIND :: string where "IN_FLIGHT_LIMIT_KIND = ''in_flight_limit''"
definition STREAM_KEY_LIMIT_KIND :: string where "STREAM_KEY_LIMIT_KIND = ''stream_key_limit''"
definition DEFAULT_REQUEST_ID_PREFIX :: string where "DEFAULT_REQUEST_ID_PREFIX = ''r''"
definition HANDSHAKE_TIMEOUT_REASON :: string where "HANDSHAKE_TIMEOUT_REASON = ''handshake timeout''"

record session_options =
  so_peer :: peer_info
  so_capabilities :: jmap
  so_protocol :: protocol_version
  so_max_frame_bytes :: "nat option"
  so_max_in_flight :: nat
  so_max_stream_keys :: nat
  so_handshake_timeout :: duration
  so_liveness_interval :: "duration option"
  so_request_id_prefix :: string
  so_handler_grace :: duration
  so_handlers :: "(string \<times> handler_ref) list"

definition session_options_new :: "peer_info \<Rightarrow> session_options" where
  "session_options_new peer =
     \<lparr>so_peer = peer, so_capabilities = [], so_protocol = PROTOCOL_VERSION,
      so_max_frame_bytes = None, so_max_in_flight = DEFAULT_MAX_IN_FLIGHT,
      so_max_stream_keys = DEFAULT_MAX_STREAM_KEYS,
      so_handshake_timeout = DEFAULT_HANDSHAKE_TIMEOUT,
      so_liveness_interval = Some DEFAULT_LIVENESS_INTERVAL,
      so_request_id_prefix = DEFAULT_REQUEST_ID_PREFIX,
      so_handler_grace = DEFAULT_HANDLER_GRACE, so_handlers = []\<rparr>"

definition with_capabilities :: "jmap \<Rightarrow> session_options \<Rightarrow> session_options" where
  "with_capabilities c opts = opts\<lparr>so_capabilities := c\<rparr>"

definition with_protocol :: "protocol_version \<Rightarrow> session_options \<Rightarrow> session_options" where
  "with_protocol p opts = opts\<lparr>so_protocol := p\<rparr>"

definition with_max_frame_bytes :: "nat \<Rightarrow> session_options \<Rightarrow> string + session_options" where
  "with_max_frame_bytes n opts =
     and_then (check_max_frame_bytes n) (\<lambda>n. Inr (opts\<lparr>so_max_frame_bytes := Some n\<rparr>))"

definition with_max_in_flight :: "nat \<Rightarrow> session_options \<Rightarrow> string + session_options" where
  "with_max_in_flight n opts =
     and_then (check_at_least ''max_in_flight'' n MIN_OPEN_IN_FLIGHT)
       (\<lambda>n. Inr (opts\<lparr>so_max_in_flight := n\<rparr>))"

definition with_max_stream_keys :: "nat \<Rightarrow> session_options \<Rightarrow> string + session_options" where
  "with_max_stream_keys n opts =
     and_then (check_at_least ''max_stream_keys'' n MIN_OPEN_STREAM_KEYS)
       (\<lambda>n. Inr (opts\<lparr>so_max_stream_keys := n\<rparr>))"

definition with_handshake_timeout :: "duration \<Rightarrow> session_options \<Rightarrow> session_options" where
  "with_handshake_timeout d opts = opts\<lparr>so_handshake_timeout := d\<rparr>"

definition with_liveness_interval :: "duration option \<Rightarrow> session_options \<Rightarrow> session_options" where
  "with_liveness_interval d opts = opts\<lparr>so_liveness_interval := d\<rparr>"

definition with_request_id_prefix :: "string \<Rightarrow> session_options \<Rightarrow> session_options" where
  "with_request_id_prefix p opts = opts\<lparr>so_request_id_prefix := p\<rparr>"

definition with_handler_grace :: "duration \<Rightarrow> session_options \<Rightarrow> session_options" where
  "with_handler_grace d opts = opts\<lparr>so_handler_grace := d\<rparr>"

definition options_handle :: "string \<Rightarrow> handler_ref \<Rightarrow> session_options \<Rightarrow> session_options" where
  "options_handle method h opts = opts\<lparr>so_handlers := so_handlers opts @ [(method, h)]\<rparr>"

section \<open>The shared state\<close>

datatype session_state = Handshaking | Ready | Closed

record remote_peer =
  rp_peer :: peer_info
  rp_protocol :: protocol_version
  rp_capabilities :: jmap
  rp_limits :: "limits option"
  rp_effective_minor :: u32

record session_closure =
  sc_code :: u16
  sc_reason :: "string option"
  sc_fatal :: bool
  sc_error :: "codec_error option"
  sc_unfinished_handlers :: nat

datatype command =
    CmdClose u16 "string option"
  | CmdRequest frame reply_ref
  | CmdCancel string bool
  | CmdSend frame

record shared =
  sh_local_peer :: peer_info
  sh_local_protocol :: protocol_version
  sh_local_capabilities :: jmap
  sh_local_max_frame_bytes :: nat
  sh_max_in_flight :: nat
  sh_max_stream_keys :: nat
  sh_state :: session_state
  sh_remote :: "remote_peer option"
  sh_ready :: "(remote_error + remote_peer) option"
  sh_closure :: "session_closure option"
  sh_commands :: "command channel"
  sh_request_id_prefix :: string
  sh_request_sequence :: u64
  sh_in_flight :: u64
  sh_handlers :: "(string, u64 \<times> handler_ref) hmap"
  sh_next_generation :: u64
  sh_handler_grace :: duration
  sh_event_sequences :: "(string, u64) hmap"
  sh_event_subscribers :: "nat list"
  sh_pong_subscribers :: "nat list"
  sh_event_channels :: "(nat, event channel) hmap"
  sh_pong_channels :: "(nat, unit channel) hmap"

text \<open>
  The last two fields hold the channels the subscribers refer to: the shared state has their sending
  ends (the lists of names), the streams handed to callers have the receiving ends.
\<close>

definition send_limit_bytes :: "shared \<Rightarrow> nat" where
  "send_limit_bytes sh =
     min (sh_local_max_frame_bytes sh)
       (case Option.bind (Option.bind (sh_remote sh) rp_limits) lim_max_frame_bytes of
          None \<Rightarrow> DEFAULT_MAX_FRAME_BYTES | Some bytes \<Rightarrow> unat bytes)"

definition remote_max_in_flight :: "shared \<Rightarrow> nat" where
  "remote_max_in_flight sh =
     (case Option.bind (Option.bind (sh_remote sh) rp_limits) lim_max_in_flight of
        None \<Rightarrow> DEFAULT_MAX_IN_FLIGHT | Some count \<Rightarrow> unat count)"

definition assert_fits :: "serde_json \<Rightarrow> shared \<Rightarrow> frame \<Rightarrow> string \<Rightarrow> remote_error + unit" where
  "assert_fits S sh f what =
     (let limit = send_limit_bytes sh in
      case encode_frame_bytes S f limit of
        Inr _ \<Rightarrow> Inr ()
      | Inl error \<Rightarrow>
          if ce_kind error = TooLarge then
            let bytes = (case to_vec S f of Inr encoded \<Rightarrow> length encoded | Inl _ \<Rightarrow> limit + 1)
            in Inl (with_detail (with_detail
                 (remote_error_new code_FRAME_TOO_LARGE
                   (what @ '' encodes to '' @ show_nat bytes @ '' bytes; the session limit is ''
                    @ show_nat limit @ '' bytes.''))
                 ''bytes'' (json_u64 (u64_saturating bytes)))
                 ''limit'' (json_u64 (u64_saturating limit)))
          else
            Inl (remote_error_new code_INTERNAL
              (what @ '' failed to encode: '' @ codec_error_display error)))"

definition settle_ready :: "remote_error + remote_peer \<Rightarrow> shared \<Rightarrow> shared" where
  "settle_ready outcome sh =
     (case sh_ready sh of Some _ \<Rightarrow> sh | None \<Rightarrow> sh\<lparr>sh_ready := Some outcome\<rparr>)"

text \<open>\<open>fetch_add\<close> returns the old value and wraps; the \<open>+ 1\<close> after it is on the value returned.\<close>

definition next_request_id :: "shared \<Rightarrow> shared \<times> string" where
  "next_request_id sh =
     (let sequence = sh_request_sequence sh + 1
      in (sh\<lparr>sh_request_sequence := sh_request_sequence sh + 1\<rparr>,
          sh_request_id_prefix sh @ ''-'' @ show_nat (unat sequence)))"

definition register_handler :: "string \<Rightarrow> handler_ref \<Rightarrow> shared \<Rightarrow> shared \<times> string \<times> u64" where
  "register_handler method h sh =
     (let generation = sh_next_generation sh
      in (sh\<lparr>sh_next_generation := generation + 1,
             sh_handlers := hm_insert method (generation, h) (sh_handlers sh)\<rparr>,
          method, generation))"

text \<open>A new channel takes the first name not in use.\<close>

definition fresh_name :: "(nat, 'v) hmap \<Rightarrow> nat" where
  "fresh_name heap = Suc (fold max (map fst heap) 0)"

definition subscribe_events :: "shared \<Rightarrow> shared \<times> nat" where
  "subscribe_events sh =
     (let n = fresh_name (sh_event_channels sh)
      in (sh\<lparr>sh_event_channels := hm_insert n unbounded_channel (sh_event_channels sh),
             sh_event_subscribers := sh_event_subscribers sh @ [n]\<rparr>, n))"

definition subscribe_pongs :: "shared \<Rightarrow> shared \<times> nat" where
  "subscribe_pongs sh =
     (let n = fresh_name (sh_pong_channels sh)
      in (sh\<lparr>sh_pong_channels := hm_insert n unbounded_channel (sh_pong_channels sh),
             sh_pong_subscribers := sh_pong_subscribers sh @ [n]\<rparr>, n))"

text \<open>\<open>Vec::retain\<close> with the send as its test: a subscriber whose receiver is gone is dropped.\<close>

fun retain_send :: "'m \<Rightarrow> nat list \<Rightarrow> (nat, 'm channel) hmap \<Rightarrow> nat list \<times> (nat, 'm channel) hmap" where
  "retain_send msg [] heap = ([], heap)"
| "retain_send msg (n # ns) heap =
     (case hm_get heap n of
        None \<Rightarrow> retain_send msg ns heap
      | Some ch \<Rightarrow>
          (case ch_send msg ch of
             (ch', ok) \<Rightarrow>
               (case retain_send msg ns (hm_insert n ch' heap) of
                  (kept, heap') \<Rightarrow> (if ok then n # kept else kept, heap'))))"

definition fan_out_event :: "event \<Rightarrow> shared \<Rightarrow> shared" where
  "fan_out_event e sh =
     (if sh_state sh \<noteq> Ready then sh
      else case retain_send e (sh_event_subscribers sh) (sh_event_channels sh) of
        (kept, heap) \<Rightarrow> sh\<lparr>sh_event_subscribers := kept, sh_event_channels := heap\<rparr>)"

definition fan_out_pong :: "shared \<Rightarrow> shared" where
  "fan_out_pong sh =
     (case retain_send () (sh_pong_subscribers sh) (sh_pong_channels sh) of
        (kept, heap) \<Rightarrow> sh\<lparr>sh_pong_subscribers := kept, sh_pong_channels := heap\<rparr>)"

text \<open>Sending on the command channel; \<open>False\<close> when the driver is gone.\<close>

definition send_command :: "command \<Rightarrow> shared \<Rightarrow> shared \<times> bool" where
  "send_command c sh =
     (case ch_send c (sh_commands sh) of (ch, ok) \<Rightarrow> (sh\<lparr>sh_commands := ch\<rparr>, ok))"

section \<open>The registration guard\<close>

record handler_guard =
  hg_method :: string
  hg_generation :: u64
  hg_armed :: bool

definition guard_persist :: "handler_guard \<Rightarrow> handler_guard" where
  "guard_persist g = g\<lparr>hg_armed := False\<rparr>"

definition guard_drop :: "handler_guard \<Rightarrow> shared \<Rightarrow> shared" where
  "guard_drop g sh =
     (if \<not> hg_armed g then sh
      else case hm_get (sh_handlers sh) (hg_method g) of
        Some (generation, _) \<Rightarrow>
          if generation = hg_generation g
          then sh\<lparr>sh_handlers := hm_remove (hg_method g) (sh_handlers sh)\<rparr> else sh
      | None \<Rightarrow> sh)"

definition session_handle :: "string \<Rightarrow> handler_ref \<Rightarrow> shared \<Rightarrow> shared \<times> handler_guard" where
  "session_handle method h sh =
     (case register_handler method h sh of
        (sh', m, generation) \<Rightarrow> (sh', \<lparr>hg_method = m, hg_generation = generation, hg_armed = True\<rparr>))"

end
