(* ===== verification/Session_Driver.thy ===== *)
theory Session_Driver
  imports Session_Shared
begin

text \<open>
  The session driver: the writer task and the \<open>select!\<close> loop (\<open>session/driver.rs\<close>), inbound request
  routing (\<open>session/dispatch.rs\<close>), teardown (\<open>session/teardown.rs\<close>) and the construction of a session
  (\<open>session.rs\<close>).  What the driver cannot decide itself is an input: the outcome of the port's n-th
  \<open>send\<close>, which timers have elapsed, which handler task has settled with what, what the port's \<open>recv\<close>
  has ready, and which handlers finish within the grace period.
\<close>

section \<open>The writer task\<close>

datatype outbound = OutFrame frame | Shutdown

record writer =
  wr_queue :: "outbound list"
  wr_running :: bool
  wr_report :: "send_outcome option"
  wr_sent :: "frame list"

definition writer_spawn :: writer where
  "writer_spawn = \<lparr>wr_queue = [], wr_running = True, wr_report = None, wr_sent = []\<rparr>"

text \<open>One turn of the writer's loop; \<open>port n\<close> is what the port answers to the n-th frame it is handed.\<close>

definition writer_turn :: "(nat \<Rightarrow> send_outcome) \<Rightarrow> writer \<Rightarrow> writer" where
  "writer_turn port w =
     (if \<not> wr_running w then w
      else case wr_queue w of
        [] \<Rightarrow> w
      | OutFrame f # q \<Rightarrow>
          let outcome = port (length (wr_sent w)) in
          w\<lparr>wr_queue := q, wr_sent := wr_sent w @ [f],
            wr_report := (if outcome \<noteq> Sent \<and> wr_report w = None then Some outcome else wr_report w)\<rparr>
      | Shutdown # q \<Rightarrow> w\<lparr>wr_queue := q, wr_running := False\<rparr>)"

definition enqueue :: "frame \<Rightarrow> writer \<Rightarrow> writer" where
  "enqueue f w = (if wr_running w then w\<lparr>wr_queue := wr_queue w @ [OutFrame f]\<rparr> else w)"

text \<open>\<open>shut_down\<close> queues the marker and awaits the task: every queued item takes one turn.\<close>

definition shut_down :: "(nat \<Rightarrow> send_outcome) \<Rightarrow> writer \<Rightarrow> writer" where
  "shut_down port w =
     (let w = (if wr_running w then w\<lparr>wr_queue := wr_queue w @ [Shutdown]\<rparr> else w)
      in (writer_turn port ^^ length (wr_queue w)) w)"

text \<open>\<open>send_failed\<close> is ready once a failure was reported, or when the task ended without one.\<close>

definition send_failed :: "writer \<Rightarrow> send_outcome option option" where
  "send_failed w =
     (case wr_report w of
        Some outcome \<Rightarrow> Some (Some outcome)
      | None \<Rightarrow> if wr_running w then None else Some None)"

section \<open>Inbound requests\<close>

record active_request =
  ar_cancel :: nat
  ar_method :: string

record call_context =
  cc_id :: string
  cc_method :: string
  cc_cancel :: nat
  cc_remote :: remote_peer

record task =
  tk_handler :: handler_ref
  tk_params :: json
  tk_context :: call_context

type_synonym handler_outcome = "remote_error + json"

text \<open>
  The tasks, what each answers, the reverse lookup, the next task id (ids are never reused), and the
  cancellation tokens that have been cancelled; a request's token is named by its task.
\<close>

record request_tracking =
  rt_tasks :: "(nat, task) hmap"
  rt_active :: "(string, active_request) hmap"
  rt_by_task_id :: "(nat, string) hmap"
  rt_next_task :: nat
  rt_cancelled :: "nat list"

definition request_tracking_default :: request_tracking where
  "request_tracking_default =
     \<lparr>rt_tasks = [], rt_active = [], rt_by_task_id = [], rt_next_task = 0, rt_cancelled = []\<rparr>"

definition respond_error :: "string \<Rightarrow> remote_error \<Rightarrow> writer \<Rightarrow> writer" where
  "respond_error i error w =
     enqueue (Err \<lparr>err_id = i,
                   err_error = \<lparr>ep_code = re_code error, ep_message = re_message error,
                                ep_details = re_details error\<rparr>\<rparr>) w"

definition not_ready_error :: remote_error where
  "not_ready_error =
     remote_error_new code_UNAVAILABLE
       ''The session handshake has not completed; requests are refused until both hellos have crossed.''"

definition in_flight_error :: "nat \<Rightarrow> string \<Rightarrow> remote_error" where
  "in_flight_error limit method =
     with_detail (with_detail (with_detail
       (remote_error_new code_UNAVAILABLE
         (''This peer is already answering '' @ show_nat limit @ '' requests; retry ''
          @ quoted method @ '' once one of yours has settled.''))
       ''kind'' (JString IN_FLIGHT_LIMIT_KIND))
       ''limit'' (json_u64 (u64_saturating limit)))
       ''method'' (JString method)"

definition duplicate_id_error :: "string \<Rightarrow> remote_error" where
  "duplicate_id_error i =
     with_detail
       (remote_error_new code_INVALID_REQUEST
         (''Request id '' @ quoted i
          @ '' is already in flight; expected an id unique among the sender's pending requests.''))
       ''id'' (JString i)"

definition reserved_method_error :: "string \<Rightarrow> u32 \<Rightarrow> remote_error" where
  "reserved_method_error method minor =
     with_detail (with_detail
       (remote_error_new code_INVALID_REQUEST
         (''Method '' @ quoted method
          @ '' is reserved; the rpc. segment belongs to the protocol and defines no such method at wire minor ''
          @ show_nat (unat minor) @ ''.''))
       ''method'' (JString method))
       ''effectiveMinor'' (json_u32 minor)"

definition no_handler_error :: "string \<Rightarrow> remote_error" where
  "no_handler_error method =
     with_detail
       (remote_error_new code_METHOD_UNSUPPORTED
         (''Method '' @ quoted method @ '' has no handler on this peer.''))
       ''method'' (JString method)"

definition on_request :: "request \<Rightarrow> shared \<times> request_tracking \<times> writer
    \<Rightarrow> shared \<times> request_tracking \<times> writer" where
  "on_request req st =
     (case st of (sh, rt, w) \<Rightarrow>
      let i = req_id req; method = req_method req; params = req_params req in
      case (if sh_state sh = Ready then sh_remote sh else None) of
        None \<Rightarrow> (sh, rt, respond_error i not_ready_error w)
      | Some remote \<Rightarrow>
          if length (rt_active rt) \<ge> sh_max_in_flight sh then
            (sh, rt, respond_error i (in_flight_error (sh_max_in_flight sh) method) w)
          else if hm_contains (rt_active rt) i then
            (sh, rt, respond_error i (duplicate_id_error i) w)
          else if is_reserved_method_name method
              \<and> \<not> is_defined_reserved_method method (rp_effective_minor remote) then
            (sh, rt, respond_error i (reserved_method_error method (rp_effective_minor remote)) w)
          else case hm_get (sh_handlers sh) method of
            None \<Rightarrow> (sh, rt, respond_error i (no_handler_error method) w)
          | Some (_, h) \<Rightarrow>
              let t = rt_next_task rt;
                  context = \<lparr>cc_id = i, cc_method = method, cc_cancel = t, cc_remote = remote\<rparr>
              in (sh\<lparr>sh_in_flight := sh_in_flight sh + 1\<rparr>,
                  rt\<lparr>rt_tasks := hm_insert t \<lparr>tk_handler = h, tk_params = params, tk_context = context\<rparr>
                                   (rt_tasks rt),
                     rt_by_task_id := hm_insert t i (rt_by_task_id rt),
                     rt_active := hm_insert i \<lparr>ar_cancel = t, ar_method = method\<rparr> (rt_active rt),
                     rt_next_task := Suc t\<rparr>,
                  w))"

definition on_cancel :: "string \<Rightarrow> request_tracking \<Rightarrow> request_tracking" where
  "on_cancel i rt =
     (case hm_get (rt_active rt) i of
        Some r \<Rightarrow> rt\<lparr>rt_cancelled := ar_cancel r # rt_cancelled rt\<rparr>
      | None \<Rightarrow> rt)"

text \<open>A \<open>JoinError\<close>: aborted, or the payload of a panic.\<close>

datatype panic_payload = StaticStr string | OwnedString string | OtherPayload
datatype join_error = Aborted | Panicked panic_payload

definition panic_message :: "join_error \<Rightarrow> string" where
  "panic_message e =
     (case e of
        Aborted \<Rightarrow> ''The handler task was aborted before it could settle.''
      | Panicked (StaticStr m) \<Rightarrow> m
      | Panicked (OwnedString m) \<Rightarrow> m
      | Panicked OtherPayload \<Rightarrow> ''The handler panicked.'')"

definition respond_result :: "serde_json \<Rightarrow> shared \<Rightarrow> string \<Rightarrow> string \<Rightarrow> json \<Rightarrow> writer \<Rightarrow> writer" where
  "respond_result S sh method i v w =
     (let f = Res \<lparr>res_id = i, res_result = v\<rparr> in
      case assert_fits S sh f (''The result of '' @ quoted method) of
        Inr _ \<Rightarrow> enqueue f w
      | Inl error \<Rightarrow> respond_error i error w)"

definition on_handler_settled :: "serde_json \<Rightarrow> nat \<Rightarrow> join_error + handler_outcome
    \<Rightarrow> shared \<times> request_tracking \<times> writer \<Rightarrow> shared \<times> request_tracking \<times> writer" where
  "on_handler_settled S t settled st =
     (case st of (sh, rt, w) \<Rightarrow>
      let outcome = (case settled of
                       Inr outcome \<Rightarrow> outcome
                     | Inl je \<Rightarrow> Inl (remote_error_new code_INTERNAL (panic_message je)));
          sh = sh\<lparr>sh_in_flight := sh_in_flight sh - 1\<rparr>
      in case hm_get (rt_by_task_id rt) t of
           None \<Rightarrow> (sh, rt, w)
         | Some i \<Rightarrow>
             let rt = rt\<lparr>rt_by_task_id := hm_remove t (rt_by_task_id rt)\<rparr> in
             case hm_get (rt_active rt) i of
               None \<Rightarrow> (sh, rt, w)
             | Some a \<Rightarrow>
                 let rt = rt\<lparr>rt_active := hm_remove i (rt_active rt)\<rparr> in
                 case outcome of
                   Inr v \<Rightarrow> (sh, rt, respond_result S sh (ar_method a) i v w)
                 | Inl error \<Rightarrow> (sh, rt, respond_error i error w))"

section \<open>The driver's state\<close>

record pending_request =
  pr_method :: string
  pr_reply :: reply_ref

text \<open>What a caller's reply receiver yields: a result, or the error of a sender that was dropped.\<close>

datatype reply_event = Replied "remote_error + json" | SenderDropped

record driver =
  dr_handshake_timeout :: duration
  dr_pending :: "(string, pending_request) hmap"
  dr_tracking :: request_tracking
  dr_liveness_interval :: "duration option"
  dr_liveness :: bool
  dr_awaiting_pong :: bool

text \<open>
  A whole session: what is shared, the driver's own fields, its writer, what reply receivers have been
  given so far, the hello handed to the port, the close the port was told of, and the next reply name.
  \<open>ss_arrived\<close> logs the ids of the request frames routed so far; no operation reads it.
\<close>

record session =
  ss_shared :: shared
  ss_driver :: driver
  ss_writer :: writer
  ss_replies :: "(reply_ref \<times> reply_event) list"
  ss_hello :: "hello option"
  ss_port_close :: "(u16 \<times> string option) option"
  ss_next_reply :: reply_ref
  ss_arrived :: "string list"

datatype teardown =
    TLocal u16 "string option"
  | TPeerFrame u16 "string option"
  | TPort port_closure

section \<open>Opening a session\<close>

definition register_all :: "(string \<times> handler_ref) list \<Rightarrow> shared \<Rightarrow> shared" where
  "register_all hs sh = fold (\<lambda>(m, h) sh. fst (register_handler m h sh)) hs sh"

definition session_open :: "nat option \<Rightarrow> session_options \<Rightarrow> string + session" where
  "session_open port_max_frame_bytes options =
     and_then (case so_max_frame_bytes options of
                 None \<Rightarrow> Inr None
               | Some m \<Rightarrow> and_then (check_max_frame_bytes m) (\<lambda>m. Inr (Some m)))
     (\<lambda>session_ceiling.
     and_then (case port_max_frame_bytes of
                 None \<Rightarrow> Inr None
               | Some m \<Rightarrow> and_then (check_at_least ''port max_frame_bytes'' m MIN_MAX_FRAME_BYTES)
                              (\<lambda>m. Inr (Some m)))
     (\<lambda>port_ceiling.
     let local_max_frame_bytes =
           (case (session_ceiling, port_ceiling) of
              (Some s, Some p) \<Rightarrow> min s p
            | (Some only, None) \<Rightarrow> only
            | (None, Some only) \<Rightarrow> only
            | (None, None) \<Rightarrow> DEFAULT_MAX_FRAME_BYTES)
     in
     and_then (check_at_least ''max_in_flight'' (so_max_in_flight options) MIN_OPEN_IN_FLIGHT)
     (\<lambda>max_in_flight.
     and_then (check_at_least ''max_stream_keys'' (so_max_stream_keys options) MIN_OPEN_STREAM_KEYS)
     (\<lambda>max_stream_keys.
     Inr \<lparr>ss_shared = register_all (so_handlers options)
            \<lparr>sh_local_peer = so_peer options, sh_local_protocol = so_protocol options,
             sh_local_capabilities = so_capabilities options,
             sh_local_max_frame_bytes = local_max_frame_bytes, sh_max_in_flight = max_in_flight,
             sh_max_stream_keys = max_stream_keys, sh_state = Handshaking, sh_remote = None,
             sh_ready = None, sh_closure = None, sh_commands = unbounded_channel,
             sh_request_id_prefix = so_request_id_prefix options, sh_request_sequence = 0,
             sh_in_flight = 0, sh_handlers = [], sh_next_generation = 0,
             sh_handler_grace = so_handler_grace options, sh_event_sequences = [],
             sh_event_subscribers = [], sh_pong_subscribers = [], sh_event_channels = [],
             sh_pong_channels = []\<rparr>,
          ss_driver =
            \<lparr>dr_handshake_timeout = so_handshake_timeout options, dr_pending = [],
             dr_tracking = request_tracking_default,
             dr_liveness_interval =
               (case so_liveness_interval options of
                  Some period \<Rightarrow> if period = 0 then None else Some period
                | None \<Rightarrow> None),
             dr_liveness = False, dr_awaiting_pong = False\<rparr>,
          ss_writer = writer_spawn, ss_replies = [], ss_hello = None, ss_port_close = None,
          ss_next_reply = 0, ss_arrived = []\<rparr>))))"

section \<open>The handlers of the loop's branches\<close>

definition build_hello :: "shared \<Rightarrow> hello" where
  "build_hello sh =
     (let announced =
            \<lparr>lim_max_frame_bytes =
               (if sh_local_max_frame_bytes sh < DEFAULT_MAX_FRAME_BYTES
                then Some (of_nat (sh_local_max_frame_bytes sh)) else None),
             lim_max_in_flight =
               (if sh_max_in_flight sh \<noteq> DEFAULT_MAX_IN_FLIGHT
                then Some (of_nat (sh_max_in_flight sh)) else None)\<rparr>
      in \<lparr>hello_protocol = sh_local_protocol sh, hello_peer = sh_local_peer sh,
          hello_capabilities = sh_local_capabilities sh,
          hello_limits = (if announced = limits_default then None else Some announced)\<rparr>)"

definition on_send_failure :: "send_outcome option \<Rightarrow> teardown" where
  "on_send_failure outcome =
     TLocal close_RELEASED (Some
       (case outcome of
          Some (Refused error) \<Rightarrow> ''the transport refused a frame: '' @ codec_error_display error
        | Some _ \<Rightarrow> ''the transport is gone''
        | None \<Rightarrow> ''the writer task ended''))"

definition refused_hello :: "send_outcome \<Rightarrow> remote_error option" where
  "refused_hello outcome =
     (case outcome of
        Sent \<Rightarrow> None
      | Refused error \<Rightarrow> Some (remote_error_new code_UNAVAILABLE
          (''The transport refused the hello: '' @ codec_error_display error))
      | SendClosed \<Rightarrow> Some (remote_error_new code_UNAVAILABLE
          (''The transport refused the hello: '' @ ''the port is already closed'')))"

definition mismatch_error :: "shared \<Rightarrow> hello \<Rightarrow> u16 \<Rightarrow> remote_error" where
  "mismatch_error sh h code =
     with_detail (with_detail (with_detail
       (remote_error_new code_PROTOCOL_MISMATCH
         (''Peer '' @ quoted (peer_name (hello_peer h)) @ '' speaks wire major ''
          @ show_nat (unat (pv_major (hello_protocol h))) @ ''; this session speaks major ''
          @ show_nat (unat (pv_major (sh_local_protocol sh))) @ ''.''))
       ''local_major'' (json_u32 (pv_major (sh_local_protocol sh))))
       ''remote_major'' (json_u32 (pv_major (hello_protocol h))))
       ''close_code'' (json_u16 code)"

definition on_hello :: "hello \<Rightarrow> shared \<Rightarrow> shared \<times> teardown option" where
  "on_hello h sh =
     (if sh_state sh \<noteq> Handshaking then
        (sh, Some (TLocal close_PROTOCOL_ERROR (Some ''duplicate hello'')))
      else case negotiate (sh_local_protocol sh) (hello_protocol h) of
        Mismatch code \<Rightarrow>
          (settle_ready (Inl (mismatch_error sh h code)) sh,
           Some (TLocal code (Some ''protocol version unsupported'')))
      | Compatible minor \<Rightarrow>
          let remote = \<lparr>rp_peer = hello_peer h, rp_protocol = hello_protocol h,
                        rp_capabilities = hello_capabilities h, rp_limits = hello_limits h,
                        rp_effective_minor = minor\<rparr>
          in (settle_ready (Inr remote) (sh\<lparr>sh_state := Ready, sh_remote := Some remote\<rparr>), None))"

definition on_response :: "string \<Rightarrow> remote_error + json \<Rightarrow> (string, pending_request) hmap
    \<Rightarrow> (string, pending_request) hmap \<times> (reply_ref \<times> reply_event) list" where
  "on_response i result pending =
     (case hm_get pending i of
        Some req \<Rightarrow> (hm_remove i pending, [(pr_reply req, Replied result)])
      | None \<Rightarrow> (pending, []))"

definition with_dispatch :: "(shared \<times> request_tracking \<times> writer \<Rightarrow> shared \<times> request_tracking \<times> writer)
    \<Rightarrow> session \<Rightarrow> session" where
  "with_dispatch f s =
     (case f (ss_shared s, dr_tracking (ss_driver s), ss_writer s) of
        (sh, rt, w) \<Rightarrow>
          s\<lparr>ss_shared := sh, ss_driver := (ss_driver s)\<lparr>dr_tracking := rt\<rparr>, ss_writer := w\<rparr>)"

definition settle_pending :: "string \<Rightarrow> remote_error + json \<Rightarrow> session \<Rightarrow> session" where
  "settle_pending i result s =
     (case on_response i result (dr_pending (ss_driver s)) of
        (pending, events) \<Rightarrow>
          s\<lparr>ss_driver := (ss_driver s)\<lparr>dr_pending := pending\<rparr>, ss_replies := ss_replies s @ events\<rparr>)"

definition payload_error :: "error_payload \<Rightarrow> remote_error" where
  "payload_error p =
     (let error = remote_error_new (ep_code p) (ep_message p)
      in case ep_details p of Some details \<Rightarrow> with_details error details | None \<Rightarrow> error)"

definition on_frame :: "frame \<Rightarrow> session \<Rightarrow> session \<times> teardown option" where
  "on_frame f s =
     (case f of
        Hello h \<Rightarrow> (case on_hello h (ss_shared s) of (sh, reason) \<Rightarrow> (s\<lparr>ss_shared := sh\<rparr>, reason))
      | Close c \<Rightarrow> (s, Some (TPeerFrame (close_code c) (close_reason c)))
      | Req r \<Rightarrow> ((with_dispatch (on_request r) s)\<lparr>ss_arrived := ss_arrived s @ [req_id r]\<rparr>, None)
      | Res r \<Rightarrow> (settle_pending (res_id r) (Inr (res_result r)) s, None)
      | Err e \<Rightarrow> (settle_pending (err_id e) (Inl (payload_error (err_error e))) s, None)
      | Evt e \<Rightarrow> (s\<lparr>ss_shared := fan_out_event e (ss_shared s)\<rparr>, None)
      | Cancel c \<Rightarrow>
          (s\<lparr>ss_driver := (ss_driver s)\<lparr>dr_tracking := on_cancel (cancel_id c) (dr_tracking (ss_driver s))\<rparr>\<rparr>,
           None)
      | Ping \<Rightarrow> (s\<lparr>ss_writer := enqueue Pong (ss_writer s)\<rparr>, None)
      | Pong \<Rightarrow>
          (s\<lparr>ss_driver := (ss_driver s)\<lparr>dr_awaiting_pong := False\<rparr>,
             ss_shared := fan_out_pong (ss_shared s)\<rparr>, None))"

text \<open>Replacing or removing a pending entry drops the reply sender it held.\<close>

definition dropped_reply :: "string \<Rightarrow> (string, pending_request) hmap \<Rightarrow> (reply_ref \<times> reply_event) list" where
  "dropped_reply i pending =
     (case hm_get pending i of Some req \<Rightarrow> [(pr_reply req, SenderDropped)] | None \<Rightarrow> [])"

definition on_command :: "command \<Rightarrow> session \<Rightarrow> session \<times> teardown option" where
  "on_command c s =
     (case c of
        CmdClose code reason \<Rightarrow> (s, Some (TLocal code reason))
      | CmdRequest f reply \<Rightarrow>
          let pending = dr_pending (ss_driver s);
              s = (case f of
                     Req r \<Rightarrow>
                       s\<lparr>ss_driver := (ss_driver s)
                           \<lparr>dr_pending := hm_insert (req_id r)
                              \<lparr>pr_method = req_method r, pr_reply = reply\<rparr> pending\<rparr>,
                         ss_replies := ss_replies s @ dropped_reply (req_id r) pending\<rparr>
                   | _ \<Rightarrow> s\<lparr>ss_replies := ss_replies s @ [(reply, SenderDropped)]\<rparr>)
          in (s\<lparr>ss_writer := enqueue f (ss_writer s)\<rparr>, None)
      | CmdCancel i forget \<Rightarrow>
          let pending = dr_pending (ss_driver s);
              s = (if \<not> forget then
                     s\<lparr>ss_driver := (ss_driver s)\<lparr>dr_pending := hm_remove i pending\<rparr>,
                       ss_replies := ss_replies s @ dropped_reply i pending\<rparr>
                   else s)
          in (s\<lparr>ss_writer := enqueue (Cancel \<lparr>cancel_id = i\<rparr>) (ss_writer s)\<rparr>, None)
      | CmdSend f \<Rightarrow> (s\<lparr>ss_writer := enqueue f (ss_writer s)\<rparr>, None))"

definition on_liveness_tick :: "session \<Rightarrow> session \<times> teardown option" where
  "on_liveness_tick s =
     (if dr_awaiting_pong (ss_driver s) then
        (s, Some (TLocal close_RELEASED (Some ''liveness timeout'')))
      else
        (s\<lparr>ss_driver := (ss_driver s)\<lparr>dr_awaiting_pong := True\<rparr>,
           ss_writer := enqueue Ping (ss_writer s)\<rparr>, None))"

definition on_handshake_timeout :: "duration \<Rightarrow> shared \<Rightarrow> shared \<times> teardown" where
  "on_handshake_timeout timeout sh =
     (let millis = u64_saturating (as_millis timeout)
      in (settle_ready (Inl (with_detail
            (remote_error_new code_UNAVAILABLE
              (''The peer did not send hello within '' @ show_nat (unat millis) @ ''ms.''))
            ''timeout_ms'' (json_u64 millis))) sh,
          TLocal close_PROTOCOL_ERROR (Some HANDSHAKE_TIMEOUT_REASON)))"

section \<open>The loop\<close>

text \<open>The hello's preflight and its send, of which the port reports \<open>outcome\<close>.\<close>

definition run_hello :: "serde_json \<Rightarrow> send_outcome \<Rightarrow> session \<Rightarrow> session \<times> teardown option" where
  "run_hello S outcome s =
     (let h = build_hello (ss_shared s);
          checked = assert_fits S (ss_shared s) (Hello h) ''The hello'';
          refusal = (case checked of Inl error \<Rightarrow> Some error | Inr _ \<Rightarrow> refused_hello outcome);
          s = (if is_ok checked then s\<lparr>ss_hello := Some h\<rparr> else s)
      in case refusal of
           Some error \<Rightarrow>
             (s\<lparr>ss_shared := settle_ready (Inl error) (ss_shared s)\<rparr>,
              Some (TLocal close_RELEASED (Some ''hello could not be sent'')))
         | None \<Rightarrow> (s, None))"

record readiness =
  rd_timeout :: bool
  rd_tick :: bool
  rd_settled :: "(nat \<times> (join_error + handler_outcome)) option"
  rd_inbound :: "inbound option poll"

definition build_liveness :: "session \<Rightarrow> session" where
  "build_liveness s =
     (if \<not> dr_liveness (ss_driver s) \<and> sh_state (ss_shared s) = Ready
         \<and> dr_liveness_interval (ss_driver s) \<noteq> None
      then s\<lparr>ss_driver := (ss_driver s)\<lparr>dr_liveness := True\<rparr>\<rparr> else s)"

text \<open>\<open>join_next_with_id\<close> yields a task of the set and removes it.\<close>

definition join_next :: "nat \<Rightarrow> request_tracking \<Rightarrow> request_tracking" where
  "join_next t rt = rt\<lparr>rt_tasks := hm_remove t (rt_tasks rt)\<rparr>"

definition settled_ready :: "readiness \<Rightarrow> session \<Rightarrow> (nat \<times> (join_error + handler_outcome)) option" where
  "settled_ready rd s =
     (case rd_settled rd of
        Some (t, out) \<Rightarrow>
          if hm_contains (rt_tasks (dr_tracking (ss_driver s))) t then Some (t, out) else None
      | None \<Rightarrow> None)"

definition on_settled :: "serde_json \<Rightarrow> nat \<Rightarrow> join_error + handler_outcome \<Rightarrow> session \<Rightarrow> session" where
  "on_settled S t out s =
     with_dispatch (\<lambda>(sh, rt, w). on_handler_settled S t out (sh, join_next t rt, w)) s"

definition on_inbound :: "inbound option \<Rightarrow> session \<Rightarrow> session \<times> teardown option" where
  "on_inbound item s =
     (case item of
        Some (InFrame f) \<Rightarrow> on_frame f s
      | Some (InClosed closure) \<Rightarrow> (s, Some (TPort closure))
      | None \<Rightarrow> (s, Some (TPort (PortClosed None None))))"

definition take_command :: "session \<Rightarrow> command list \<Rightarrow> session" where
  "take_command s rest =
     s\<lparr>ss_shared := (ss_shared s)\<lparr>sh_commands := (sh_commands (ss_shared s))\<lparr>ch_queue := rest\<rparr>\<rparr>\<rparr>"

text \<open>
  One turn of the \<open>biased\<close> \<open>select!\<close>: the first ready branch in source order runs.  With no branch
  ready the turn leaves the session as it is.
\<close>

definition loop_turn :: "serde_json \<Rightarrow> readiness \<Rightarrow> session \<Rightarrow> session \<times> teardown option" where
  "loop_turn S rd s =
     (let s = build_liveness s in
      case send_failed (ss_writer s) of
        Some outcome \<Rightarrow> (s, Some (on_send_failure outcome))
      | None \<Rightarrow>
      if rd_timeout rd \<and> sh_state (ss_shared s) = Handshaking then
        (case on_handshake_timeout (dr_handshake_timeout (ss_driver s)) (ss_shared s) of
           (sh, reason) \<Rightarrow> (s\<lparr>ss_shared := sh\<rparr>, Some reason))
      else if rd_tick rd \<and> dr_liveness (ss_driver s) then on_liveness_tick s
      else case settled_ready rd s of
        Some (t, out) \<Rightarrow> (on_settled S t out s, None)
      | None \<Rightarrow>
      case ch_queue (sh_commands (ss_shared s)) of
        c # rest \<Rightarrow> on_command c (take_command s rest)
      | [] \<Rightarrow>
      case rd_inbound rd of
        Polled item \<Rightarrow> on_inbound item s
      | Pending \<Rightarrow> (s, None))"

section \<open>Teardown\<close>

definition teardown_parts :: "teardown \<Rightarrow> u16 \<times> string option \<times> codec_error option \<times> bool" where
  "teardown_parts reason =
     (case reason of
        TLocal code text \<Rightarrow> (code, text, None, True)
      | TPeerFrame code text \<Rightarrow> (code, text, None, False)
      | TPort (PortClosed code text) \<Rightarrow>
          ((case code of Some c \<Rightarrow> c | None \<Rightarrow> close_RELEASED), text, None, False)
      | TPort (ProtocolError error code) \<Rightarrow> (code, Some (codec_error_display error), Some error, False))"

definition why_text :: "string option \<Rightarrow> string" where
  "why_text reason = (case reason of Some text \<Rightarrow> '': '' @ text | None \<Rightarrow> [])"

definition closed_ready_error :: "u16 \<Rightarrow> string option \<Rightarrow> remote_error" where
  "closed_ready_error code reason =
     with_detail
       (remote_error_new
         (if code = close_PROTOCOL_MISMATCH then code_PROTOCOL_MISMATCH else code_UNAVAILABLE)
         (''The session closed before the handshake completed ('' @ show_nat (unat code)
          @ why_text reason @ '').''))
       ''close_code'' (json_u16 code)"

definition closed_request_error :: "u16 \<Rightarrow> string option \<Rightarrow> string \<Rightarrow> string \<Rightarrow> remote_error" where
  "closed_request_error code reason method i =
     with_detail (with_detail (with_detail
       (remote_error_new code_UNAVAILABLE
         (''Request '' @ quoted method @ '' cannot complete: the session is closed (''
          @ show_nat (unat code) @ why_text reason @ '').''))
       ''method'' (JString method))
       ''id'' (JString i))
       ''close_code'' (json_u16 code)"

text \<open>Clearing a subscriber list drops its sending ends; what is queued stays readable.\<close>

definition drop_senders :: "nat list \<Rightarrow> (nat, 'm channel) hmap \<Rightarrow> (nat, 'm channel) hmap" where
  "drop_senders ns heap =
     map (\<lambda>(n, ch). (n, if n \<in> set ns then ch\<lparr>ch_sender := False\<rparr> else ch)) heap"

definition clear_subscribers :: "shared \<Rightarrow> shared" where
  "clear_subscribers sh =
     sh\<lparr>sh_event_sequences := [],
        sh_event_channels := drop_senders (sh_event_subscribers sh) (sh_event_channels sh),
        sh_event_subscribers := [],
        sh_pong_channels := drop_senders (sh_pong_subscribers sh) (sh_pong_channels sh),
        sh_pong_subscribers := []\<rparr>"

definition pending_failures :: "u16 \<Rightarrow> string option \<Rightarrow> (string, pending_request) hmap
    \<Rightarrow> (reply_ref \<times> reply_event) list" where
  "pending_failures code reason pending =
     map (\<lambda>(i, req). (pr_reply req, Replied (Inl (closed_request_error code reason (pr_method req) i))))
       pending"

text \<open>The requests still in the command inbox when the driver's future ends lose their reply sender.\<close>

fun inbox_drops :: "command list \<Rightarrow> (reply_ref \<times> reply_event) list" where
  "inbox_drops [] = []"
| "inbox_drops (CmdRequest f reply # cs) = (reply, SenderDropped) # inbox_drops cs"
| "inbox_drops (_ # cs) = inbox_drops cs"

definition drop_inbox :: "session \<Rightarrow> session" where
  "drop_inbox s =
     s\<lparr>ss_shared := (ss_shared s)\<lparr>sh_commands := (sh_commands (ss_shared s))\<lparr>ch_queue := [], ch_receiver := False\<rparr>\<rparr>,
       ss_replies := ss_replies s @ inbox_drops (ch_queue (sh_commands (ss_shared s)))\<rparr>"

text \<open>
  \<open>joined\<close> are the tasks that finish within the grace period.
\<close>

definition teardown_run :: "(nat \<Rightarrow> send_outcome) \<Rightarrow> nat list \<Rightarrow> teardown \<Rightarrow> session
    \<Rightarrow> session \<times> session_closure" where
  "teardown_run port joined reason s =
     (case teardown_parts reason of
        (code, text, error, close_port) \<Rightarrow>
          let fatal = is_fatal_close_code code;
              s = s\<lparr>ss_shared := (ss_shared s)\<lparr>sh_state := Closed\<rparr>\<rparr>;
              s = s\<lparr>ss_writer := shut_down port (ss_writer s)\<rparr>;
              s = (if close_port then s\<lparr>ss_port_close := Some (code, text)\<rparr> else s);
              s = s\<lparr>ss_shared := settle_ready (Inl (closed_ready_error code text)) (ss_shared s)\<rparr>;
              s = s\<lparr>ss_replies := ss_replies s @ pending_failures code text (dr_pending (ss_driver s)),
                    ss_driver := (ss_driver s)\<lparr>dr_pending := []\<rparr>\<rparr>;
              rt = dr_tracking (ss_driver s);
              rt = rt\<lparr>rt_cancelled := map (ar_cancel \<circ> snd) (rt_active rt) @ rt_cancelled rt,
                      rt_active := []\<rparr>;
              s = s\<lparr>ss_shared := clear_subscribers (ss_shared s)\<rparr>;
              rt = fold join_next joined rt;
              closure = \<lparr>sc_code = code, sc_reason = text, sc_fatal = fatal, sc_error = error,
                         sc_unfinished_handlers = length (rt_tasks rt)\<rparr>;
              s = s\<lparr>ss_driver := (ss_driver s)\<lparr>dr_tracking := rt\<rparr>,
                    ss_shared := (ss_shared s)\<lparr>sh_closure := Some closure\<rparr>\<rparr>
          in (drop_inbox s, closure))"

end
