(* ===== verification/Session_Handle.thy ===== *)
theory Session_Handle
  imports Session_Driver
begin

text \<open>
  The \<open>Session\<close> handle (\<open>session/handle.rs\<close>): requests, events, subscriptions and closing.  A handle's
  call is one step on the session's state; \<open>request_with\<close> is its start, the turns of its \<open>select!\<close> loop
  and the drop of its guard.  The last section is the step relation of a running session, with every
  handle call, every turn of the driver and of the writer, and teardown, in any order.
\<close>

section \<open>Reading the session\<close>

text \<open>\<open>ready\<close> and \<open>closed\<close> wait until the watched value is set: \<open>Pending\<close> until then.\<close>

definition session_ready :: "shared \<Rightarrow> (remote_error + remote_peer) poll" where
  "session_ready sh = (case sh_ready sh of Some outcome \<Rightarrow> Polled outcome | None \<Rightarrow> Pending)"

definition session_closed :: "shared \<Rightarrow> session_closure poll" where
  "session_closed sh = (case sh_closure sh of Some c \<Rightarrow> Polled c | None \<Rightarrow> Pending)"

definition session_remote :: "shared \<Rightarrow> remote_error + remote_peer" where
  "session_remote sh =
     (case sh_remote sh of
        Some remote \<Rightarrow> Inr remote
      | None \<Rightarrow> Inl (remote_error_new code_UNAVAILABLE
          ''The session handshake has not completed; expected a ready session, received one still handshaking.''))"

section \<open>Requests\<close>

record request_options =
  ro_cancel :: bool
  ro_timeout :: "duration option"

text \<open>The call in progress: its guard is armed until the loop yields a result.\<close>

record request_call =
  rc_id :: string
  rc_method :: string
  rc_reply :: reply_ref
  rc_options :: request_options
  rc_cancel_sent :: bool
  rc_armed :: bool

definition unavailable :: "string \<Rightarrow> shared \<Rightarrow> remote_error" where
  "unavailable method sh =
     (let why = (case sh_closure sh of
                   Some c \<Rightarrow> '' (closed with '' @ show_nat (unat (sc_code c))
                              @ why_text (sc_reason c) @ '')''
                 | None \<Rightarrow> []);
          error = with_detail
            (remote_error_new code_UNAVAILABLE
              (''Request '' @ quoted method @ '' cannot complete: the session is closed'' @ why @ ''.''))
            ''method'' (JString method)
      in case sh_closure sh of
           Some c \<Rightarrow> with_detail error ''close_code'' (json_u16 (sc_code c))
         | None \<Rightarrow> error)"

definition invalid_method_error :: "string \<Rightarrow> remote_error" where
  "invalid_method_error method =
     remote_error_new code_INVALID_REQUEST
       (''Method '' @ quoted method
        @ '' is not a valid, unreserved method name; expected two or more dot-separated lowercase segments outside rpc.'')"

definition minor_error :: "string \<Rightarrow> u32 \<Rightarrow> remote_error" where
  "minor_error method minor =
     with_detail (with_detail
       (remote_error_new code_INVALID_REQUEST
         (''Method '' @ quoted method @ '' is defined from wire minor ''
          @ show_nat (unat RPC_DISCOVER_MINOR) @ ''; this session negotiated minor ''
          @ show_nat (unat minor) @ ''.''))
       ''method'' (JString method))
       ''effectiveMinor'' (json_u32 minor)"

text \<open>
  From the call to the command being sent.  \<open>Pending\<close> while the handshake is; otherwise the error
  returned, or the call that now waits for its reply.
\<close>

definition request_start :: "serde_json \<Rightarrow> string \<Rightarrow> json \<Rightarrow> request_options \<Rightarrow> session
    \<Rightarrow> session \<times> (remote_error + request_call) poll" where
  "request_start S method params options s =
     (let sh = ss_shared s; reserved = is_reserved_method_name method in
      if \<not> is_valid_method_name method
         \<or> (reserved \<and> \<not> is_defined_reserved_method method (ucast PROTOCOL_MINOR)) then
        (s, Polled (Inl (invalid_method_error method)))
      else case session_ready sh of
        Pending \<Rightarrow> (s, Pending)
      | Polled (Inl error) \<Rightarrow> (s, Polled (Inl error))
      | Polled (Inr remote) \<Rightarrow>
          if reserved \<and> \<not> is_defined_reserved_method method (rp_effective_minor remote) then
            (s, Polled (Inl (minor_error method (rp_effective_minor remote))))
          else if sh_state sh = Closed then (s, Polled (Inl (unavailable method sh)))
          else
            case next_request_id sh of
              (sh, i) \<Rightarrow>
                let f = Req \<lparr>req_id = i, req_method = method, req_params = params\<rparr>;
                    reply = ss_next_reply s
                in case assert_fits S sh f (''Request '' @ quoted method) of
                     Inl error \<Rightarrow> (s\<lparr>ss_shared := sh\<rparr>, Polled (Inl error))
                   | Inr _ \<Rightarrow>
                       (case send_command (CmdRequest f reply) sh of
                          (sh, True) \<Rightarrow>
                            (s\<lparr>ss_shared := sh, ss_next_reply := Suc reply\<rparr>,
                             Polled (Inr \<lparr>rc_id = i, rc_method = method, rc_reply = reply,
                                         rc_options = options, rc_cancel_sent = False, rc_armed = True\<rparr>))
                        | (sh, False) \<Rightarrow>
                            (s\<lparr>ss_shared := sh\<rparr>,
                             Polled (Inl (remote_error_new code_UNAVAILABLE
                               (''Request '' @ quoted method
                                @ '' could not be sent: the session driver is gone.''))))))"

definition reply_of :: "reply_ref \<Rightarrow> session \<Rightarrow> reply_event option" where
  "reply_of r s = map_of (ss_replies s) r"

definition send_cancel :: "string \<Rightarrow> bool \<Rightarrow> session \<Rightarrow> session" where
  "send_cancel i forget s = s\<lparr>ss_shared := fst (send_command (CmdCancel i forget) (ss_shared s))\<rparr>"

definition timeout_error :: "string \<Rightarrow> duration option \<Rightarrow> remote_error" where
  "timeout_error method timeout =
     (let timeout_ms = (case timeout of Some d \<Rightarrow> as_millis d | None \<Rightarrow> 0)
      in with_detail (with_detail
           (remote_error_new code_TIMEOUT
             (''Request '' @ quoted method @ '' timed out after '' @ show_nat timeout_ms @ ''ms.''))
           ''method'' (JString method))
           ''timeout_ms'' (json_u64 (u64_saturating timeout_ms)))"

text \<open>
  One turn of the call's \<open>biased\<close> loop: \<open>cancelled\<close> says the caller's token has been cancelled,
  \<open>elapsed\<close> that the deadline has passed.  A result disarms the guard.
\<close>

definition request_turn :: "bool \<Rightarrow> bool \<Rightarrow> request_call \<Rightarrow> session
    \<Rightarrow> session \<times> request_call \<times> (remote_error + json) option" where
  "request_turn cancelled elapsed call s =
     (case reply_of (rc_reply call) s of
        Some (Replied result) \<Rightarrow> (s, call\<lparr>rc_armed := False\<rparr>, Some result)
      | Some SenderDropped \<Rightarrow>
          (s, call\<lparr>rc_armed := False\<rparr>, Some (Inl (unavailable (rc_method call) (ss_shared s))))
      | None \<Rightarrow>
          if ro_cancel (rc_options call) \<and> cancelled \<and> \<not> rc_cancel_sent call then
            (send_cancel (rc_id call) True s, call\<lparr>rc_cancel_sent := True\<rparr>, None)
          else if ro_timeout (rc_options call) \<noteq> None \<and> elapsed then
            (send_cancel (rc_id call) False s, call\<lparr>rc_armed := False\<rparr>,
             Some (Inl (timeout_error (rc_method call) (ro_timeout (rc_options call)))))
          else (s, call, None))"

definition cancel_guard_drop :: "request_call \<Rightarrow> session \<Rightarrow> session" where
  "cancel_guard_drop call s = (if rc_armed call then send_cancel (rc_id call) False s else s)"

section \<open>Events, subscriptions and closing\<close>

record event_input =
  ei_topic :: string
  ei_payload :: json
  ei_stream_id :: "string option"
  ei_end :: bool

definition stream_key :: "string option \<Rightarrow> string \<Rightarrow> string" where
  "stream_key stream_id topic = (case stream_id of Some i \<Rightarrow> i | None \<Rightarrow> topic)"

definition stream_key_error :: "string \<Rightarrow> nat \<Rightarrow> remote_error" where
  "stream_key_error key limit =
     with_detail (with_detail (with_detail
       (remote_error_new code_UNAVAILABLE
         (''Stream key '' @ quoted key @ '' would be one past the '' @ show_nat limit
          @ '' this session emits on at once. End a stream before starting another.''))
       ''kind'' (JString STREAM_KEY_LIMIT_KIND))
       ''key'' (JString key))
       ''limit'' (json_u64 (u64_saturating limit))"

definition emit :: "serde_json \<Rightarrow> event_input \<Rightarrow> shared \<Rightarrow> shared \<times> (remote_error + bool)" where
  "emit S ei sh =
     (if sh_state sh \<noteq> Ready then (sh, Inr False)
      else
        let key = stream_key (ei_stream_id ei) (ei_topic ei);
            sequences = sh_event_sequences sh;
            limit = sh_max_stream_keys sh
        in if \<not> hm_contains sequences key \<and> length sequences \<ge> limit then
             (sh, Inl (stream_key_error key limit))
           else
             let seq = (case hm_get sequences key of Some n \<Rightarrow> n | None \<Rightarrow> 0);
                 f = Evt \<lparr>evt_topic = ei_topic ei, evt_seq = seq, evt_stream_id = ei_stream_id ei,
                          evt_payload = ei_payload ei, evt_end = (if ei_end ei then Some End else None)\<rparr>
             in case assert_fits S sh f (''Event '' @ quoted (ei_topic ei)) of
                  Inl error \<Rightarrow> (sh, Inl error)
                | Inr _ \<Rightarrow>
                    (case send_command (CmdSend f) sh of
                       (sh, False) \<Rightarrow> (sh, Inr False)
                     | (sh, True) \<Rightarrow>
                         if ei_end ei
                         then (sh\<lparr>sh_event_sequences := hm_remove key sequences\<rparr>, Inr True)
                         else (sh\<lparr>sh_event_sequences := hm_insert key (seq + 1) sequences\<rparr>, Inr True)))"

definition close_now :: "u16 \<Rightarrow> string option \<Rightarrow> shared \<Rightarrow> shared" where
  "close_now code reason sh = fst (send_command (CmdClose code reason) sh)"

definition session_ping :: "shared \<Rightarrow> shared" where
  "session_ping sh = fst (send_command (CmdSend Ping) sh)"

definition events_recv :: "nat \<Rightarrow> shared \<Rightarrow> shared \<times> event option poll" where
  "events_recv n sh =
     (case hm_get (sh_event_channels sh) n of
        None \<Rightarrow> (sh, Polled None)
      | Some ch \<Rightarrow>
          (case ch_recv ch of
             (ch', item) \<Rightarrow> (sh\<lparr>sh_event_channels := hm_insert n ch' (sh_event_channels sh)\<rparr>, item)))"

definition events_drop :: "nat \<Rightarrow> shared \<Rightarrow> shared" where
  "events_drop n sh =
     (case hm_get (sh_event_channels sh) n of
        None \<Rightarrow> sh
      | Some ch \<Rightarrow> sh\<lparr>sh_event_channels := hm_insert n (ch\<lparr>ch_receiver := False\<rparr>) (sh_event_channels sh)\<rparr>)"

definition pongs_recv :: "nat \<Rightarrow> shared \<Rightarrow> shared \<times> unit option poll" where
  "pongs_recv n sh =
     (case hm_get (sh_pong_channels sh) n of
        None \<Rightarrow> (sh, Polled None)
      | Some ch \<Rightarrow>
          (case ch_recv ch of
             (ch', item) \<Rightarrow> (sh\<lparr>sh_pong_channels := hm_insert n ch' (sh_pong_channels sh)\<rparr>, item)))"

definition pongs_drop :: "nat \<Rightarrow> shared \<Rightarrow> shared" where
  "pongs_drop n sh =
     (case hm_get (sh_pong_channels sh) n of
        None \<Rightarrow> sh
      | Some ch \<Rightarrow> sh\<lparr>sh_pong_channels := hm_insert n (ch\<lparr>ch_receiver := False\<rparr>) (sh_pong_channels sh)\<rparr>)"

section \<open>A running session\<close>

datatype handle_op =
    HRequest string json request_options
  | HCancel string bool
  | HEmit event_input
  | HClose u16 "string option"
  | HPing
  | HHandle string handler_ref
  | HGuardDrop handler_guard
  | HEvents
  | HPongs
  | HEventsRecv nat
  | HEventsDrop nat
  | HPongsRecv nat
  | HPongsDrop nat

definition on_shared :: "(shared \<Rightarrow> shared) \<Rightarrow> session \<Rightarrow> session" where
  "on_shared f s = s\<lparr>ss_shared := f (ss_shared s)\<rparr>"

definition handle_call :: "serde_json \<Rightarrow> handle_op \<Rightarrow> session \<Rightarrow> session" where
  "handle_call S oper s =
     (case oper of
        HRequest method params options \<Rightarrow> fst (request_start S method params options s)
      | HCancel i forget \<Rightarrow> send_cancel i forget s
      | HEmit ei \<Rightarrow> on_shared (\<lambda>sh. fst (emit S ei sh)) s
      | HClose code reason \<Rightarrow> on_shared (close_now code reason) s
      | HPing \<Rightarrow> on_shared session_ping s
      | HHandle method h \<Rightarrow> on_shared (\<lambda>sh. fst (session_handle method h sh)) s
      | HGuardDrop g \<Rightarrow> on_shared (guard_drop g) s
      | HEvents \<Rightarrow> on_shared (\<lambda>sh. fst (subscribe_events sh)) s
      | HPongs \<Rightarrow> on_shared (\<lambda>sh. fst (subscribe_pongs sh)) s
      | HEventsRecv n \<Rightarrow> on_shared (\<lambda>sh. fst (events_recv n sh)) s
      | HEventsDrop n \<Rightarrow> on_shared (events_drop n) s
      | HPongsRecv n \<Rightarrow> on_shared (\<lambda>sh. fst (pongs_recv n sh)) s
      | HPongsDrop n \<Rightarrow> on_shared (pongs_drop n) s)"

datatype phase = Starting | Looping | Finished session_closure

inductive session_step :: "serde_json \<Rightarrow> (nat \<Rightarrow> send_outcome) \<Rightarrow> phase \<times> session \<Rightarrow> phase \<times> session \<Rightarrow> bool"
  for S :: serde_json and port :: "nat \<Rightarrow> send_outcome" where
  step_hello: "run_hello S outcome s = (s', None) \<Longrightarrow> session_step S port (Starting, s) (Looping, s')"
| step_refused: "run_hello S outcome s = (s1, Some reason) \<Longrightarrow>
    teardown_run port joined reason s1 = (s', closure) \<Longrightarrow>
    session_step S port (Starting, s) (Finished closure, s')"
| step_turn: "loop_turn S rd s = (s', None) \<Longrightarrow> session_step S port (Looping, s) (Looping, s')"
| step_break: "loop_turn S rd s = (s1, Some reason) \<Longrightarrow>
    teardown_run port joined reason s1 = (s', closure) \<Longrightarrow>
    session_step S port (Looping, s) (Finished closure, s')"
| step_writer: "session_step S port (Looping, s) (Looping, s\<lparr>ss_writer := writer_turn port (ss_writer s)\<rparr>)"
| step_handle: "session_step S port (ph, s) (ph, handle_call S oper s)"

inductive session_reachable :: "serde_json \<Rightarrow> (nat \<Rightarrow> send_outcome) \<Rightarrow> nat option \<Rightarrow> session_options
    \<Rightarrow> phase \<times> session \<Rightarrow> bool"
  for S :: serde_json and port :: "nat \<Rightarrow> send_outcome" and ceiling :: "nat option" and options :: session_options where
  reach_open: "session_open ceiling options = Inr s \<Longrightarrow> session_reachable S port ceiling options (Starting, s)"
| reach_step: "session_reachable S port ceiling options x \<Longrightarrow> session_step S port x y \<Longrightarrow>
    session_reachable S port ceiling options y"

inductive_cases session_stepE: "session_step S port (ph, s) (ph', s')"

end
