(* ===== verification/Session_Invariants.thy ===== *)
theory Session_Invariants
  imports Session_Handle
begin

text \<open>
  What holds of a session in every reachable state.  The locale \<open>session_invariant\<close> does the case
  analysis over the step relation once: an invariant \<open>I\<close> of the running session, \<open>B\<close> of the moment its
  loop breaks, and \<open>F\<close> of the finished session.  Each group below is one interpretation: the handshake,
  the bookkeeping of inbound requests, the conservation of outbound requests, and event sequencing.
\<close>

section \<open>Rule induction over a session, once\<close>

definition keeps :: "(session \<Rightarrow> bool) \<Rightarrow> (session \<Rightarrow> bool) \<Rightarrow> session \<times> teardown option \<Rightarrow> bool" where
  "keeps I B x = (case x of (s, None) \<Rightarrow> I s | (s, Some _) \<Rightarrow> B s)"

lemma keeps_simps [simp]: "keeps I B (s, None) = I s" "keeps I B (s, Some r) = B s"
  by (simp_all add: keeps_def)

text \<open>The frame a turn takes from the port: the last branch of the \<open>select!\<close>, when none before it is ready.\<close>

definition turn_reads :: "readiness \<Rightarrow> session \<Rightarrow> bool" where
  "turn_reads rd s =
     (let s = build_liveness s in
      send_failed (ss_writer s) = None \<and> \<not> (rd_timeout rd \<and> sh_state (ss_shared s) = Handshaking)
      \<and> \<not> (rd_tick rd \<and> dr_liveness (ss_driver s)) \<and> settled_ready rd s = None
      \<and> ch_queue (sh_commands (ss_shared s)) = [])"

definition read_frame :: "readiness \<Rightarrow> session \<Rightarrow> frame list" where
  "read_frame rd s =
     (if turn_reads rd s then case rd_inbound rd of Polled (Some (InFrame f)) \<Rightarrow> [f] | _ \<Rightarrow> [] else [])"

lemma loop_turn_cases:
  fixes S rd s
  defines "t \<equiv> build_liveness s"
  shows "(\<exists>r. read_frame rd s = [] \<and> loop_turn S rd s = (t, Some r))
    \<or> (read_frame rd s = [] \<and> sh_state (ss_shared t) = Handshaking
       \<and> loop_turn S rd s = (t\<lparr>ss_shared := fst (on_handshake_timeout (dr_handshake_timeout (ss_driver t)) (ss_shared t))\<rparr>,
           Some (snd (on_handshake_timeout (dr_handshake_timeout (ss_driver t)) (ss_shared t)))))
    \<or> (read_frame rd s = [] \<and> loop_turn S rd s = on_liveness_tick t)
    \<or> (\<exists>k out. read_frame rd s = [] \<and> rd_settled rd = Some (k, out)
         \<and> hm_contains (rt_tasks (dr_tracking (ss_driver t))) k \<and> loop_turn S rd s = (on_settled S k out t, None))
    \<or> (\<exists>c rest. read_frame rd s = [] \<and> ch_queue (sh_commands (ss_shared t)) = c # rest
         \<and> loop_turn S rd s = on_command c (take_command t rest))
    \<or> (\<exists>f. read_frame rd s = [f] \<and> rd_inbound rd = Polled (Some (InFrame f)) \<and> loop_turn S rd s = on_frame f t)
    \<or> (read_frame rd s = [] \<and> loop_turn S rd s = (t, None))"
proof (cases "turn_reads rd s")
  case True
  then have "loop_turn S rd s =
      (case rd_inbound rd of Polled item \<Rightarrow> on_inbound item t | Pending \<Rightarrow> (t, None))"
    by (auto simp: turn_reads_def loop_turn_def Let_def simp flip: t_def)
  with True show ?thesis
    by (auto simp: read_frame_def on_inbound_def split: poll.splits option.splits inbound.splits)
next
  case False
  then have read: "read_frame rd s = []" by (simp add: read_frame_def)
  show ?thesis
  proof (cases "send_failed (ss_writer t)")
    case (Some outcome)
    with read show ?thesis by (simp add: loop_turn_def t_def)
  next
    case no_failure: None
    show ?thesis
    proof (cases "rd_timeout rd \<and> sh_state (ss_shared t) = Handshaking")
      case True
      with no_failure read show ?thesis by (simp add: loop_turn_def Let_def case_prod_beta flip: t_def)
    next
      case no_timeout: False
      show ?thesis
      proof (cases "rd_tick rd \<and> dr_liveness (ss_driver t)")
        case True
        with no_failure no_timeout read show ?thesis by (auto simp: loop_turn_def Let_def simp flip: t_def)
      next
        case no_tick: False
        note no = no_failure no_timeout no_tick
        show ?thesis
        proof (cases "settled_ready rd t")
          case (Some x)
          then have "hm_contains (rt_tasks (dr_tracking (ss_driver t))) (fst x)" and "rd_settled rd = Some x"
            by (auto simp: settled_ready_def split: option.splits prod.splits if_splits)
          moreover have "loop_turn S rd s = (on_settled S (fst x) (snd x) t, None)"
            using no Some by (auto simp: loop_turn_def Let_def case_prod_beta simp flip: t_def)
          ultimately show ?thesis using read by (metis prod.collapse)
        next
          case no_settled: None
          then obtain c rest where "ch_queue (sh_commands (ss_shared t)) = c # rest"
            using False no by (cases "ch_queue (sh_commands (ss_shared t))") (auto simp: turn_reads_def Let_def simp flip: t_def)
          moreover from this no no_settled have "loop_turn S rd s = on_command c (take_command t rest)"
            by (auto simp: loop_turn_def Let_def simp flip: t_def)
          ultimately show ?thesis using read by blast
        qed
      qed
    qed
  qed
qed

locale session_invariant =
  fixes S :: serde_json and port :: "nat \<Rightarrow> send_outcome"
    and ceiling :: "nat option" and options :: session_options
    and I :: "session \<Rightarrow> bool" and B :: "session \<Rightarrow> bool" and F :: "session \<Rightarrow> bool"
  assumes at_open: "session_open ceiling options = Inr s \<Longrightarrow> I s"
    and at_hello: "I s \<Longrightarrow> keeps I B (run_hello S outcome s)"
    and at_liveness: "I s \<Longrightarrow> I (build_liveness s)"
    and at_break: "I s \<Longrightarrow> B s"
    and at_timeout: "I s \<Longrightarrow> sh_state (ss_shared s) = Handshaking \<Longrightarrow>
        B (s\<lparr>ss_shared := fst (on_handshake_timeout d (ss_shared s))\<rparr>)"
    and at_tick: "I s \<Longrightarrow> keeps I B (on_liveness_tick s)"
    and at_settled: "I s \<Longrightarrow> hm_contains (rt_tasks (dr_tracking (ss_driver s))) t \<Longrightarrow> I (on_settled S t out s)"
    and at_command: "I s \<Longrightarrow> ch_queue (sh_commands (ss_shared s)) = c # rest \<Longrightarrow>
        keeps I B (on_command c (take_command s rest))"
    and at_frame: "I s \<Longrightarrow> keeps I B (on_frame f s)"
    and at_writer: "I s \<Longrightarrow> I (s\<lparr>ss_writer := writer_turn port (ss_writer s)\<rparr>)"
    and at_handle: "I s \<Longrightarrow> I (handle_call S oper s)"
    and at_teardown: "B s \<Longrightarrow> F (fst (teardown_run port joined reason s))"
    and after_handle: "F s \<Longrightarrow> F (handle_call S oper s)"
begin

lemma turn_keeps:
  assumes "I s"
  shows "keeps I B (loop_turn S rd s)"
proof -
  have I: "I (build_liveness s)" using assms by (rule at_liveness)
  show ?thesis
    using loop_turn_cases [where S = S and rd = rd and s = s] at_break [OF I] I at_tick [OF I] at_settled [OF I]
      at_command [OF I] at_frame [OF I] at_timeout [OF I]
    by (elim disjE exE conjE) simp_all
qed

lemma reachable:
  "session_reachable S port ceiling options (ph, s) \<Longrightarrow> (case ph of Finished _ \<Rightarrow> F s | _ \<Rightarrow> I s)"
proof (induction "(ph, s)" arbitrary: ph s rule: session_reachable.induct)
  case reach_open
  then show ?case by (auto intro: at_open)
next
  case (reach_step x)
  obtain ph0 s0 where x: "x = (ph0, s0)" by (cases x)
  have IH: "case ph0 of Finished _ \<Rightarrow> F s0 | _ \<Rightarrow> I s0" using reach_step.hyps(2) x by simp
  have "session_step S port (ph0, s0) (ph, s)" using reach_step.hyps(3) x by simp
  then show ?case
  proof (cases rule: session_step.cases)
    case (step_hello outcome)
    with IH at_hello [of s0 outcome] show ?thesis by simp
  next
    case (step_refused outcome s1 reason joined closure)
    with IH at_hello [of s0 outcome] at_teardown [of s1 joined reason] show ?thesis by simp
  next
    case (step_turn rd)
    with IH turn_keeps [of s0 rd] show ?thesis by simp
  next
    case (step_break rd s1 reason joined closure)
    with IH turn_keeps [of s0 rd] at_teardown [of s1 joined reason] show ?thesis by simp
  next
    case step_writer
    with IH at_writer show ?thesis by simp
  next
    case (step_handle oper)
    with IH at_handle after_handle show ?thesis by (auto split: phase.splits)
  qed
qed

end

end
