(* ===== verification/Session_Handshake.thy ===== *)
theory Session_Handshake
  imports Session_Invariants
begin

text \<open>
  The handshake: what a session's state, its remote peer and its ready outcome say together in every
  reachable state, and that two sessions that exchange hellos agree.
\<close>

section \<open>The handshake\<close>

definition handshake_view :: "shared \<Rightarrow> session_state \<times> remote_peer option
    \<times> (remote_error + remote_peer) option \<times> protocol_version" where
  "handshake_view sh = (sh_state sh, sh_remote sh, sh_ready sh, sh_local_protocol sh)"

lemma handshake_view_ops [step_simps]:
  "handshake_view (fan_out_event e sh) = handshake_view sh"
  "handshake_view (fan_out_pong sh) = handshake_view sh"
  "handshake_view (fst (send_command c sh)) = handshake_view sh"
  "handshake_view (fst (register_handler m h sh)) = handshake_view sh"
  "handshake_view (fst (session_handle m h sh)) = handshake_view sh"
  "handshake_view (guard_drop g sh) = handshake_view sh"
  "handshake_view (fst (subscribe_events sh)) = handshake_view sh"
  "handshake_view (fst (subscribe_pongs sh)) = handshake_view sh"
  "handshake_view (fst (events_recv n sh)) = handshake_view sh"
  "handshake_view (fst (pongs_recv n sh)) = handshake_view sh"
  "handshake_view (events_drop n sh) = handshake_view sh"
  "handshake_view (pongs_drop n sh) = handshake_view sh"
  "handshake_view (fst (next_request_id sh)) = handshake_view sh"
  "handshake_view (close_now code reason sh) = handshake_view sh"
  "handshake_view (session_ping sh) = handshake_view sh"
  "handshake_view (clear_subscribers sh) = handshake_view sh"
  by (simp_all add: handshake_view_def fan_out_event_def fan_out_pong_def send_command_def
      register_handler_def session_handle_def guard_drop_def subscribe_events_def subscribe_pongs_def
      events_recv_def events_drop_def pongs_recv_def pongs_drop_def next_request_id_def close_now_def session_ping_def
      clear_subscribers_def Let_def split: prod.split option.split)

lemma handshake_view_emit [step_simps]: "handshake_view (fst (emit S ei sh)) = handshake_view sh"
  by (simp add: emit_def handshake_view_def send_command_def ch_send_def Let_def split: sum.split)

lemma handshake_view_request [step_simps]:
  "handshake_view (ss_shared (fst (request_start S m p ro s))) = handshake_view (ss_shared s)"
  by (simp add: request_start_def handshake_view_def next_request_id_def send_command_def ch_send_def
      Let_def split: sum.split poll.split)

lemma handshake_view_handle [step_simps]:
  "handshake_view (ss_shared (handle_call S oper s)) = handshake_view (ss_shared s)"
  by (cases oper) (simp_all add: handle_call_def on_shared_def send_cancel_def step_simps)

lemma handshake_view_settled [step_simps]:
  "handshake_view (ss_shared (on_settled S t out s)) = handshake_view (ss_shared s)"
  by (simp add: on_settled_def with_dispatch_def on_handler_settled_def handshake_view_def Let_def
      split: prod.split option.split sum.split)

lemma handshake_view_request_frame [step_simps]:
  "handshake_view (ss_shared (with_dispatch (on_request r) s)) = handshake_view (ss_shared s)"
  by (simp add: with_dispatch_def on_request_def handshake_view_def Let_def split: prod.split option.split)

lemma handshake_view_command [step_simps]:
  "handshake_view (ss_shared (fst (on_command c (take_command s rest)))) = handshake_view (ss_shared s)"
  by (cases c) (simp_all add: on_command_def take_command_def handshake_view_def Let_def split: frame.split)

lemma handshake_view_register_all [step_simps]:
  "handshake_view (register_all hs sh) = handshake_view sh"
  unfolding register_all_def
  by (induction hs arbitrary: sh) (simp_all add: case_prod_beta step_simps)

text \<open>What the three watched values say in each state.\<close>

fun agreed :: "protocol_version \<Rightarrow> remote_peer \<Rightarrow> bool" where
  "agreed local r = (negotiate local (rp_protocol r) = Compatible (rp_effective_minor r))"

definition handshake_running :: "session \<Rightarrow> bool" where
  "handshake_running s =
     (case handshake_view (ss_shared s) of
        (Handshaking, remote, ready, local) \<Rightarrow> remote = None \<and> ready = None
      | (Ready, remote, ready, local) \<Rightarrow> \<exists>r. remote = Some r \<and> ready = Some (Inr r) \<and> agreed local r
      | (Closed, _) \<Rightarrow> False)"

definition handshake_settled :: "session \<Rightarrow> bool" where
  "handshake_settled s =
     (case handshake_view (ss_shared s) of
        (_, remote, ready, local) \<Rightarrow>
          (case ready of
             Some (Inr r) \<Rightarrow> remote = Some r \<and> agreed local r
           | _ \<Rightarrow> remote = None))"

definition handshake_finished :: "session \<Rightarrow> bool" where
  "handshake_finished s \<longleftrightarrow> handshake_settled s \<and> sh_state (ss_shared s) = Closed \<and> sh_ready (ss_shared s) \<noteq> None"

lemma handshake_running_settled: "handshake_running s \<Longrightarrow> handshake_settled s"
  by (auto simp: handshake_running_def handshake_settled_def split: prod.splits session_state.splits)

lemma handshake_running_cong:
  "handshake_view (ss_shared s') = handshake_view (ss_shared s) \<Longrightarrow> handshake_running s' = handshake_running s"
  by (simp add: handshake_running_def)

lemma handshake_finished_cong:
  "handshake_view (ss_shared s') = handshake_view (ss_shared s) \<Longrightarrow> handshake_finished s' = handshake_finished s"
  by (simp add: handshake_finished_def handshake_settled_def) (simp add: handshake_view_def)

lemma keeps_handshake:
  assumes "handshake_running s" and "handshake_view (ss_shared (fst x)) = handshake_view (ss_shared s)"
  shows "keeps handshake_running handshake_settled x"
proof -
  have "handshake_running (fst x)" using assms handshake_running_cong by blast
  then show ?thesis
    using handshake_running_settled by (cases x) (auto simp: keeps_def split: option.split)
qed

lemma handshake_hello:
  "handshake_running s \<Longrightarrow> on_hello h (ss_shared s) = (sh, r) \<Longrightarrow>
     keeps handshake_running handshake_settled (s\<lparr>ss_shared := sh\<rparr>, r)"
  by (auto simp: on_hello_def handshake_running_def handshake_settled_def handshake_view_def
      settle_ready_def Let_def split: session_state.splits negotiation.splits if_splits)

lemma handshake_frame:
  assumes "handshake_running s"
  shows "keeps handshake_running handshake_settled (on_frame f s)"
proof (cases f)
  case (Hello h)
  then show ?thesis
    using assms handshake_hello [of s h] by (simp add: on_frame_def split: prod.split)
qed (rule keeps_handshake [OF assms],
     simp add: on_frame_def settle_pending_def on_response_def step_simps split: option.split)+

lemma handshake_teardown:
  assumes "handshake_settled s"
  shows "handshake_finished (fst (teardown_run port joined reason s))"
proof -
  obtain code why error close_port where parts: "teardown_parts reason = (code, why, error, close_port)"
    by (metis prod_cases4)
  show ?thesis
    using assms parts
    by (auto simp: teardown_run_def handshake_finished_def handshake_settled_def handshake_view_def
        settle_ready_def clear_subscribers_def drop_inbox_def Let_def split: option.splits sum.splits)
qed

lemma handshake_open: "session_open ceiling options = Inr s \<Longrightarrow> handshake_running s"
  by (auto simp: session_open_def and_then_Inr handshake_running_def step_simps Let_def)
     (auto simp: handshake_view_def)

interpretation handshake: session_invariant S port ceiling options
    handshake_running handshake_settled handshake_finished for S port ceiling options
proof unfold_locales
  fix s outcome d t out c rest f oper joined reason
  show "session_open ceiling options = Inr s \<Longrightarrow> handshake_running s" by (rule handshake_open)
  show "handshake_running s \<Longrightarrow> handshake_settled s" by (rule handshake_running_settled)
  show "handshake_running s \<Longrightarrow> keeps handshake_running handshake_settled (on_frame f s)"
    by (rule handshake_frame)
  show "handshake_settled s \<Longrightarrow> handshake_finished (fst (teardown_run port joined reason s))"
    by (rule handshake_teardown)
  show "handshake_running s \<Longrightarrow> handshake_running (build_liveness s)"
    by (simp add: build_liveness_def handshake_running_def)
  show "handshake_running s \<Longrightarrow> keeps handshake_running handshake_settled (on_liveness_tick s)"
    by (erule keeps_handshake) (simp add: on_liveness_tick_def)
  show "handshake_running s \<Longrightarrow> handshake_running (on_settled S t out s)"
    by (simp add: handshake_running_def step_simps)
  show "handshake_running s \<Longrightarrow>
      keeps handshake_running handshake_settled (on_command c (take_command s rest))"
    by (erule keeps_handshake) (simp add: step_simps)
  show "handshake_running s \<Longrightarrow> handshake_running (s\<lparr>ss_writer := writer_turn port (ss_writer s)\<rparr>)"
    by (simp add: handshake_running_def)
  show "handshake_running s \<Longrightarrow> handshake_running (handle_call S oper s)"
    by (simp add: handshake_running_def step_simps)
  show "handshake_finished s \<Longrightarrow> handshake_finished (handle_call S oper s)"
    by (simp add: handshake_finished_cong [OF handshake_view_handle])
  show "handshake_running s \<Longrightarrow> keeps handshake_running handshake_settled (run_hello S outcome s)"
    by (auto simp: run_hello_def handshake_running_def handshake_settled_def handshake_view_def
        settle_ready_def Let_def split: option.splits session_state.splits sum.splits)
  show "handshake_running s \<Longrightarrow> sh_state (ss_shared s) = Handshaking \<Longrightarrow>
      handshake_settled (s\<lparr>ss_shared := fst (on_handshake_timeout d (ss_shared s))\<rparr>)"
    by (auto simp: on_handshake_timeout_def handshake_running_def handshake_settled_def handshake_view_def
        settle_ready_def Let_def)
qed

text \<open>
  C7: In every reachable state of a session, under any interleaving of handle calls, driver turns,
  writer turns and teardown: a ready session has a remote peer, its \<open>ready\<close> watchers were given that
  peer, the majors agree and the effective minor is the lower of the two; a session still handshaking
  has neither; a finished one is closed with \<open>ready\<close> settled, and only ever reports a peer it agreed with.
\<close>

theorem handshake_consistent:
  assumes "session_reachable S port ceiling options (ph, s)"
  shows "(sh_state (ss_shared s) = Ready \<longrightarrow>
       (\<exists>r. sh_remote (ss_shared s) = Some r \<and> sh_ready (ss_shared s) = Some (Inr r)
          \<and> pv_major (rp_protocol r) = pv_major (sh_local_protocol (ss_shared s))
          \<and> rp_effective_minor r = min (pv_minor (sh_local_protocol (ss_shared s))) (pv_minor (rp_protocol r))))
    \<and> (sh_state (ss_shared s) = Handshaking \<longrightarrow> sh_remote (ss_shared s) = None \<and> sh_ready (ss_shared s) = None)
    \<and> (sh_state (ss_shared s) = Closed \<longleftrightarrow> (\<exists>c. ph = Finished c))
    \<and> (\<forall>c. ph = Finished c \<longrightarrow> sh_ready (ss_shared s) \<noteq> None)
    \<and> (\<forall>r. sh_ready (ss_shared s) = Some (Inr r) \<longrightarrow> sh_remote (ss_shared s) = Some r
          \<and> pv_major (rp_protocol r) = pv_major (sh_local_protocol (ss_shared s)))"
proof (cases "\<exists>c. ph = Finished c")
  case True
  then have "handshake_finished s" using handshake.reachable [OF assms] by auto
  with True show ?thesis
    by (auto simp: handshake_finished_def handshake_settled_def handshake_view_def negotiate_def
        split: option.splits sum.splits if_splits)
next
  case False
  then have "handshake_running s" using handshake.reachable [OF assms] by (cases ph) auto
  with False show ?thesis
    by (auto simp: handshake_running_def handshake_view_def negotiate_def
        split: session_state.splits if_splits)
qed

definition example_peer :: peer_info where
  "example_peer = \<lparr>peer_name = ''example'', peer_version = ''0.1.0'', peer_role = ''runtime''\<rparr>"

definition example_session :: session where
  "example_session = (case session_open None (session_options_new example_peer) of Inr s \<Rightarrow> s)"

lemma example_open: "session_open None (session_options_new example_peer) = Inr example_session"
  by (simp add: example_session_def session_open_def session_options_new_def and_then_def check_at_least_def
      MIN_OPEN_IN_FLIGHT_def MIN_ANNOUNCED_IN_FLIGHT_def MIN_OPEN_STREAM_KEYS_def
      DEFAULT_MAX_IN_FLIGHT_def DEFAULT_MAX_STREAM_KEYS_def Let_def)

lemma example_state:
  "sh_state (ss_shared example_session) = Handshaking" "sh_ready (ss_shared example_session) = None"
  by (simp_all add: example_session_def session_open_def session_options_new_def and_then_def
      check_at_least_def MIN_OPEN_IN_FLIGHT_def MIN_ANNOUNCED_IN_FLIGHT_def MIN_OPEN_STREAM_KEYS_def
      DEFAULT_MAX_IN_FLIGHT_def DEFAULT_MAX_STREAM_KEYS_def register_all_def Let_def)

lemma example_reachable:
  "session_reachable S port None (session_options_new example_peer) (Starting, example_session)"
  using example_open by (rule reach_open)

theorem handshake_consistent_witness: "sh_remote (ss_shared example_session) = None"
  using handshake_consistent [OF example_reachable] example_state by blast

lemma settle_ready_keeps: "sh_ready sh = Some x \<Longrightarrow> settle_ready y sh = sh"
  by (simp add: settle_ready_def)

lemma ready_view: "handshake_view sh' = handshake_view sh \<Longrightarrow> sh_ready sh' = sh_ready sh"
  by (simp add: handshake_view_def)

lemma ready_frame: "sh_ready (ss_shared s) = Some x \<Longrightarrow> sh_ready (ss_shared (fst (on_frame f s))) = Some x"
  by (cases f)
     (auto simp: on_frame_def on_hello_def settle_ready_def settle_pending_def on_response_def Let_def
        ready_view [OF handshake_view_ops(1)] ready_view [OF handshake_view_ops(2)]
        ready_view [OF handshake_view_request_frame] split: option.split negotiation.split)

lemma ready_turn:
  "sh_ready (ss_shared s) = Some x \<Longrightarrow> sh_ready (ss_shared (fst (loop_turn S rd s))) = Some x"
proof -
  assume r: "sh_ready (ss_shared s) = Some x"
  have t: "sh_ready (ss_shared (build_liveness s)) = Some x" using r by (simp add: build_liveness_def)
  show ?thesis
    using loop_turn_cases [where S = S and rd = rd and s = s] t ready_frame [OF t]
    by (elim disjE exE conjE)
       (simp_all add: on_handshake_timeout_def settle_ready_keeps on_liveness_tick_def Let_def
          ready_view [OF handshake_view_settled] ready_view [OF handshake_view_command])
qed

lemma ready_teardown:
  "sh_ready (ss_shared s) = Some x \<Longrightarrow>
     sh_ready (ss_shared (fst (teardown_run port joined reason s))) = Some x"
  by (simp add: teardown_run_def Let_def drop_inbox_def settle_ready_def clear_subscribers_def split: prod.split)

text \<open>
  The ready outcome is settled once: whatever a session does next, an outcome already given to
  \<open>ready\<close> is never replaced, so a specific failure is not overwritten by the generic one of teardown.
\<close>

theorem ready_never_overwritten:
  assumes "session_step S port (ph, s) (ph', s')" and "sh_ready (ss_shared s) = Some x"
  shows "sh_ready (ss_shared s') = Some x"
  using assms(1)
proof (cases rule: session_step.cases)
  case (step_hello outcome)
  then show ?thesis using assms(2) by (auto simp: run_hello_def Let_def split: option.splits)
next
  case (step_refused outcome s1 reason joined closure)
  then have "sh_ready (ss_shared s1) = Some x"
    using assms(2) by (auto simp: run_hello_def settle_ready_keeps Let_def split: option.splits if_splits)
  with step_refused ready_teardown [of s1 x port joined reason] show ?thesis by simp
next
  case (step_turn rd)
  with ready_turn [OF assms(2), of S rd] show ?thesis by simp
next
  case (step_break rd s1 reason joined closure)
  with ready_turn [OF assms(2), of S rd] ready_teardown [of s1 x port joined reason] show ?thesis by simp
next
  case step_writer
  with assms(2) show ?thesis by simp
next
  case (step_handle oper)
  with assms(2) show ?thesis by (simp add: ready_view [OF handshake_view_handle])
qed

definition failed_session :: session where
  "failed_session = on_shared (settle_ready (Inl not_ready_error)) example_session"

theorem ready_never_overwritten_witness:
  "sh_ready (ss_shared (handle_call liveness_serde HPing failed_session)) = Some (Inl not_ready_error)"
proof (rule ready_never_overwritten)
  show "session_step liveness_serde (\<lambda>_. Sent) (Starting, failed_session)
      (Starting, handle_call liveness_serde HPing failed_session)" by (rule step_handle)
  show "sh_ready (ss_shared failed_session) = Some (Inl not_ready_error)"
    using example_state by (simp add: failed_session_def on_shared_def settle_ready_def)
qed

section \<open>Two sessions\<close>

text \<open>The states of a session that has not heard its peer's hello yet.\<close>

definition awaiting_hello :: "shared \<Rightarrow> bool" where
  "awaiting_hello sh \<longleftrightarrow> sh_state sh = Handshaking \<and> sh_ready sh = None
     \<and> 4096 \<le> sh_local_max_frame_bytes sh \<and> sh_max_in_flight sh < 2 ^ 64"

lemma unat_of_nat_u64: "n < 2 ^ 64 \<Longrightarrow> unat (of_nat n :: u64) = n"
  by (simp add: unat_of_nat take_bit_nat_eq_self)

lemma hello_limits:
  assumes "awaiting_hello b" and "sh_remote a' = Some r" and "rp_limits r = hello_limits (build_hello b)"
  shows "send_limit_bytes a' = min (sh_local_max_frame_bytes a')
      (min (sh_local_max_frame_bytes b) DEFAULT_MAX_FRAME_BYTES)"
    and "remote_max_in_flight a' = sh_max_in_flight b"
proof -
  have small: "sh_local_max_frame_bytes b < DEFAULT_MAX_FRAME_BYTES \<Longrightarrow>
      unat (of_nat (sh_local_max_frame_bytes b) :: u64) = sh_local_max_frame_bytes b"
    by (rule unat_of_nat_u64) (simp add: DEFAULT_MAX_FRAME_BYTES_def)
  have big: "unat (of_nat (sh_max_in_flight b) :: u64) = sh_max_in_flight b"
    using assms(1) by (intro unat_of_nat_u64) (simp add: awaiting_hello_def)
  show "send_limit_bytes a' = min (sh_local_max_frame_bytes a')
      (min (sh_local_max_frame_bytes b) DEFAULT_MAX_FRAME_BYTES)"
    using assms(2,3) small
    by (auto simp: send_limit_bytes_def build_hello_def limits_default_def Let_def min_def)
  show "remote_max_in_flight a' = sh_max_in_flight b"
    using assms(2,3) big
    by (auto simp: remote_max_in_flight_def build_hello_def limits_default_def Let_def)
qed

text \<open>
  C9: Two sessions that exchange hellos agree.  When the majors match both become ready at the
  same effective minor; each then sends nothing larger than either side accepts, and knows the other's
  in-flight ceiling exactly.  When they differ both fail \<open>ready\<close> with \<open>PROTOCOL_MISMATCH\<close> and close with
  4426.
\<close>

theorem hellos_agree:
  assumes "awaiting_hello a" and "awaiting_hello b"
    and "on_hello (build_hello b) a = (a', ra)" and "on_hello (build_hello a) b = (b', rb)"
  shows "if pv_major (sh_local_protocol a) = pv_major (sh_local_protocol b)
    then ra = None \<and> rb = None \<and> sh_state a' = Ready \<and> sh_state b' = Ready
      \<and> (\<exists>x y. sh_remote a' = Some x \<and> sh_remote b' = Some y
           \<and> rp_effective_minor x = rp_effective_minor y
           \<and> rp_effective_minor x = min (pv_minor (sh_local_protocol a)) (pv_minor (sh_local_protocol b)))
      \<and> send_limit_bytes a' = send_limit_bytes b'
      \<and> send_limit_bytes a' = min DEFAULT_MAX_FRAME_BYTES (min (sh_local_max_frame_bytes a) (sh_local_max_frame_bytes b))
      \<and> remote_max_in_flight a' = sh_max_in_flight b \<and> remote_max_in_flight b' = sh_max_in_flight a
    else (\<forall>(sh, r) \<in> {(a', ra), (b', rb)}. r = Some (TLocal 4426 (Some ''protocol version unsupported''))
      \<and> (\<exists>e. sh_ready sh = Some (Inl e) \<and> re_code e = code_PROTOCOL_MISMATCH))"
proof (cases "pv_major (sh_local_protocol a) = pv_major (sh_local_protocol b)")
  case True
  define x where "x = \<lparr>rp_peer = sh_local_peer b, rp_protocol = sh_local_protocol b,
    rp_capabilities = sh_local_capabilities b, rp_limits = hello_limits (build_hello b),
    rp_effective_minor = min (pv_minor (sh_local_protocol a)) (pv_minor (sh_local_protocol b))\<rparr>"
  define y where "y = \<lparr>rp_peer = sh_local_peer a, rp_protocol = sh_local_protocol a,
    rp_capabilities = sh_local_capabilities a, rp_limits = hello_limits (build_hello a),
    rp_effective_minor = min (pv_minor (sh_local_protocol b)) (pv_minor (sh_local_protocol a))\<rparr>"
  have "a' = a\<lparr>sh_state := Ready, sh_remote := Some x, sh_ready := Some (Inr x)\<rparr> \<and> ra = None"
    using assms(1,3) True
    by (auto simp: on_hello_def negotiate_def awaiting_hello_def settle_ready_def x_def build_hello_def Let_def)
  moreover have "b' = b\<lparr>sh_state := Ready, sh_remote := Some y, sh_ready := Some (Inr y)\<rparr> \<and> rb = None"
    using assms(2,4) True
    by (auto simp: on_hello_def negotiate_def awaiting_hello_def settle_ready_def y_def build_hello_def Let_def)
  moreover note hello_limits [OF assms(2), of a' x] hello_limits [OF assms(1), of b' y]
  ultimately show ?thesis using True by (simp add: x_def y_def min.commute min.left_commute)
next
  case False
  with assms show ?thesis
    by (auto simp: on_hello_def negotiate_def awaiting_hello_def settle_ready_def mismatch_error_def
        build_hello_def close_codes Let_def)
qed

lemma example_awaiting: "awaiting_hello (ss_shared example_session)"
  by (simp add: awaiting_hello_def example_session_def session_open_def session_options_new_def and_then_def
      check_at_least_def MIN_OPEN_IN_FLIGHT_def MIN_ANNOUNCED_IN_FLIGHT_def MIN_OPEN_STREAM_KEYS_def
      DEFAULT_MAX_IN_FLIGHT_def DEFAULT_MAX_STREAM_KEYS_def DEFAULT_MAX_FRAME_BYTES_def register_all_def Let_def)

theorem hellos_agree_witness:
  "snd (on_hello (build_hello (ss_shared example_session)) (ss_shared example_session)) = None"
  using hellos_agree [OF example_awaiting example_awaiting surjective_pairing surjective_pairing] by simp

text \<open>
  C10: What a session admits its peer can read: after the handshake, a frame that passes
  \<open>assert_fits\<close> on one side encodes within that side's own ceiling, and the peer's \<open>decode_line\<close> at its
  ceiling reads the same frame back.  This is for a JSON library that does what it documents and for
  frames it reads back exactly: no floating-point number, objects in key order, and nesting at most 120.
  The last is a bound \<open>assert_fits\<close> does not check: it admits a frame nested deeper than the library's
  reader allows, and the peer's \<open>decode_line\<close> then refuses it.
\<close>

theorem admitted_frame_is_read:
  assumes "serde_ok S" and "frame_exact f" and "awaiting_hello a" and "awaiting_hello b"
    and "on_hello (build_hello b) a = (a', None)" and "assert_fits S a' f what = Inr ()"
  shows "\<exists>bs. encode_frame_bytes S f (sh_local_max_frame_bytes a) = Inr bs
    \<and> length bs \<le> sh_local_max_frame_bytes b \<and> decode_line S bs (sh_local_max_frame_bytes b) = Inr f"
proof -
  obtain r where r: "sh_remote a' = Some r" "rp_limits r = hello_limits (build_hello b)"
    and same: "sh_local_max_frame_bytes a' = sh_local_max_frame_bytes a"
    using assms(3,5)
    by (auto simp: on_hello_def awaiting_hello_def settle_ready_def Let_def split: negotiation.splits)
  have limit: "send_limit_bytes a' \<le> sh_local_max_frame_bytes a" "send_limit_bytes a' \<le> sh_local_max_frame_bytes b"
    using hello_limits(1) [OF assms(4) r] same by auto
  from assms(6) obtain bs where bs: "encode_frame_bytes S f (send_limit_bytes a') = Inr bs"
    by (auto simp: assert_fits_def Let_def split: sum.splits if_splits)
  from decode_encoded [OF assms(1,2) this] limit(2)
  have "decode_line S bs (sh_local_max_frame_bytes b) = Inr f" by (rule decode_line_mono)
  moreover have "encode_frame_bytes S f (sh_local_max_frame_bytes a) = Inr bs"
    "length bs \<le> sh_local_max_frame_bytes b"
    using bs limit by (auto simp: encode_frame_bytes_Inr)
  ultimately show ?thesis by blast
qed

theorem admitted_frame_is_read_witness:
  "\<exists>bs. decode_line liveness_serde bs (sh_local_max_frame_bytes (ss_shared example_session)) = Inr Ping"
proof -
  let ?a = "ss_shared example_session" and ?h = "build_hello (ss_shared example_session)"
  have hello: "on_hello ?h ?a = (fst (on_hello ?h ?a), None)"
    using example_awaiting
    by (simp add: on_hello_def awaiting_hello_def negotiate_def build_hello_def Let_def)
  have "send_limit_bytes (fst (on_hello ?h ?a)) \<ge> 4096"
  proof -
    obtain r where "sh_remote (fst (on_hello ?h ?a)) = Some r" "rp_limits r = hello_limits ?h"
      "sh_local_max_frame_bytes (fst (on_hello ?h ?a)) = sh_local_max_frame_bytes ?a"
      using example_awaiting
      by (auto simp: on_hello_def awaiting_hello_def negotiate_def build_hello_def settle_ready_def Let_def)
    from hello_limits(1) [OF example_awaiting this(1,2)] this(3) example_awaiting show ?thesis
      by (simp add: awaiting_hello_def DEFAULT_MAX_FRAME_BYTES_def)
  qed
  then have "assert_fits liveness_serde (fst (on_hello ?h ?a)) Ping [] = Inr ()"
    by (simp add: assert_fits_def liveness_encode)
  from admitted_frame_is_read [OF liveness_serde_ok _ example_awaiting example_awaiting hello this]
  show ?thesis by (auto simp: frame_exact_def)
qed

end
