(* ===== verification/Session_Trace.thy ===== *)
theory Session_Trace
  imports Session_Handshake
begin

text \<open>
  Executable runs of a session: a list of actions, each one rule of \<open>session_step\<close>, and the runs the
  examples use.
\<close>

datatype action =
    ActHello send_outcome
  | ActTurn readiness "nat list"
  | ActWriter
  | ActHandle handle_op

definition close_with :: "(nat \<Rightarrow> send_outcome) \<Rightarrow> nat list \<Rightarrow> phase \<Rightarrow> session \<times> teardown option \<Rightarrow> phase \<times> session" where
  "close_with port joined ph r =
     (case r of
        (s, None) \<Rightarrow> (ph, s)
      | (s, Some reason) \<Rightarrow> (case teardown_run port joined reason s of (s', closure) \<Rightarrow> (Finished closure, s')))"

fun act :: "serde_json \<Rightarrow> (nat \<Rightarrow> send_outcome) \<Rightarrow> action \<Rightarrow> phase \<times> session \<Rightarrow> phase \<times> session" where
  "act S port (ActHello outcome) (Starting, s) = close_with port [] Looping (run_hello S outcome s)"
| "act S port (ActTurn rd joined) (Looping, s) = close_with port joined Looping (loop_turn S rd s)"
| "act S port ActWriter (Looping, s) = (Looping, s\<lparr>ss_writer := writer_turn port (ss_writer s)\<rparr>)"
| "act S port (ActHandle oper) (ph, s) = (ph, handle_call S oper s)"
| "act S port _ x = x"

lemma act_step: "act S port a x = x \<or> session_step S port x (act S port a x)"
  by (cases "(S, port, a, x)" rule: act.cases)
     (auto simp: close_with_def intro: session_step.intros split: option.split prod.split)

lemma run_reachable:
  "session_reachable S port ceiling options x \<Longrightarrow> session_reachable S port ceiling options (fold (act S port) acts x)"
proof (induction acts arbitrary: x)
  case Nil
  then show ?case by simp
next
  case (Cons a acts)
  have "session_reachable S port ceiling options (act S port a x)"
    using act_step [of S port a x] Cons.prems reach_step by metis
  with Cons.IH show ?case by simp
qed

section \<open>An example run\<close>

definition quiet :: readiness where
  "quiet = \<lparr>rd_timeout = False, rd_tick = False, rd_settled = None, rd_inbound = Pending\<rparr>"

definition inbound_frame :: "frame \<Rightarrow> action" where
  "inbound_frame f = ActTurn (quiet\<lparr>rd_inbound := Polled (Some (InFrame f))\<rparr>) []"

definition terse_serde :: serde_json where
  "terse_serde = \<lparr>to_vec = (\<lambda>f. Inr [0x7B, 0x7D]), from_slice = (\<lambda>bs. Inr Ping), from_slice_value = (\<lambda>bs. None)\<rparr>"

lemmas example_options = session_open_def session_options_new_def and_then_def check_at_least_def
  MIN_OPEN_IN_FLIGHT_def MIN_ANNOUNCED_IN_FLIGHT_def MIN_OPEN_STREAM_KEYS_def
  DEFAULT_MAX_IN_FLIGHT_def DEFAULT_MAX_STREAM_KEYS_def DEFAULT_MAX_FRAME_BYTES_def register_all_def Let_def

lemma terse_fits:
  "validate f = Inr () \<Longrightarrow> 4096 \<le> send_limit_bytes sh \<Longrightarrow> assert_fits terse_serde sh f what = Inr ()"
  by (simp add: assert_fits_def encode_frame_bytes_def terse_serde_def checked_at_least_def MIN_MAX_FRAME_BYTES_def
      and_then_def map_err_def Let_def)

lemma example_names:
  "is_valid_role ''runtime''" "chars_count ''example'' = 7" "chars_count ''0.1.0'' = 5"
  "is_valid_method_name ''fs.read''" "\<not> is_reserved_method_name ''fs.read''"
  "chars_count ''r-1'' = 3"
  by code_simp+

lemma example_validates: "validate (Hello (build_hello (ss_shared example_session))) = Inr ()"
  by (simp add: example_session_def example_options example_peer_def validate_def validate_hello_def build_hello_def
      check_length_def PROTOCOL_VERSION_def PROTOCOL_MAJOR_def MAX_NAME_CHARS_def limits_default_def example_names)

lemma example_hello:
  "act terse_serde port (ActHello Sent) (Starting, example_session)
     = (Looping, example_session\<lparr>ss_hello := Some (build_hello (ss_shared example_session))\<rparr>)"
proof -
  have "4096 \<le> send_limit_bytes (ss_shared example_session)"
    by (simp add: example_session_def example_options send_limit_bytes_def)
  from terse_fits [OF example_validates this] show ?thesis
    by (simp add: close_with_def run_hello_def is_ok_def refused_hello_def)
qed

definition example_remote :: remote_peer where
  "example_remote = \<lparr>rp_peer = example_peer, rp_protocol = PROTOCOL_VERSION, rp_capabilities = [], rp_limits = None,
     rp_effective_minor = pv_minor PROTOCOL_VERSION\<rparr>"

definition ready_session :: session where
  "ready_session = example_session\<lparr>ss_hello := Some (build_hello (ss_shared example_session)),
     ss_shared := (ss_shared example_session)\<lparr>sh_state := Ready, sh_remote := Some example_remote,
       sh_ready := Some (Inr example_remote)\<rparr>\<rparr>"

lemma example_ready:
  "act terse_serde port (inbound_frame (Hello (build_hello (ss_shared example_session))))
     (Looping, example_session\<lparr>ss_hello := Some (build_hello (ss_shared example_session))\<rparr>) = (Looping, ready_session)"
  by (simp add: example_session_def example_options inbound_frame_def quiet_def close_with_def loop_turn_def
      build_liveness_def send_failed_def writer_spawn_def settled_ready_def unbounded_channel_def on_inbound_def
      on_frame_def on_hello_def ready_session_def negotiate_def settle_ready_def build_hello_def example_remote_def
      limits_default_def)

lemma ready_reachable: "session_reachable terse_serde port None (session_options_new example_peer) (Looping, ready_session)"
  using run_reachable [OF example_reachable, of terse_serde port
    "[ActHello Sent, inbound_frame (Hello (build_hello (ss_shared example_session)))]"]
  by (simp add: example_hello example_ready del: act.simps)

text \<open>A call is issued and reaches the pending table; then the port closes under it.\<close>

definition example_call :: handle_op where
  "example_call = HRequest ''fs.read'' JNull \<lparr>ro_cancel = False, ro_timeout = None\<rparr>"

lemma show_one: "show_nat (Suc 0) = ''1''"
  by code_simp

lemma ready_fields:
  "next_request_id (ss_shared ready_session) = ((ss_shared ready_session)\<lparr>sh_request_sequence := 1\<rparr>, ''r-1'')"
  "ss_next_reply ready_session = 0" "session_ready (ss_shared ready_session) = Polled (Inr example_remote)"
  "sh_state (ss_shared ready_session) = Ready" "sh_commands (ss_shared ready_session) = unbounded_channel"
  "4096 \<le> send_limit_bytes ((ss_shared ready_session)\<lparr>sh_request_sequence := n\<rparr>)"
  by (simp_all add: ready_session_def example_session_def example_options session_ready_def next_request_id_def
      DEFAULT_REQUEST_ID_PREFIX_def send_limit_bytes_def example_remote_def show_one)

definition example_command :: command where
  "example_command = CmdRequest (Req \<lparr>req_id = ''r-1'', req_method = ''fs.read'', req_params = JNull\<rparr>) 0"

definition calling_session :: session where
  "calling_session = ready_session\<lparr>ss_shared := (ss_shared ready_session)\<lparr>sh_request_sequence := 1,
       sh_commands := unbounded_channel\<lparr>ch_queue := [example_command]\<rparr>\<rparr>,
     ss_next_reply := 1\<rparr>"

lemma example_calls: "handle_call terse_serde example_call ready_session = calling_session"
proof -
  have "validate (Req \<lparr>req_id = ''r-1'', req_method = ''fs.read'', req_params = JNull\<rparr>) = Inr ()"
    by (simp add: validate_def validate_request_def check_id_def check_length_def check_method_name_def example_names MAX_ID_CHARS_def and_then_def)
  from terse_fits [OF this ready_fields(6)] show ?thesis
    by (simp add: example_call_def handle_call_def request_start_def example_names ready_fields send_command_def
        ch_send_def unbounded_channel_def calling_session_def example_command_def Let_def)
qed

lemma quiet_command:
  assumes "send_failed (ss_writer s) = None" and "ch_queue (sh_commands (ss_shared s)) = c # rest"
  shows "loop_turn S quiet s = on_command c (take_command (build_liveness s) rest)"
  using assms by (simp add: loop_turn_def quiet_def settled_ready_def build_liveness_def Let_def)

definition pending_session :: session where
  "pending_session =
     fst (on_command example_command (take_command (build_liveness calling_session) []))"

lemma example_driver:
  "dr_pending (ss_driver example_session) = []" "ss_writer example_session = writer_spawn"
  "ss_replies example_session = []"
  by (simp_all add: example_session_def example_options)

lemma example_pends:
  "act terse_serde port (ActTurn quiet []) (Looping, calling_session) = (Looping, pending_session)"
proof -
  have "send_failed (ss_writer calling_session) = None"
    by (simp add: calling_session_def ready_session_def example_driver send_failed_def writer_spawn_def)
  moreover have "ch_queue (sh_commands (ss_shared calling_session)) = [example_command]"
    by (simp add: calling_session_def)
  moreover have "snd (on_command example_command s) = None" for s
    by (simp add: on_command_def example_command_def Let_def)
  ultimately have "loop_turn terse_serde quiet calling_session = (pending_session, None)"
    using quiet_command [of calling_session example_command "[]" terse_serde]
    by (simp add: pending_session_def prod_eq_iff)
  then show ?thesis by (simp add: close_with_def)
qed

lemma pending_fields:
  "dr_pending (ss_driver pending_session) = [(''r-1'', \<lparr>pr_method = ''fs.read'', pr_reply = 0\<rparr>)]"
  "ss_next_reply pending_session = 1" "ss_replies pending_session = []"
  by (simp_all add: pending_session_def on_command_def example_command_def calling_session_def ready_session_def example_driver
      build_liveness_def take_command_def hm_insert_def dropped_reply_def Let_def)

lemma pending_reachable:
  "session_reachable terse_serde port None (session_options_new example_peer) (Looping, pending_session)"
  using run_reachable [OF ready_reachable, of port "[ActHandle example_call, ActTurn quiet []]"]
  by (simp add: example_calls example_pends del: act.simps(2))

text \<open>The port closes under the call.\<close>

definition port_lost :: teardown where
  "port_lost = TPort (PortClosed None None)"

definition lost_session :: session where
  "lost_session = fst (teardown_run (\<lambda>_. Sent) [] port_lost (build_liveness pending_session))"

definition lost_closure :: session_closure where
  "lost_closure = snd (teardown_run (\<lambda>_. Sent) [] port_lost (build_liveness pending_session))"

lemma lost_turn:
  "loop_turn terse_serde (quiet\<lparr>rd_inbound := Polled None\<rparr>) pending_session = (build_liveness pending_session, Some port_lost)"
proof -
  have "send_failed (ss_writer pending_session) = None"
    by (simp add: pending_session_def on_command_def example_command_def calling_session_def ready_session_def
        example_driver build_liveness_def take_command_def send_failed_def writer_spawn_def enqueue_def Let_def)
  moreover have "ch_queue (sh_commands (ss_shared pending_session)) = []"
    by (simp add: pending_session_def on_command_def example_command_def take_command_def Let_def)
  ultimately show ?thesis
    by (simp add: loop_turn_def quiet_def settled_ready_def port_lost_def on_inbound_def build_liveness_def Let_def)
qed

lemma lost_reachable:
  "session_reachable terse_serde (\<lambda>_. Sent) None (session_options_new example_peer) (Finished lost_closure, lost_session)"
  using lost_turn by (rule reach_step [OF pending_reachable step_break]) (simp add: lost_session_def lost_closure_def)

text \<open>A request of the peer arrives at a ready session.\<close>

lemma quiet_frame:
  assumes "send_failed (ss_writer s) = None" and "ch_queue (sh_commands (ss_shared s)) = []"
  shows "loop_turn S (quiet\<lparr>rd_inbound := Polled (Some (InFrame f))\<rparr>) s = on_frame f (build_liveness s)"
  using assms by (simp add: loop_turn_def quiet_def settled_ready_def build_liveness_def on_inbound_def Let_def)

definition asked_session :: session where
  "asked_session = fst (on_frame (Req \<lparr>req_id = ''p-1'', req_method = ''fs.read'', req_params = JNull\<rparr>)
     (build_liveness ready_session))"

lemma asked_arrived: "ss_arrived asked_session = [''p-1'']"
  by (simp add: asked_session_def on_frame_def build_liveness_def ready_session_def example_session_def example_options)

lemma asked_reachable:
  "session_reachable terse_serde port None (session_options_new example_peer) (Looping, asked_session)"
proof (rule reach_step [OF ready_reachable step_turn])
  have "send_failed (ss_writer ready_session) = None"
    by (simp add: ready_session_def example_driver send_failed_def writer_spawn_def)
  from quiet_frame [OF this] show "loop_turn terse_serde (quiet\<lparr>rd_inbound := Polled (Some (InFrame
      (Req \<lparr>req_id = ''p-1'', req_method = ''fs.read'', req_params = JNull\<rparr>)))\<rparr>) ready_session = (asked_session, None)"
    by (simp add: ready_fields unbounded_channel_def asked_session_def on_frame_def)
qed

end
