(* ===== verification/Session_Requests.thy ===== *)
theory Session_Requests
  imports Session_Trace
begin

text \<open>
  Inbound requests: the driver's three tables agree with one another, the in-flight counter and
  ceiling hold, and every request frame that arrives is answered exactly once while the session runs.
\<close>

section \<open>What has been handed to the writer\<close>

fun out_queue :: "outbound list \<Rightarrow> frame list" where
  "out_queue [] = []"
| "out_queue (OutFrame f # q) = f # out_queue q"
| "out_queue (Shutdown # q) = out_queue q"

lemma out_queue_append [simp]: "out_queue (p @ q) = out_queue p @ out_queue q"
  by (induction p rule: out_queue.induct) simp_all

definition out_frames :: "writer \<Rightarrow> frame list" where
  "out_frames w = wr_sent w @ out_queue (wr_queue w)"

definition writer_open :: "writer \<Rightarrow> bool" where
  "writer_open w \<longleftrightarrow> wr_running w \<and> Shutdown \<notin> set (wr_queue w)"

lemma out_frames_enqueue [simp]: "writer_open w \<Longrightarrow> out_frames (enqueue f w) = out_frames w @ [f]"
  by (simp add: out_frames_def enqueue_def writer_open_def)

lemma writer_open_enqueue [simp]: "writer_open (enqueue f w) = writer_open w"
  by (auto simp: writer_open_def enqueue_def)

lemma writer_turn_open [simp]: "writer_open w \<Longrightarrow> writer_open (writer_turn port w)"
  by (auto simp: writer_open_def writer_turn_def Let_def split: list.split outbound.split)

lemma writer_turn_frames [simp]: "writer_open w \<Longrightarrow> out_frames (writer_turn port w) = out_frames w"
  by (auto simp: writer_open_def writer_turn_def out_frames_def Let_def split: list.split outbound.split)

lemma writer_turns_drain:
  "wr_running w \<Longrightarrow> wr_queue w = map OutFrame fs @ [Shutdown] \<Longrightarrow>
     wr_sent ((writer_turn port ^^ Suc (length fs)) w) = wr_sent w @ fs
     \<and> wr_queue ((writer_turn port ^^ Suc (length fs)) w) = []
     \<and> \<not> wr_running ((writer_turn port ^^ Suc (length fs)) w)"
proof (induction fs arbitrary: w)
  case Nil
  then show ?case by (simp add: writer_turn_def)
next
  case (Cons f fs)
  have turn: "wr_running (writer_turn port w)" "wr_queue (writer_turn port w) = map OutFrame fs @ [Shutdown]"
    "wr_sent (writer_turn port w) = wr_sent w @ [f]"
    using Cons.prems by (simp_all add: writer_turn_def Let_def)
  from Cons.IH [OF turn(1,2)] turn(3) show ?case
    by (simp del: funpow.simps add: funpow_Suc_right)
qed

lemma open_queue:
  "Shutdown \<notin> set q \<Longrightarrow> map OutFrame (out_queue q) = q"
  "Shutdown \<notin> set q \<Longrightarrow> length (out_queue q) = length q"
  by (induction q rule: out_queue.induct) auto

text \<open>Shutting the writer down hands everything queued to the port, in order, and ends the task.\<close>

lemma shut_down_flushes:
  assumes "writer_open w"
  shows "wr_sent (shut_down port w) = out_frames w" and "wr_queue (shut_down port w) = []"
    and "\<not> wr_running (shut_down port w)"
proof -
  let ?w = "w\<lparr>wr_queue := wr_queue w @ [Shutdown]\<rparr>"
  have q: "wr_queue ?w = map OutFrame (out_queue (wr_queue w)) @ [Shutdown]"
    "length (wr_queue ?w) = Suc (length (out_queue (wr_queue w)))"
    using assms by (simp_all add: writer_open_def open_queue)
  have "shut_down port w = (writer_turn port ^^ Suc (length (out_queue (wr_queue w)))) ?w"
    using assms q(2) by (simp only: shut_down_def Let_def writer_open_def if_True)
  with writer_turns_drain [of ?w "out_queue (wr_queue w)" port] q(1) assms
  show "wr_sent (shut_down port w) = out_frames w" "wr_queue (shut_down port w) = []"
    "\<not> wr_running (shut_down port w)"
    by (simp_all add: writer_open_def out_frames_def)
qed

section \<open>The three tables\<close>

definition tracking_ok :: "request_tracking \<Rightarrow> bool" where
  "tracking_ok rt \<longleftrightarrow>
     hm_wf (rt_tasks rt) \<and> hm_wf (rt_active rt) \<and> hm_wf (rt_by_task_id rt)
     \<and> dom (hm_get (rt_tasks rt)) = dom (hm_get (rt_by_task_id rt))
     \<and> (\<forall>t i. hm_get (rt_by_task_id rt) t = Some i \<longleftrightarrow>
          (\<exists>a. hm_get (rt_active rt) i = Some a \<and> ar_cancel a = t))
     \<and> (\<forall>t \<in> dom (hm_get (rt_tasks rt)). t < rt_next_task rt)"

lemma tracking_lengths:
  assumes "tracking_ok rt"
  shows "length (rt_active rt) = length (rt_tasks rt)"
proof -
  let ?f = "\<lambda>i. ar_cancel (the (hm_get (rt_active rt) i))"
  have link: "hm_get (rt_by_task_id rt) t = Some i \<longleftrightarrow> (\<exists>a. hm_get (rt_active rt) i = Some a \<and> ar_cancel a = t)"
    for t i using assms by (simp add: tracking_ok_def)
  have "inj_on ?f (dom (hm_get (rt_active rt)))"
  proof (rule inj_onI)
    fix i j
    assume "i \<in> dom (hm_get (rt_active rt))" "j \<in> dom (hm_get (rt_active rt))" "?f i = ?f j"
    then have "hm_get (rt_by_task_id rt) (?f i) = Some i" "hm_get (rt_by_task_id rt) (?f i) = Some j"
      using link by force+
    then show "i = j" by simp
  qed
  moreover have "?f ` dom (hm_get (rt_active rt)) = dom (hm_get (rt_tasks rt))"
    using assms link by (force simp: tracking_ok_def)
  ultimately have "card (dom (hm_get (rt_active rt))) = card (dom (hm_get (rt_tasks rt)))"
    using card_image by fastforce
  then show ?thesis using assms by (simp add: tracking_ok_def hm.len_card)
qed

lemma tracking_default [simp]: "tracking_ok request_tracking_default"
  unfolding tracking_ok_def request_tracking_default_def by simp

lemma tracking_spawn:
  assumes "tracking_ok rt" and "hm_get (rt_active rt) i = None" and "t = rt_next_task rt" and "ar_cancel a = t"
  shows "tracking_ok (rt\<lparr>rt_tasks := hm_insert t k (rt_tasks rt), rt_by_task_id := hm_insert t i (rt_by_task_id rt),
    rt_active := hm_insert i a (rt_active rt), rt_next_task := Suc t\<rparr>)"
proof -
  have link: "hm_get (rt_by_task_id rt) u = Some j \<longleftrightarrow> (\<exists>a. hm_get (rt_active rt) j = Some a \<and> ar_cancel a = u)"
    for u j using assms(1) by (simp add: tracking_ok_def)
  have new: "hm_get (rt_by_task_id rt) t = None" using assms(1,3) by (auto simp: tracking_ok_def)
  have "((hm_get (rt_by_task_id rt))(t \<mapsto> i)) u = Some j \<longleftrightarrow>
      (\<exists>b. ((hm_get (rt_active rt))(i \<mapsto> a)) j = Some b \<and> ar_cancel b = u)" for u j
  proof (cases "u = t"; cases "j = i")
    assume "u = t" "j \<noteq> i"
    then show ?thesis using link [of t j] new by simp
  next
    assume "u \<noteq> t" "j = i"
    then show ?thesis using link [of u i] assms(2,4) by simp
  qed (use link [of u j] assms(4) in simp_all)
  moreover have "\<forall>u \<in> insert t (dom (hm_get (rt_tasks rt))). u < Suc t"
    using assms(1,3) by (auto simp: tracking_ok_def less_Suc_eq)
  ultimately show ?thesis using assms(1) by (simp add: tracking_ok_def)
qed

lemma tracking_join:
  assumes "tracking_ok rt" and "hm_get (rt_by_task_id rt) t = Some i"
  shows "tracking_ok (rt\<lparr>rt_tasks := hm_remove t (rt_tasks rt), rt_by_task_id := hm_remove t (rt_by_task_id rt),
    rt_active := hm_remove i (rt_active rt)\<rparr>)"
proof -
  have link: "hm_get (rt_by_task_id rt) u = Some j \<longleftrightarrow> (\<exists>a. hm_get (rt_active rt) j = Some a \<and> ar_cancel a = u)"
    for u j using assms(1) by (simp add: tracking_ok_def)
  have "((hm_get (rt_by_task_id rt))(t := None)) u = Some j \<longleftrightarrow>
      (\<exists>b. ((hm_get (rt_active rt))(i := None)) j = Some b \<and> ar_cancel b = u)" for u j
    using link [of u j] link [of t i] link [of t j] link [of u i] assms(2) by auto
  with assms(1) show ?thesis by (simp add: tracking_ok_def)
qed

section \<open>Answers\<close>

definition is_answer :: "string \<Rightarrow> frame \<Rightarrow> bool" where
  "is_answer i f = (case f of Res r \<Rightarrow> res_id r = i | Err e \<Rightarrow> err_id e = i | _ \<Rightarrow> False)"

definition answers :: "string \<Rightarrow> frame list \<Rightarrow> nat" where
  "answers i fs = length (filter (is_answer i) fs)"

lemma answers_append [simp]: "answers i (fs @ gs) = answers i fs + answers i gs"
  by (simp add: answers_def)

lemma answers_Nil [simp]: "answers i [] = 0"
  by (simp add: answers_def)

text \<open>An answer to \<open>i\<close> and to nothing else.\<close>

definition answer_to :: "string \<Rightarrow> frame \<Rightarrow> bool" where
  "answer_to i f \<longleftrightarrow> (\<forall>j. answers j [f] = of_bool (j = i))"

lemma answer_to_simps [simp]:
  "answer_to i (Res \<lparr>res_id = i, res_result = v\<rparr>)" "answer_to i (Err \<lparr>err_id = i, err_error = e\<rparr>)"
  by (simp_all add: answer_to_def answers_def is_answer_def)

lemma respond_error_answer: "\<exists>f. answer_to i f \<and> respond_error i e w = enqueue f w"
  unfolding respond_error_def by (intro exI conjI) (rule answer_to_simps, rule refl)

lemma respond_result_answer: "\<exists>f. answer_to i f \<and> respond_result S sh m i v w = enqueue f w"
proof (cases "assert_fits S sh (Res \<lparr>res_id = i, res_result = v\<rparr>) (''The result of '' @ quoted m)")
  case (Inl e)
  then show ?thesis using respond_error_answer by (simp add: respond_result_def)
next
  case (Inr u)
  then have "respond_result S sh m i v w = enqueue (Res \<lparr>res_id = i, res_result = v\<rparr>) w"
    by (simp add: respond_result_def)
  then show ?thesis using answer_to_simps(1) by blast
qed

text \<open>What \<open>on_request\<close> does: one answer now, or one task more.\<close>

definition spawned :: "request \<Rightarrow> shared \<times> request_tracking \<times> writer
    \<Rightarrow> shared \<times> request_tracking \<times> writer \<Rightarrow> bool" where
  "spawned r st st' =
     (case (st, st') of ((sh, rt, w), (sh', rt', w')) \<Rightarrow>
        hm_get (rt_active rt) (req_id r) = None \<and> length (rt_active rt) < sh_max_in_flight sh
        \<and> sh' = sh\<lparr>sh_in_flight := sh_in_flight sh + 1\<rparr> \<and> w' = w
        \<and> (\<exists>k a. ar_cancel a = rt_next_task rt
             \<and> rt' = rt\<lparr>rt_tasks := hm_insert (rt_next_task rt) k (rt_tasks rt),
                   rt_by_task_id := hm_insert (rt_next_task rt) (req_id r) (rt_by_task_id rt),
                   rt_active := hm_insert (req_id r) a (rt_active rt),
                   rt_next_task := Suc (rt_next_task rt)\<rparr>))"

lemma on_request_cases:
  "(\<exists>f. answer_to (req_id r) f \<and> on_request r (sh, rt, w) = (sh, rt, enqueue f w))
   \<or> spawned r (sh, rt, w) (on_request r (sh, rt, w))"
proof (cases "if sh_state sh = Ready then sh_remote sh else None")
  case None
  then show ?thesis using respond_error_answer by (simp add: on_request_def Let_def)
next
  case (Some remote)
  let ?m = "req_method r"
  consider "length (rt_active rt) \<ge> sh_max_in_flight sh"
    | "length (rt_active rt) < sh_max_in_flight sh" "hm_contains (rt_active rt) (req_id r)"
    | "length (rt_active rt) < sh_max_in_flight sh" "\<not> hm_contains (rt_active rt) (req_id r)"
      "is_reserved_method_name ?m \<and> \<not> is_defined_reserved_method ?m (rp_effective_minor remote)"
    | "length (rt_active rt) < sh_max_in_flight sh" "\<not> hm_contains (rt_active rt) (req_id r)"
      "\<not> (is_reserved_method_name ?m \<and> \<not> is_defined_reserved_method ?m (rp_effective_minor remote))"
    by linarith
  then show ?thesis
  proof cases
    case 4
    show ?thesis
    proof (cases "hm_get (sh_handlers sh) ?m")
      case None
      with 4 Some respond_error_answer show ?thesis by (auto simp: on_request_def Let_def)
    next
      case h: (Some h)
      let ?t = "rt_next_task rt"
      let ?k = "\<lparr>tk_handler = snd h, tk_params = req_params r, tk_context =
        \<lparr>cc_id = req_id r, cc_method = ?m, cc_cancel = ?t, cc_remote = remote\<rparr>\<rparr>"
      let ?a = "\<lparr>ar_cancel = ?t, ar_method = ?m\<rparr>"
      have "on_request r (sh, rt, w) = (sh\<lparr>sh_in_flight := sh_in_flight sh + 1\<rparr>,
          rt\<lparr>rt_tasks := hm_insert ?t ?k (rt_tasks rt), rt_by_task_id := hm_insert ?t (req_id r) (rt_by_task_id rt),
             rt_active := hm_insert (req_id r) ?a (rt_active rt), rt_next_task := Suc ?t\<rparr>, w)"
        using 4 Some h by (cases h) (auto simp: on_request_def Let_def)
      moreover have "ar_cancel ?a = ?t" by simp
      ultimately have "spawned r (sh, rt, w) (on_request r (sh, rt, w))"
        using 4(1,2) unfolding spawned_def hm_contains_def by (simp only: prod.case) blast
      then show ?thesis by blast
    qed
  qed (use Some respond_error_answer in \<open>auto simp: on_request_def Let_def\<close>)
qed

section \<open>The invariant\<close>

definition inbox_ok :: "command list \<Rightarrow> bool" where
  "inbox_ok cs \<longleftrightarrow> (\<forall>c \<in> set cs. case c of
       CmdRequest f _ \<Rightarrow> (case f of Req _ \<Rightarrow> True | _ \<Rightarrow> False)
     | CmdSend f \<Rightarrow> (case f of Evt _ \<Rightarrow> True | Ping \<Rightarrow> True | _ \<Rightarrow> False)
     | _ \<Rightarrow> True)"

definition request_inv :: "session \<Rightarrow> bool" where
  "request_inv s =
     (let rt = dr_tracking (ss_driver s); sh = ss_shared s in
      tracking_ok rt \<and> sh_in_flight sh = of_nat (length (rt_tasks rt))
      \<and> length (rt_active rt) \<le> sh_max_in_flight sh
      \<and> writer_open (ss_writer s) \<and> inbox_ok (ch_queue (sh_commands sh))
      \<and> (\<forall>i. count_list (ss_arrived s) i =
             answers i (out_frames (ss_writer s)) + of_bool (hm_contains (rt_active rt) i)))"

definition request_finished :: "session \<Rightarrow> bool" where
  "request_finished s \<longleftrightarrow> \<not> wr_running (ss_writer s) \<and> wr_queue (ss_writer s) = []
     \<and> (\<forall>i. answers i (wr_sent (ss_writer s)) \<le> count_list (ss_arrived s) i)"

lemma count_list_snoc: "count_list (xs @ [y]) x = count_list xs x + of_bool (x = y)"
  by (induction xs) auto

lemma request_inv_dispatch_request:
  assumes "request_inv s"
  shows "request_inv ((with_dispatch (on_request r) s)\<lparr>ss_arrived := ss_arrived s @ [req_id r]\<rparr>)"
proof -
  let ?sh = "ss_shared s" and ?rt = "dr_tracking (ss_driver s)" and ?w = "ss_writer s"
  have w: "writer_open ?w" using assms by (simp add: request_inv_def Let_def)
  from on_request_cases [of r ?sh ?rt ?w] show ?thesis
  proof
    assume "\<exists>f. answer_to (req_id r) f \<and> on_request r (?sh, ?rt, ?w) = (?sh, ?rt, enqueue f ?w)"
    then obtain f where f: "answer_to (req_id r) f" "on_request r (?sh, ?rt, ?w) = (?sh, ?rt, enqueue f ?w)"
      by blast
    with assms w show ?thesis
      by (simp add: request_inv_def with_dispatch_def Let_def count_list_snoc answer_to_def)
  next
    assume sp: "spawned r (?sh, ?rt, ?w) (on_request r (?sh, ?rt, ?w))"
    obtain sh' rt' w' where on: "on_request r (?sh, ?rt, ?w) = (sh', rt', w')" by (metis prod_cases3)
    with sp obtain k a where new: "hm_get (rt_active ?rt) (req_id r) = None" "w' = ?w"
      "length (rt_active ?rt) < sh_max_in_flight ?sh" "sh' = ?sh\<lparr>sh_in_flight := sh_in_flight ?sh + 1\<rparr>"
      "ar_cancel a = rt_next_task ?rt"
      and rt': "rt' = ?rt\<lparr>rt_tasks := hm_insert (rt_next_task ?rt) k (rt_tasks ?rt),
          rt_by_task_id := hm_insert (rt_next_task ?rt) (req_id r) (rt_by_task_id ?rt),
          rt_active := hm_insert (req_id r) a (rt_active ?rt), rt_next_task := Suc (rt_next_task ?rt)\<rparr>"
      by (auto simp: spawned_def)
    have ok: "tracking_ok ?rt" using assms by (simp add: request_inv_def Let_def)
    have ok': "tracking_ok rt'" unfolding rt' using tracking_spawn [OF ok new(1) refl new(5)] .
    have len: "length (rt_tasks rt') = Suc (length (rt_tasks ?rt))" "length (rt_active rt') = Suc (length (rt_active ?rt))"
      using tracking_lengths [OF ok] tracking_lengths [OF ok'] ok new(1)
      by (simp_all add: rt' hm.len_ins_new tracking_ok_def)
    have contains: "hm_contains (rt_active rt') i \<longleftrightarrow> i = req_id r \<or> hm_contains (rt_active ?rt) i" for i
      by (simp add: rt' hm_contains_def)
    have "\<not> hm_contains (rt_active ?rt) (req_id r)" using new(1) by (simp add: hm_contains_def)
    with assms on new ok' len contains show ?thesis
      by (auto simp: request_inv_def with_dispatch_def Let_def count_list_snoc)
  qed
qed

lemma request_inv_settled:
  assumes "request_inv s" and "hm_contains (rt_tasks (dr_tracking (ss_driver s))) t"
  shows "request_inv (on_settled S t out s)"
proof -
  let ?sh = "ss_shared s" and ?rt = "dr_tracking (ss_driver s)" and ?w = "ss_writer s"
  have ok: "tracking_ok ?rt" and w: "writer_open ?w" using assms(1) by (simp_all add: request_inv_def Let_def)
  from assms(2) have "t \<in> dom (hm_get (rt_tasks ?rt))" by (auto simp: hm_contains_def)
  then obtain i where i: "hm_get (rt_by_task_id ?rt) t = Some i"
    using ok unfolding tracking_ok_def by blast
  with ok obtain a where a: "hm_get (rt_active ?rt) i = Some a" by (auto simp: tracking_ok_def)
  let ?rt' = "?rt\<lparr>rt_tasks := hm_remove t (rt_tasks ?rt), rt_by_task_id := hm_remove t (rt_by_task_id ?rt),
    rt_active := hm_remove i (rt_active ?rt)\<rparr>"
  let ?sh' = "?sh\<lparr>sh_in_flight := sh_in_flight ?sh - 1\<rparr>"
  have "\<exists>f. answer_to i f \<and> on_handler_settled S t out (?sh, join_next t ?rt, ?w) = (?sh', ?rt', enqueue f ?w)"
    using i a respond_error_answer [of i _ ?w] respond_result_answer [of i S ?sh' "ar_method a" _ ?w]
    by (auto simp: on_handler_settled_def join_next_def Let_def split: sum.split)
  then obtain f where f: "answer_to i f"
    and on: "on_settled S t out s = s\<lparr>ss_shared := ?sh', ss_driver := (ss_driver s)\<lparr>dr_tracking := ?rt'\<rparr>, ss_writer := enqueue f ?w\<rparr>"
    by (auto simp: on_settled_def with_dispatch_def)
  obtain k where "hm_get (rt_tasks ?rt) t = Some k" using assms(2) by (auto simp: hm_contains_def)
  then have len: "length (rt_tasks ?rt) = Suc (length (rt_tasks ?rt'))"
    using ok hm.len_rem_present [of "rt_tasks ?rt" t k] by (simp add: tracking_ok_def)
  moreover have "length (rt_active ?rt') \<le> length (rt_active ?rt)"
    using ok hm.len_rem_le [of "rt_active ?rt" i] by (simp add: tracking_ok_def)
  moreover have "hm_contains (rt_active ?rt') j \<longleftrightarrow> j \<noteq> i \<and> hm_contains (rt_active ?rt) j" for j
    by (simp add: hm_contains_def)
  moreover have "hm_contains (rt_active ?rt) i" using a by (simp add: hm_contains_def)
  ultimately show ?thesis
    using assms(1) tracking_join [OF ok i] w f
    by (auto simp: request_inv_def on Let_def answer_to_def)
qed

lemma request_inv_enqueue:
  "request_inv s \<Longrightarrow> (\<And>i. \<not> is_answer i f) \<Longrightarrow> request_inv (s\<lparr>ss_writer := enqueue f (ss_writer s)\<rparr>)"
  by (simp add: request_inv_def Let_def) (simp add: answers_def)

lemma request_inv_fields:
  "request_inv (s\<lparr>ss_replies := x\<rparr>) = request_inv s"
  "request_inv (s\<lparr>ss_driver := (ss_driver s)\<lparr>dr_pending := p\<rparr>\<rparr>) = request_inv s"
  "request_inv (s\<lparr>ss_driver := (ss_driver s)\<lparr>dr_awaiting_pong := b\<rparr>\<rparr>) = request_inv s"
  "request_inv (s\<lparr>ss_driver := (ss_driver s)\<lparr>dr_liveness := b\<rparr>\<rparr>) = request_inv s"
  "request_inv (s\<lparr>ss_driver := (ss_driver s)\<lparr>dr_pending := p\<rparr>, ss_replies := x\<rparr>) = request_inv s"
  by (simp_all add: request_inv_def)

lemma request_inv_enqueue':
  "request_inv s \<Longrightarrow> (\<And>i. \<not> is_answer i f) \<Longrightarrow> w = ss_writer s \<Longrightarrow> request_inv (s\<lparr>ss_writer := enqueue f w\<rparr>)"
  using request_inv_enqueue by simp

text \<open>The parts of the shared state the invariant reads, and what may happen to them.\<close>

definition request_view :: "shared \<Rightarrow> u64 \<times> nat" where
  "request_view sh = (sh_in_flight sh, sh_max_in_flight sh)"

definition inbox :: "shared \<Rightarrow> command list" where
  "inbox sh = ch_queue (sh_commands sh)"

lemma request_inv_shared:
  assumes "request_inv s" and "request_view sh = request_view (ss_shared s)" and "inbox_ok (inbox sh)"
  shows "request_inv (s\<lparr>ss_shared := sh\<rparr>)"
  using assms by (simp add: request_inv_def request_view_def inbox_def Let_def)

lemma request_view_ops [step_simps]:
  "request_view (fan_out_event e sh) = request_view sh" "request_view (fan_out_pong sh) = request_view sh"
  "request_view (fst (send_command c sh)) = request_view sh"
  "request_view (fst (session_handle m h sh)) = request_view sh"
  "request_view (guard_drop g sh) = request_view sh"
  "request_view (fst (subscribe_events sh)) = request_view sh"
  "request_view (fst (subscribe_pongs sh)) = request_view sh"
  "request_view (fst (events_recv n sh)) = request_view sh" "request_view (events_drop n sh) = request_view sh"
  "request_view (fst (pongs_recv n sh)) = request_view sh" "request_view (pongs_drop n sh) = request_view sh"
  "request_view (settle_ready x sh) = request_view sh"
  "request_view (fst (on_hello hl sh)) = request_view sh"
  by (simp_all add: request_view_def fan_out_event_def fan_out_pong_def send_command_def
      register_handler_def session_handle_def guard_drop_def subscribe_events_def subscribe_pongs_def
      events_recv_def events_drop_def pongs_recv_def pongs_drop_def settle_ready_def on_hello_def Let_def
      split: prod.split option.split negotiation.split)

lemma inbox_ops [step_simps]:
  "inbox (fan_out_event e sh) = inbox sh" "inbox (fan_out_pong sh) = inbox sh"
  "inbox (fst (session_handle m h sh)) = inbox sh"
  "inbox (guard_drop g sh) = inbox sh"
  "inbox (fst (subscribe_events sh)) = inbox sh"
  "inbox (fst (subscribe_pongs sh)) = inbox sh"
  "inbox (fst (events_recv n sh)) = inbox sh" "inbox (events_drop n sh) = inbox sh"
  "inbox (fst (pongs_recv n sh)) = inbox sh" "inbox (pongs_drop n sh) = inbox sh"
  "inbox (settle_ready x sh) = inbox sh"
  "inbox (fst (on_hello hl sh)) = inbox sh"
  by (simp_all add: inbox_def fan_out_event_def fan_out_pong_def
      register_handler_def session_handle_def guard_drop_def subscribe_events_def subscribe_pongs_def
      events_recv_def events_drop_def pongs_recv_def pongs_drop_def settle_ready_def on_hello_def Let_def
      split: prod.split option.split negotiation.split)

lemma inbox_send: "inbox (fst (send_command c sh)) = inbox sh @ (if ch_receiver (sh_commands sh) then [c] else [])"
  by (simp add: inbox_def send_command_def ch_send_def)

lemma inbox_ok_send:
  "inbox_ok (inbox sh) \<Longrightarrow> inbox_ok [c] \<Longrightarrow> inbox_ok (inbox (fst (send_command c sh)))"
  by (auto simp: inbox_send inbox_ok_def)

text \<open>What \<open>emit\<close> and \<open>request_start\<close> do to the shared state: nothing, or one command more.\<close>

lemma emit_shape:
  "inbox (fst (emit S ei sh)) = inbox sh
   \<or> (\<exists>e. inbox (fst (emit S ei sh)) = inbox sh @ [CmdSend (Evt e)])"
  by (auto simp: emit_def send_command_def ch_send_def inbox_def Let_def split: sum.split)

lemma emit_view [step_simps]: "request_view (fst (emit S ei sh)) = request_view sh"
  by (simp add: emit_def send_command_def ch_send_def request_view_def Let_def split: sum.split)

definition request_command :: "string \<Rightarrow> json \<Rightarrow> session \<Rightarrow> command" where
  "request_command m p s =
     CmdRequest (Req \<lparr>req_id = snd (next_request_id (ss_shared s)), req_method = m, req_params = p\<rparr>) (ss_next_reply s)"

definition accepted :: "(remote_error + request_call) poll \<Rightarrow> request_call option" where
  "accepted out = (case out of Polled (Inr call) \<Rightarrow> Some call | _ \<Rightarrow> None)"

lemma accepted_simps [simp]:
  "accepted Pending = None" "accepted (Polled (Inl e)) = None" "accepted (Polled (Inr call)) = Some call"
  by (simp_all add: accepted_def)

lemma request_start_shape:
  fixes S m p ro s
  defines "x \<equiv> request_start S m p ro s" and "sh \<equiv> fst (next_request_id (ss_shared s))"
  shows "(accepted (snd x) = None \<and> (fst x = s \<or> fst x = s\<lparr>ss_shared := sh\<rparr>))
    \<or> (\<exists>call. accepted (snd x) = Some call \<and> rc_reply call = ss_next_reply s
       \<and> ch_receiver (sh_commands (ss_shared s)) \<and> sh_state (ss_shared s) \<noteq> Closed
       \<and> fst x = s\<lparr>ss_shared := fst (send_command (request_command m p s) sh), ss_next_reply := Suc (ss_next_reply s)\<rparr>)"
proof (cases "session_ready (ss_shared s)")
  case Pending
  then show ?thesis by (simp add: x_def request_start_def Let_def)
next
  case (Polled x)
  show ?thesis
  proof (cases x)
    case (Inl e)
    with Polled show ?thesis by (simp add: x_def request_start_def Let_def)
  next
    case (Inr remote)
    obtain i where i: "next_request_id (ss_shared s) = (sh, i)" by (metis sh_def prod.collapse)
    let ?f = "Req \<lparr>req_id = i, req_method = m, req_params = p\<rparr>"
    have cmd: "request_command m p s = CmdRequest ?f (ss_next_reply s)" by (simp add: request_command_def i)
    have recv: "ch_receiver (sh_commands sh) = ch_receiver (sh_commands (ss_shared s))"
      by (simp add: sh_def next_request_id_def Let_def)
    show ?thesis
    proof (cases "assert_fits S sh ?f (''Request '' @ quoted m)")
      case (Inl e)
      then show ?thesis using Polled Inr i by (simp add: x_def request_start_def Let_def)
    next
      case fits: (Inr u)
      have sent: "snd (send_command (request_command m p s) sh) = ch_receiver (sh_commands sh)"
        by (simp add: send_command_def ch_send_def)
      have gone: "fst (send_command (request_command m p s) sh) = sh" if "\<not> ch_receiver (sh_commands sh)"
        using that by (simp add: send_command_def ch_send_def)
      show ?thesis
        using Polled Inr i fits sent gone recv cmd
        by (cases "send_command (request_command m p s) sh"; cases "ch_receiver (sh_commands sh)")
           (simp_all add: x_def request_start_def Let_def)
    qed
  qed
qed

lemma request_start_cases:
  fixes S m p ro s
  defines "s' \<equiv> fst (request_start S m p ro s)" and "sh \<equiv> fst (next_request_id (ss_shared s))"
  shows "s' = s \<or> s' = s\<lparr>ss_shared := sh\<rparr>
    \<or> (ch_receiver (sh_commands (ss_shared s)) \<and> sh_state (ss_shared s) \<noteq> Closed
       \<and> s' = s\<lparr>ss_shared := fst (send_command (request_command m p s) sh), ss_next_reply := Suc (ss_next_reply s)\<rparr>)"
  using request_start_shape [of S m p ro s] unfolding s'_def sh_def by blast

lemma next_request_id_view [step_simps]:
  "inbox (fst (next_request_id sh)) = inbox sh" "request_view (fst (next_request_id sh)) = request_view sh"
  by (simp_all add: next_request_id_def inbox_def request_view_def Let_def)

lemma request_inv_reply [simp]: "request_inv (s\<lparr>ss_next_reply := n\<rparr>) = request_inv s"
  by (simp add: request_inv_def)

lemma inbox_ok_append: "inbox_ok (xs @ ys) \<longleftrightarrow> inbox_ok xs \<and> inbox_ok ys"
  by (auto simp: inbox_ok_def)

lemma inbox_ok_simps [simp]:
  "inbox_ok [CmdRequest (Req r) k]" "inbox_ok [CmdSend (Evt e)]" "inbox_ok [CmdSend Ping]"
  "inbox_ok [CmdClose c w]" "inbox_ok [CmdCancel i b]" "inbox_ok []"
  by (simp_all add: inbox_ok_def)

lemma request_inv_inbox: "request_inv s \<Longrightarrow> inbox_ok (inbox (ss_shared s))"
  by (simp add: request_inv_def inbox_def Let_def)

lemma request_inv_handle:
  assumes "request_inv s"
  shows "request_inv (handle_call S oper s)"
proof (cases oper)
  case (HRequest m p ro)
  note ok = request_inv_inbox [OF assms]
  let ?sh = "fst (next_request_id (ss_shared s))"
  have "request_inv (s\<lparr>ss_shared := ?sh\<rparr>)"
    using assms ok by (intro request_inv_shared) (simp_all add: step_simps)
  moreover have "request_inv (s\<lparr>ss_shared := fst (send_command (request_command m p s) ?sh)\<rparr>)"
    using assms ok by (intro request_inv_shared inbox_ok_send) (simp_all add: step_simps request_command_def)
  ultimately show ?thesis
    using assms request_start_cases [of S m p ro s] HRequest
    by (auto simp: handle_call_def)
next
  case (HEmit ei)
  have "inbox_ok (inbox (fst (emit S ei (ss_shared s))))"
    using emit_shape [of S ei "ss_shared s"] request_inv_inbox [OF assms] by (auto simp: inbox_ok_append)
  with assms HEmit show ?thesis
    by (simp add: handle_call_def on_shared_def request_inv_shared step_simps)
qed (use assms request_inv_inbox [OF assms] in
     \<open>auto simp: handle_call_def on_shared_def send_cancel_def close_now_def session_ping_def step_simps
        intro!: request_inv_shared inbox_ok_send\<close>)

lemma inbox_ok_ConsD: "inbox_ok (c # cs) \<Longrightarrow> inbox_ok [c] \<and> inbox_ok cs"
  by (simp add: inbox_ok_def)

lemma request_inv_take:
  assumes "request_inv s" and "ch_queue (sh_commands (ss_shared s)) = c # rest"
  shows "request_inv (take_command s rest)" and "inbox_ok [c]"
proof -
  have "inbox_ok (c # rest)" using request_inv_inbox [OF assms(1)] assms(2) by (simp add: inbox_def)
  then have "inbox_ok [c]" "inbox_ok rest" by (simp_all add: inbox_ok_def)
  then show "inbox_ok [c]" "request_inv (take_command s rest)"
    using assms(1) by (simp_all add: request_inv_def take_command_def Let_def)
qed

lemma request_inv_command:
  assumes "request_inv s" and "ch_queue (sh_commands (ss_shared s)) = c # rest"
  shows "keeps request_inv request_inv (on_command c (take_command s rest))"
proof -
  note take = request_inv_take [OF assms]
  show ?thesis
  proof (cases c)
    case (CmdRequest f r)
    with take(2) obtain q where "f = Req q" by (auto simp: inbox_ok_def split: frame.splits)
    with CmdRequest take(1) show ?thesis
      by (auto simp: on_command_def Let_def request_inv_fields is_answer_def intro!: request_inv_enqueue')
  next
    case (CmdSend f)
    with take(2) have "\<not> is_answer i f" for i by (auto simp: inbox_ok_def is_answer_def split: frame.splits)
    with CmdSend take(1) show ?thesis by (simp add: on_command_def request_inv_enqueue)
  qed (use take(1) in \<open>auto simp: on_command_def Let_def request_inv_fields is_answer_def intro!: request_inv_enqueue'\<close>)
qed

lemma request_inv_cancel:
  "request_inv s \<Longrightarrow>
   request_inv (s\<lparr>ss_driver := (ss_driver s)\<lparr>dr_tracking := on_cancel i (dr_tracking (ss_driver s))\<rparr>\<rparr>)"
  by (auto simp: request_inv_def on_cancel_def tracking_ok_def Let_def split: option.split)

lemma request_inv_frame:
  assumes "request_inv s"
  shows "keeps request_inv request_inv (on_frame f s)"
proof (cases f)
  case (Hello hl)
  have "request_inv (s\<lparr>ss_shared := fst (on_hello hl (ss_shared s))\<rparr>)"
    using assms request_inv_inbox [OF assms] by (intro request_inv_shared) (simp_all add: step_simps)
  with Hello show ?thesis by (simp add: on_frame_def keeps_def case_prod_beta split: option.split)
next
  case (Req r)
  then show ?thesis using request_inv_dispatch_request [OF assms] by (simp add: on_frame_def)
next
  case (Evt e)
  then show ?thesis using assms request_inv_inbox [OF assms]
    by (simp add: on_frame_def request_inv_shared step_simps)
next
  case Pong
  have "request_inv (s\<lparr>ss_driver := (ss_driver s)\<lparr>dr_awaiting_pong := False\<rparr>\<rparr>)"
    using assms by (simp add: request_inv_fields)
  from request_inv_shared [OF this, of "fan_out_pong (ss_shared s)"] Pong request_inv_inbox [OF assms]
  show ?thesis by (simp add: on_frame_def step_simps)
qed (use assms in \<open>simp_all add: on_frame_def settle_pending_def on_response_def request_inv_fields
       request_inv_cancel request_inv_enqueue is_answer_def split: option.split\<close>)

lemma register_all_view:
  "request_view (register_all hs sh) = request_view sh" "inbox (register_all hs sh) = inbox sh"
  unfolding register_all_def
  by (induction hs arbitrary: sh)
     (simp_all add: case_prod_beta register_handler_def request_view_def inbox_def Let_def)

lemma request_inv_open:
  assumes "session_open ceiling options = Inr s"
  shows "request_inv s"
proof -
  obtain sh0 where s: "ss_shared s = register_all (so_handlers options) sh0"
    and sh0: "request_view sh0 = (0, sh_max_in_flight sh0)" "inbox sh0 = []"
    and rest: "dr_tracking (ss_driver s) = request_tracking_default" "ss_writer s = writer_spawn" "ss_arrived s = []"
    using assms by (auto simp: session_open_def and_then_Inr request_view_def inbox_def unbounded_channel_def Let_def)
  have "request_view (ss_shared s) = (0, sh_max_in_flight sh0)" "inbox (ss_shared s) = []"
    using s sh0 by (simp_all add: register_all_view)
  then show ?thesis
    using rest
    by (simp add: request_inv_def request_view_def inbox_def writer_spawn_def writer_open_def out_frames_def
        hm_contains_def Let_def) (simp add: request_tracking_default_def)
qed

lemma request_inv_hello:
  assumes "request_inv s"
  shows "keeps request_inv request_inv (run_hello S outcome s)"
proof -
  have hello: "request_inv (s\<lparr>ss_hello := h\<rparr>)" for h using assms by (simp add: request_inv_def)
  have "request_inv (s\<lparr>ss_hello := h, ss_shared := settle_ready x (ss_shared s)\<rparr>)" for h x
    using request_inv_shared [OF hello [of h], of "settle_ready x (ss_shared s)"] request_inv_inbox [OF assms]
    by (simp add: step_simps)
  moreover have "request_inv (s\<lparr>ss_shared := settle_ready x (ss_shared s)\<rparr>)" for x
    using request_inv_shared [OF assms, of "settle_ready x (ss_shared s)"] request_inv_inbox [OF assms]
    by (simp add: step_simps)
  ultimately show ?thesis
    using assms hello by (simp add: run_hello_def Let_def split: option.split)
qed

lemma handle_call_driver:
  "ss_writer (handle_call S oper s) = ss_writer s" "ss_arrived (handle_call S oper s) = ss_arrived s"
  "ss_driver (handle_call S oper s) = ss_driver s" "ss_replies (handle_call S oper s) = ss_replies s"
proof -
  have "ss_writer (handle_call S oper s) = ss_writer s \<and> ss_arrived (handle_call S oper s) = ss_arrived s
      \<and> ss_driver (handle_call S oper s) = ss_driver s \<and> ss_replies (handle_call S oper s) = ss_replies s"
  proof (cases oper)
    case (HRequest m p ro)
    then show ?thesis using request_start_cases [of S m p ro s] by (auto simp: handle_call_def)
  qed (simp_all add: handle_call_def on_shared_def send_cancel_def)
  then show "ss_writer (handle_call S oper s) = ss_writer s" "ss_arrived (handle_call S oper s) = ss_arrived s"
    "ss_driver (handle_call S oper s) = ss_driver s" "ss_replies (handle_call S oper s) = ss_replies s"
    by simp_all
qed

lemma teardown_writer:
  "ss_writer (fst (teardown_run port joined reason s)) = shut_down port (ss_writer s)"
  "ss_arrived (fst (teardown_run port joined reason s)) = ss_arrived s"
  by (simp_all add: teardown_run_def drop_inbox_def Let_def split: prod.split)

lemma request_inv_teardown:
  "request_inv s \<Longrightarrow> request_finished (fst (teardown_run port joined reason s))"
  by (simp add: request_finished_def teardown_writer request_inv_def shut_down_flushes Let_def)

interpretation requests: session_invariant S port ceiling options request_inv request_inv request_finished
  for S port ceiling options
proof unfold_locales
  fix s outcome d t out c rest f oper joined reason
  show "session_open ceiling options = Inr s \<Longrightarrow> request_inv s" by (rule request_inv_open)
  show "request_inv s \<Longrightarrow> keeps request_inv request_inv (run_hello S outcome s)" by (rule request_inv_hello)
  show "request_inv s \<Longrightarrow> request_inv (build_liveness s)"
    by (simp add: build_liveness_def request_inv_fields)
  show "request_inv s \<Longrightarrow> request_inv s" .
  show "request_inv s \<Longrightarrow> sh_state (ss_shared s) = Handshaking \<Longrightarrow>
      request_inv (s\<lparr>ss_shared := fst (on_handshake_timeout d (ss_shared s))\<rparr>)"
    by (rule request_inv_shared)
       (simp_all add: on_handshake_timeout_def step_simps request_inv_inbox Let_def)
  show "request_inv s \<Longrightarrow> keeps request_inv request_inv (on_liveness_tick s)"
    by (auto simp: on_liveness_tick_def request_inv_fields is_answer_def intro!: request_inv_enqueue')
  show "request_inv s \<Longrightarrow> hm_contains (rt_tasks (dr_tracking (ss_driver s))) t \<Longrightarrow>
      request_inv (on_settled S t out s)" by (rule request_inv_settled)
  show "request_inv s \<Longrightarrow> ch_queue (sh_commands (ss_shared s)) = c # rest \<Longrightarrow>
      keeps request_inv request_inv (on_command c (take_command s rest))" by (rule request_inv_command)
  show "request_inv s \<Longrightarrow> keeps request_inv request_inv (on_frame f s)" by (rule request_inv_frame)
  show "request_inv s \<Longrightarrow> request_inv (s\<lparr>ss_writer := writer_turn port (ss_writer s)\<rparr>)"
    by (simp add: request_inv_def Let_def)
  show "request_inv s \<Longrightarrow> request_inv (handle_call S oper s)" by (rule request_inv_handle)
  show "request_inv s \<Longrightarrow> request_finished (fst (teardown_run port joined reason s))"
    by (rule request_inv_teardown)
  show "request_finished s \<Longrightarrow> request_finished (handle_call S oper s)"
    by (simp add: request_finished_def handle_call_driver)
qed

text \<open>
  C2: Every request is answered exactly once.  In every reachable state of a running session and for
  every id, the request frames that arrived under it are as many as the \<open>res\<close> and \<open>err\<close> frames handed to
  the writer for it, plus one if a handler is still working on it; a refused duplicate gets its own
  \<open>err\<close>.  A finished session never answered more often than it was asked.
\<close>

theorem answered_exactly_once:
  assumes "session_reachable S port ceiling options (ph, s)"
  shows "case ph of
      Finished _ \<Rightarrow> answers i (wr_sent (ss_writer s)) \<le> count_list (ss_arrived s) i
    | _ \<Rightarrow> count_list (ss_arrived s) i =
        answers i (out_frames (ss_writer s)) + of_bool (hm_contains (rt_active (dr_tracking (ss_driver s))) i)"
  using requests.reachable [OF assms]
  by (cases ph) (simp_all add: request_inv_def request_finished_def Let_def)

theorem answered_exactly_once_witness:
  "answers ''p-1'' (out_frames (ss_writer asked_session))
     + of_bool (hm_contains (rt_active (dr_tracking (ss_driver asked_session))) ''p-1'') = 1"
  using answered_exactly_once [OF asked_reachable, where i = "''p-1''"] asked_arrived by simp

text \<open>
  C8: The in-flight ceiling holds and the books balance: in every reachable state of a running
  session no more requests are being answered than the ceiling it announced, each has exactly one
  handler task and each task one request, and the counter handlers read is that number.
\<close>

theorem in_flight_bounded:
  assumes "session_reachable S port ceiling options (ph, s)" and "\<forall>c. ph \<noteq> Finished c"
  shows "length (rt_active (dr_tracking (ss_driver s))) \<le> sh_max_in_flight (ss_shared s)
    \<and> length (rt_tasks (dr_tracking (ss_driver s))) = length (rt_active (dr_tracking (ss_driver s)))
    \<and> sh_in_flight (ss_shared s) = of_nat (length (rt_active (dr_tracking (ss_driver s))))
    \<and> (\<forall>t. hm_contains (rt_tasks (dr_tracking (ss_driver s))) t \<longrightarrow>
         (\<exists>i a. hm_get (rt_by_task_id (dr_tracking (ss_driver s))) t = Some i
            \<and> hm_get (rt_active (dr_tracking (ss_driver s))) i = Some a \<and> ar_cancel a = t))"
proof -
  have inv: "request_inv s" using requests.reachable [OF assms(1)] assms(2) by (cases ph) auto
  then have ok: "tracking_ok (dr_tracking (ss_driver s))" by (simp add: request_inv_def Let_def)
  have "\<exists>i a. hm_get (rt_by_task_id (dr_tracking (ss_driver s))) t = Some i
      \<and> hm_get (rt_active (dr_tracking (ss_driver s))) i = Some a \<and> ar_cancel a = t"
    if "hm_contains (rt_tasks (dr_tracking (ss_driver s))) t" for t
  proof -
    have "t \<in> dom (hm_get (rt_by_task_id (dr_tracking (ss_driver s))))"
      using ok that by (auto simp: tracking_ok_def hm_contains_def)
    then obtain i where "hm_get (rt_by_task_id (dr_tracking (ss_driver s))) t = Some i" by blast
    then show ?thesis using ok unfolding tracking_ok_def by blast
  qed
  then show ?thesis using inv tracking_lengths [OF ok] by (simp add: request_inv_def Let_def)
qed

theorem in_flight_bounded_witness:
  "length (rt_active (dr_tracking (ss_driver asked_session))) \<le> sh_max_in_flight (ss_shared asked_session)"
  using in_flight_bounded [OF asked_reachable] by simp

end
