(* ===== verification/Session_Calls.thy ===== *)
theory Session_Calls
  imports Session_Requests "HOL-Library.Multiset"
begin

text \<open>
  Outbound requests: every reply channel a session hands out is in exactly one place, the command
  inbox, the pending table or the log of what reply receivers were given, and a finished session has
  given every one of them something.
\<close>

section \<open>Counting the entries of a table\<close>

definition held :: "('v \<Rightarrow> 'r) \<Rightarrow> ('k, 'v) hmap \<Rightarrow> 'r multiset" where
  "held f m = mset (map (f \<circ> snd) m)"

lemma held_Nil [simp]: "held f [] = {#}"
  by (simp add: held_def)

lemma held_insert_new: "hm_get m k = None \<Longrightarrow> held f (hm_insert k v m) = add_mset (f v) (held f m)"
  by (induction m) (auto simp: held_def hm_get_def hm_insert_def split: if_splits)

lemma held_insert_old:
  "hm_wf m \<Longrightarrow> hm_get m k = Some w \<Longrightarrow> add_mset (f w) (held f (hm_insert k v m)) = add_mset (f v) (held f m)"
  by (induction m) (auto simp: held_def hm_get_def hm_insert_def hm_wf_def split: if_splits)

lemma hm_remove_absent: "hm_get m k = None \<Longrightarrow> hm_remove k m = m"
  by (induction m) (auto simp: hm_get_def hm_remove_def split: if_splits)

lemma held_remove:
  "hm_wf m \<Longrightarrow> hm_get m k = Some w \<Longrightarrow> held f m = add_mset (f w) (held f (hm_remove k m))"
proof (induction m)
  case Nil
  then show ?case by simp
next
  case (Cons e m)
  show ?case
  proof (cases "fst e = k")
    case True
    then have "hm_get m k = None"
      using Cons.prems(1) by (auto simp: hm_get_def hm_wf_def map_of_eq_None_iff)
    from hm_remove_absent [OF this] True Cons.prems show ?thesis
      by (cases e) (auto simp: held_def hm_get_def hm_remove_def)
  next
    case False
    with Cons show ?thesis
      by (cases e) (auto simp: held_def hm_get_def hm_remove_def hm_wf_def)
  qed
qed

section \<open>The places a reply channel can be\<close>

definition replied :: "session \<Rightarrow> reply_ref multiset" where
  "replied s = mset (map fst (ss_replies s))"

definition waiting :: "session \<Rightarrow> reply_ref multiset" where
  "waiting s = held pr_reply (dr_pending (ss_driver s))"

definition queued :: "session \<Rightarrow> reply_ref multiset" where
  "queued s = mset (map fst (inbox_drops (inbox (ss_shared s))))"

definition calls_inv :: "session \<Rightarrow> bool" where
  "calls_inv s \<longleftrightarrow> hm_wf (dr_pending (ss_driver s))
     \<and> replied s + waiting s + queued s = mset [0..<ss_next_reply s]"

definition calls_finished :: "session \<Rightarrow> bool" where
  "calls_finished s \<longleftrightarrow> replied s = mset [0..<ss_next_reply s] \<and> dr_pending (ss_driver s) = []
     \<and> inbox (ss_shared s) = [] \<and> \<not> ch_receiver (sh_commands (ss_shared s))"

lemma calls_inv_cong:
  "ss_replies s' = ss_replies s \<Longrightarrow> dr_pending (ss_driver s') = dr_pending (ss_driver s) \<Longrightarrow>
   inbox (ss_shared s') = inbox (ss_shared s) \<Longrightarrow> ss_next_reply s' = ss_next_reply s \<Longrightarrow>
   calls_inv s' = calls_inv s"
  by (simp add: calls_inv_def replied_def waiting_def queued_def)

lemma inbox_drops_append: "inbox_drops (cs @ ds) = inbox_drops cs @ inbox_drops ds"
  by (induction cs rule: inbox_drops.induct) simp_all

lemma calls_inv_queue:
  assumes "calls_inv s" and "inbox sh = inbox (ss_shared s) @ cs" and "inbox_drops cs = []"
  shows "calls_inv (s\<lparr>ss_shared := sh\<rparr>)"
  using assms by (simp add: calls_inv_def replied_def waiting_def queued_def inbox_drops_append)

lemma calls_inv_request:
  assumes "calls_inv s" and "inbox sh = inbox (ss_shared s) @ [CmdRequest f (ss_next_reply s)]"
  shows "calls_inv (s\<lparr>ss_shared := sh, ss_next_reply := Suc (ss_next_reply s)\<rparr>)"
  using assms by (simp add: calls_inv_def replied_def waiting_def queued_def inbox_drops_append)

lemma request_command_inbox:
  "ch_receiver (sh_commands (ss_shared s)) \<Longrightarrow>
   \<exists>f. inbox (fst (send_command (request_command m p s) (fst (next_request_id (ss_shared s)))))
     = inbox (ss_shared s) @ [CmdRequest f (ss_next_reply s)]"
  by (simp add: inbox_send step_simps request_command_def) (simp add: next_request_id_def Let_def)

lemma calls_inv_handle:
  assumes "calls_inv s"
  shows "calls_inv (handle_call S oper s)"
proof (cases oper)
  case (HRequest m p ro)
  let ?sh = "fst (next_request_id (ss_shared s))"
  have "calls_inv (s\<lparr>ss_shared := ?sh\<rparr>)"
    using calls_inv_queue [OF assms, of ?sh "[]"] by (simp add: step_simps)
  moreover have "calls_inv (s\<lparr>ss_shared := fst (send_command (request_command m p s) ?sh), ss_next_reply := Suc (ss_next_reply s)\<rparr>)"
    if "ch_receiver (sh_commands (ss_shared s))"
    using calls_inv_request [OF assms] request_command_inbox [OF that] by blast
  ultimately show ?thesis
    using assms request_start_cases [of S m p ro s] HRequest by (auto simp: handle_call_def)
next
  case (HEmit ei)
  from emit_shape [of S ei "ss_shared s"]
  obtain cs where "inbox (fst (emit S ei (ss_shared s))) = inbox (ss_shared s) @ cs" "inbox_drops cs = []"
    by force
  with HEmit calls_inv_queue [OF assms] show ?thesis by (simp add: handle_call_def on_shared_def)
qed (use assms in \<open>auto simp: handle_call_def on_shared_def send_cancel_def close_now_def session_ping_def
       step_simps inbox_send intro: calls_inv_queue [where cs = "[]"] calls_inv_queue\<close>)

lemma calls_inv_settle:
  assumes "calls_inv s"
  shows "calls_inv (settle_pending i result s)"
proof (cases "hm_get (dr_pending (ss_driver s)) i")
  case None
  with assms show ?thesis by (simp add: settle_pending_def on_response_def calls_inv_def replied_def waiting_def queued_def)
next
  case (Some req)
  with assms held_remove [of "dr_pending (ss_driver s)" i req pr_reply] show ?thesis
    by (simp add: settle_pending_def on_response_def calls_inv_def replied_def waiting_def queued_def)
qed

lemma calls_inv_take:
  assumes "calls_inv s" and "ch_queue (sh_commands (ss_shared s)) = c # rest"
  shows "hm_wf (dr_pending (ss_driver s))"
    and "replied (take_command s rest) + waiting (take_command s rest) + queued (take_command s rest)
      + mset (map fst (inbox_drops [c])) = mset [0..<ss_next_reply s]"
  using assms inbox_drops_append [of "[c]" rest]
  by (simp_all add: calls_inv_def take_command_def replied_def waiting_def queued_def inbox_def add_ac)

lemma pending_drop:
  assumes "hm_wf p"
  shows "mset (map fst (dropped_reply i p)) + held pr_reply (hm_remove i p) = held pr_reply p"
  using assms held_remove [of p i _ pr_reply]
  by (auto simp: dropped_reply_def hm_remove_absent split: option.split)

lemma pending_replace:
  assumes "hm_wf p"
  shows "mset (map fst (dropped_reply i p)) + held pr_reply (hm_insert i r p) = add_mset (pr_reply r) (held pr_reply p)"
  using assms held_insert_new [of p i pr_reply r] held_insert_old [of p i _ pr_reply r]
  by (auto simp: dropped_reply_def split: option.split)

lemma calls_inv_command:
  assumes "calls_inv s" and "ch_queue (sh_commands (ss_shared s)) = c # rest"
  shows "keeps calls_inv calls_inv (on_command c (take_command s rest))"
proof -
  note take = calls_inv_take [OF assms]
  let ?p = "dr_pending (ss_driver s)"
  have same: "dr_pending (ss_driver (take_command s rest)) = ?p" "ss_next_reply (take_command s rest) = ss_next_reply s"
    "ss_driver (take_command s rest) = ss_driver s"
    by (simp_all add: take_command_def)
  show ?thesis
  proof (cases c)
    case (CmdRequest f r)
    show ?thesis
      using take CmdRequest same pending_replace [OF take(1)]
      by (cases f)
         (auto simp: on_command_def Let_def calls_inv_def replied_def waiting_def queued_def add_ac)
  next
    case (CmdCancel i forget)
    show ?thesis
      using take CmdCancel same
      by (auto simp: on_command_def Let_def calls_inv_def replied_def waiting_def queued_def add_ac
            pending_drop [OF take(1), of i, symmetric])
  qed (use take same in \<open>auto simp: on_command_def calls_inv_def replied_def waiting_def queued_def\<close>)
qed

text \<open>What answering a request or settling a handler can change: the counter, the tracking tables and
  one more answer in the writer's queue.\<close>

definition dispatched :: "session \<Rightarrow> session \<Rightarrow> bool" where
  "dispatched s s' \<longleftrightarrow> sh_commands (ss_shared s') = sh_commands (ss_shared s)
     \<and> sh_event_sequences (ss_shared s') = sh_event_sequences (ss_shared s)
     \<and> dr_pending (ss_driver s') = dr_pending (ss_driver s)
     \<and> ss_replies s' = ss_replies s \<and> ss_next_reply s' = ss_next_reply s
     \<and> (ss_writer s' = ss_writer s \<or> (\<exists>i f. answer_to i f \<and> ss_writer s' = enqueue f (ss_writer s)))"

lemma dispatched_request: "dispatched s (with_dispatch (on_request r) s)"
  using on_request_cases [of r "ss_shared s" "dr_tracking (ss_driver s)" "ss_writer s"]
  by (auto simp: spawned_def dispatched_def with_dispatch_def) blast

lemma dispatched_settled: "dispatched s (on_settled S t out s)"
proof -
  have "\<exists>i f. answer_to i f \<and> respond_error j e w = enqueue f w" for j e w
    using respond_error_answer by blast
  moreover have "\<exists>i f. answer_to i f \<and> respond_result S sh m j v w = enqueue f w" for sh m j v w
    using respond_result_answer by blast
  ultimately show ?thesis
    by (simp add: on_settled_def with_dispatch_def on_handler_settled_def dispatched_def Let_def
        split: option.split sum.split)
qed

lemma calls_inv_dispatched: "dispatched s s' \<Longrightarrow> calls_inv s' = calls_inv s"
  by (rule calls_inv_cong) (simp_all add: dispatched_def inbox_def)

lemma calls_inv_frame:
  assumes "calls_inv s"
  shows "keeps calls_inv calls_inv (on_frame f s)"
proof (cases f)
  case (Hello hl)
  have "calls_inv (s\<lparr>ss_shared := fst (on_hello hl (ss_shared s))\<rparr>)"
    using assms by (rule calls_inv_queue [where cs = "[]"]) (simp_all add: step_simps)
  with Hello show ?thesis by (simp add: on_frame_def keeps_def case_prod_beta split: option.split)
next
  case (Req r)
  let ?s = "with_dispatch (on_request r) s"
  have "calls_inv (?s\<lparr>ss_arrived := a\<rparr>) = calls_inv ?s" for a by (rule calls_inv_cong) simp_all
  with Req assms calls_inv_dispatched [OF dispatched_request] show ?thesis by (simp add: on_frame_def)
qed (use assms calls_inv_settle [OF assms] in \<open>simp_all add: on_frame_def calls_inv_def replied_def
       waiting_def queued_def step_simps\<close>)

lemma calls_inv_open:
  assumes "session_open ceiling options = Inr s"
  shows "calls_inv s"
proof -
  obtain sh0 where "ss_shared s = register_all (so_handlers options) sh0" "inbox sh0 = []"
    and "dr_pending (ss_driver s) = []" "ss_replies s = []" "ss_next_reply s = 0"
    using assms by (auto simp: session_open_def and_then_Inr inbox_def unbounded_channel_def Let_def)
  then show ?thesis
    by (simp add: calls_inv_def replied_def waiting_def queued_def register_all_view)
qed

lemma calls_inv_teardown:
  assumes "calls_inv s"
  shows "calls_finished (fst (teardown_run port joined reason s))"
proof -
  obtain code why error cp where parts: "teardown_parts reason = (code, why, error, cp)"
    by (cases "teardown_parts reason")
  have failed: "map fst (pending_failures code why p) = map (pr_reply \<circ> snd) p" for p
    by (simp add: pending_failures_def case_prod_beta)
  show ?thesis
    using assms failed
    by (auto simp: teardown_run_def parts Let_def drop_inbox_def calls_finished_def calls_inv_def replied_def
        waiting_def queued_def held_def inbox_def clear_subscribers_def settle_ready_def add_ac
        split: option.split)
qed

lemma calls_finished_handle:
  assumes "calls_finished s"
  shows "calls_finished (handle_call S oper s)"
proof (cases oper)
  case (HRequest m p ro)
  with assms request_start_cases [of S m p ro s] show ?thesis
    by (auto simp: handle_call_def calls_finished_def replied_def inbox_def step_simps)
      (simp_all add: next_request_id_def Let_def)
next
  case (HEmit ei)
  have "sh_commands (fst (emit S ei (ss_shared s))) = sh_commands (ss_shared s)"
    using assms by (simp add: emit_def send_command_def ch_send_def calls_finished_def Let_def split: sum.split)
  with HEmit assms show ?thesis
    by (simp add: handle_call_def calls_finished_def replied_def on_shared_def inbox_def)
qed (use assms in \<open>auto simp: handle_call_def calls_finished_def replied_def on_shared_def inbox_def
       send_cancel_def close_now_def session_ping_def send_command_def ch_send_def session_handle_def
       register_handler_def guard_drop_def subscribe_events_def subscribe_pongs_def events_recv_def
       events_drop_def pongs_recv_def pongs_drop_def Let_def split: option.split prod.split\<close>)

interpretation calls: session_invariant S port ceiling options calls_inv calls_inv calls_finished
  for S port ceiling options
proof unfold_locales
  fix s outcome d t out c rest f oper joined reason
  show "session_open ceiling options = Inr s \<Longrightarrow> calls_inv s" by (rule calls_inv_open)
  show "calls_inv s \<Longrightarrow> keeps calls_inv calls_inv (run_hello S outcome s)"
    by (simp add: run_hello_def Let_def calls_inv_def replied_def waiting_def queued_def step_simps split: option.split)
  show "calls_inv s \<Longrightarrow> calls_inv (build_liveness s)"
    by (simp add: build_liveness_def calls_inv_def replied_def waiting_def queued_def)
  show "calls_inv s \<Longrightarrow> calls_inv s" .
  show "calls_inv s \<Longrightarrow> sh_state (ss_shared s) = Handshaking \<Longrightarrow>
      calls_inv (s\<lparr>ss_shared := fst (on_handshake_timeout d (ss_shared s))\<rparr>)"
    by (erule calls_inv_queue [where cs = "[]"]) (simp_all add: on_handshake_timeout_def step_simps Let_def)
  show "calls_inv s \<Longrightarrow> keeps calls_inv calls_inv (on_liveness_tick s)"
    by (simp add: on_liveness_tick_def calls_inv_def replied_def waiting_def queued_def)
  show "calls_inv s \<Longrightarrow> hm_contains (rt_tasks (dr_tracking (ss_driver s))) t \<Longrightarrow> calls_inv (on_settled S t out s)"
    using calls_inv_dispatched [OF dispatched_settled] by simp
  show "calls_inv s \<Longrightarrow> ch_queue (sh_commands (ss_shared s)) = c # rest \<Longrightarrow>
      keeps calls_inv calls_inv (on_command c (take_command s rest))" by (rule calls_inv_command)
  show "calls_inv s \<Longrightarrow> keeps calls_inv calls_inv (on_frame f s)" by (rule calls_inv_frame)
  show "calls_inv s \<Longrightarrow> calls_inv (s\<lparr>ss_writer := writer_turn port (ss_writer s)\<rparr>)"
    by (simp add: calls_inv_def replied_def waiting_def queued_def)
  show "calls_inv s \<Longrightarrow> calls_inv (handle_call S oper s)" by (rule calls_inv_handle)
  show "calls_inv s \<Longrightarrow> calls_finished (fst (teardown_run port joined reason s))" by (rule calls_inv_teardown)
  show "calls_finished s \<Longrightarrow> calls_finished (handle_call S oper s)" by (rule calls_finished_handle)
qed

lemma upt_permuted: "mset xs = mset [0..<n] \<Longrightarrow> distinct xs \<and> set xs = {..<n}"
  using mset_eq_imp_distinct_iff [of xs "[0..<n]"] mset_eq_setD [of xs "[0..<n]"] by (auto simp: atLeast0LessThan)

text \<open>
  C3: No call is lost and none is settled twice.  While the session runs, every reply channel it ever
  handed out is in exactly one of three places: settled, in the pending table, or with its request in
  the command inbox.  Once the session has finished each has been settled exactly once, so every
  \<open>request\<close> future returns.
\<close>

theorem calls_settled_once:
  assumes "session_reachable S port ceiling options (ph, s)"
  shows "case ph of
      Finished _ \<Rightarrow> distinct (map fst (ss_replies s)) \<and> set (map fst (ss_replies s)) = {..<ss_next_reply s}
        \<and> (\<forall>r < ss_next_reply s. reply_of r s \<noteq> None)
    | _ \<Rightarrow> (let places = map fst (ss_replies s) @ map (pr_reply \<circ> snd) (dr_pending (ss_driver s))
                  @ map fst (inbox_drops (ch_queue (sh_commands (ss_shared s))))
           in distinct places \<and> set places = {..<ss_next_reply s})"
proof (cases "\<exists>c. ph = Finished c")
  case True
  then have "calls_finished s" using calls.reachable [OF assms] by auto
  then have *: "distinct (map fst (ss_replies s)) \<and> set (map fst (ss_replies s)) = {..<ss_next_reply s}"
    by (intro upt_permuted) (simp add: calls_finished_def replied_def)
  then have "r < ss_next_reply s \<Longrightarrow> reply_of r s \<noteq> None" for r
    by (auto simp: reply_of_def map_of_eq_None_iff)
  with * True show ?thesis by auto
next
  case False
  then have inv: "calls_inv s" using calls.reachable [OF assms] by (cases ph) auto
  let ?places = "map fst (ss_replies s) @ map (pr_reply \<circ> snd) (dr_pending (ss_driver s))
    @ map fst (inbox_drops (ch_queue (sh_commands (ss_shared s))))"
  have "distinct ?places \<and> set ?places = {..<ss_next_reply s}"
    using inv by (intro upt_permuted)
      (simp add: calls_inv_def replied_def waiting_def queued_def held_def inbox_def add_ac)
  with False show ?thesis by (cases ph) (simp_all add: Let_def)
qed

lemma lost_next: "ss_next_reply lost_session = 1"
  using pending_fields(2)
  by (simp add: lost_session_def teardown_run_def drop_inbox_def build_liveness_def Let_def split: prod.split)

theorem calls_settled_once_witness: "set (map fst (ss_replies lost_session)) = {0} \<and> reply_of 0 lost_session \<noteq> None"
  using calls_settled_once [OF lost_reachable] lost_next by auto

end
