(* ===== verification/Session_Events.thy ===== *)
theory Session_Events
  imports Session_Calls
begin

text \<open>
  Outbound events: the sequence numbers on the wire, what a subscriber receives, and the limit on
  stream keys.  The counters a session keeps are refined by a replay of the events it has queued: a
  receiver that follows section 11 of the protocol, expecting 0 on a new key, one more on a known one
  and forgetting a key at \<open>end\<close>, accepts every event and ends with the session's own table.
\<close>

section \<open>The receiver's view of a stream of events\<close>

fun replay :: "(string \<rightharpoonup> u64) \<Rightarrow> event list \<Rightarrow> (string \<rightharpoonup> u64) option" where
  "replay seen [] = Some seen"
| "replay seen (e # es) =
     (let key = stream_key (evt_stream_id e) (evt_topic e);
          expected = (case seen key of Some n \<Rightarrow> n | None \<Rightarrow> 0)
      in if evt_seq e \<noteq> expected then None
         else replay (if evt_end e = Some End then seen(key := None) else seen(key \<mapsto> expected + 1)) es)"

lemma replay_append: "replay seen (es @ fs) = Option.bind (replay seen es) (\<lambda>seen'. replay seen' fs)"
  by (induction es arbitrary: seen) (simp_all add: Let_def)

lemma replay_prefix: "replay seen (es @ fs) = Some seen' \<Longrightarrow> replay seen es \<noteq> None"
  by (cases "replay seen es") (simp_all add: replay_append)

primrec frame_event :: "frame \<Rightarrow> event list" where
  "frame_event (Evt e) = [e]"
| "frame_event (Hello h) = []"
| "frame_event (Req r) = []"
| "frame_event (Res r) = []"
| "frame_event (Err e) = []"
| "frame_event (Cancel c) = []"
| "frame_event Ping = []"
| "frame_event Pong = []"
| "frame_event (Close c) = []"

definition sent_events :: "frame list \<Rightarrow> event list" where
  "sent_events fs = concat (map frame_event fs)"

lemma sent_events_append [simp]: "sent_events (fs @ gs) = sent_events fs @ sent_events gs"
  by (simp add: sent_events_def)

lemma sent_events_Nil [simp]: "sent_events [] = []"
  by (simp add: sent_events_def)

lemma sent_events_single [simp]: "sent_events [f] = frame_event f"
  by (simp add: sent_events_def)

primrec command_events :: "command \<Rightarrow> event list" where
  "command_events (CmdSend f) = frame_event f"
| "command_events (CmdRequest f r) = []"
| "command_events (CmdCancel i forget) = []"
| "command_events (CmdClose code reason) = []"

definition queued_events :: "command list \<Rightarrow> event list" where
  "queued_events cs = concat (map command_events cs)"

lemma queued_events_append [simp]: "queued_events (cs @ ds) = queued_events cs @ queued_events ds"
  by (simp add: queued_events_def)

lemma queued_events_simps [simp]: "queued_events [] = []" "queued_events (c # cs) = command_events c @ queued_events cs"
  by (simp_all add: queued_events_def)

definition event_log :: "session \<Rightarrow> event list" where
  "event_log s = sent_events (out_frames (ss_writer s)) @ queued_events (inbox (ss_shared s))"

section \<open>The counters refine the replay\<close>

definition streams_ok :: "event list \<Rightarrow> shared \<Rightarrow> bool" where
  "streams_ok es sh \<longleftrightarrow> hm_wf (sh_event_sequences sh)
     \<and> length (sh_event_sequences sh) \<le> sh_max_stream_keys sh
     \<and> replay Map.empty es = Some (hm_get (sh_event_sequences sh))"

definition events_inv :: "session \<Rightarrow> bool" where
  "events_inv s \<longleftrightarrow> request_inv s \<and> streams_ok (event_log s) (ss_shared s)"

definition events_finished :: "session \<Rightarrow> bool" where
  "events_finished s \<longleftrightarrow> replay Map.empty (sent_events (wr_sent (ss_writer s))) \<noteq> None"

definition stream_view :: "shared \<Rightarrow> (string, u64) hmap \<times> nat" where
  "stream_view sh = (sh_event_sequences sh, sh_max_stream_keys sh)"

lemma streams_ok_view: "stream_view sh' = stream_view sh \<Longrightarrow> streams_ok es sh' = streams_ok es sh"
  by (simp add: streams_ok_def stream_view_def)

lemma stream_view_ops [step_simps]:
  "stream_view (fan_out_event e sh) = stream_view sh" "stream_view (fan_out_pong sh) = stream_view sh"
  "stream_view (fst (send_command c sh)) = stream_view sh"
  "stream_view (fst (session_handle m h sh)) = stream_view sh"
  "stream_view (guard_drop g sh) = stream_view sh"
  "stream_view (fst (subscribe_events sh)) = stream_view sh"
  "stream_view (fst (subscribe_pongs sh)) = stream_view sh"
  "stream_view (fst (events_recv n sh)) = stream_view sh" "stream_view (events_drop n sh) = stream_view sh"
  "stream_view (fst (pongs_recv n sh)) = stream_view sh" "stream_view (pongs_drop n sh) = stream_view sh"
  "stream_view (settle_ready x sh) = stream_view sh"
  "stream_view (fst (on_hello hl sh)) = stream_view sh"
  "stream_view (fst (next_request_id sh)) = stream_view sh"
  by (simp_all add: stream_view_def fan_out_event_def fan_out_pong_def send_command_def
      register_handler_def session_handle_def guard_drop_def subscribe_events_def subscribe_pongs_def
      events_recv_def events_drop_def pongs_recv_def pongs_drop_def settle_ready_def on_hello_def next_request_id_def Let_def
      split: prod.split option.split negotiation.split)

lemma frame_event_answer: "answer_to i f \<Longrightarrow> frame_event f = []"
proof (cases f)
  case (Evt e)
  assume "answer_to i f"
  then have "answers i [f] = 1" by (simp add: answer_to_def)
  with Evt show ?thesis by (simp add: answers_def is_answer_def)
qed simp_all

lemma streams_ok_dispatched:
  assumes "dispatched s s'" and "streams_ok (event_log s) (ss_shared s)" and "writer_open (ss_writer s)"
    and "sh_max_stream_keys (ss_shared s') = sh_max_stream_keys (ss_shared s)"
  shows "streams_ok (event_log s') (ss_shared s')"
proof -
  have "event_log s' = event_log s"
    using assms(1,3) frame_event_answer by (auto simp: dispatched_def event_log_def inbox_def)
  with assms show ?thesis by (simp add: dispatched_def streams_ok_def)
qed

definition emitted_seq :: "event_input \<Rightarrow> shared \<Rightarrow> u64" where
  "emitted_seq ei sh = (case hm_get (sh_event_sequences sh) (stream_key (ei_stream_id ei) (ei_topic ei)) of
       Some n \<Rightarrow> n | None \<Rightarrow> 0)"

definition emitted_event :: "event_input \<Rightarrow> shared \<Rightarrow> event" where
  "emitted_event ei sh = \<lparr>evt_topic = ei_topic ei, evt_seq = emitted_seq ei sh, evt_stream_id = ei_stream_id ei,
     evt_payload = ei_payload ei, evt_end = (if ei_end ei then Some End else None)\<rparr>"

definition emitted_table :: "event_input \<Rightarrow> shared \<Rightarrow> (string, u64) hmap" where
  "emitted_table ei sh = (let key = stream_key (ei_stream_id ei) (ei_topic ei) in
     if ei_end ei then hm_remove key (sh_event_sequences sh)
     else hm_insert key (emitted_seq ei sh + 1) (sh_event_sequences sh))"

lemma settled_max: "sh_max_stream_keys (ss_shared (on_settled S t out s)) = sh_max_stream_keys (ss_shared s)"
  by (simp add: on_settled_def with_dispatch_def on_handler_settled_def Let_def split: option.split sum.split)

lemma emit_cases:
  "fst (emit S ei sh) = sh
   \<or> (hm_contains (sh_event_sequences sh) (stream_key (ei_stream_id ei) (ei_topic ei))
        \<or> length (sh_event_sequences sh) < sh_max_stream_keys sh)
     \<and> stream_view (fst (emit S ei sh)) = (emitted_table ei sh, sh_max_stream_keys sh)
     \<and> inbox (fst (emit S ei sh)) = inbox sh @ [CmdSend (Evt (emitted_event ei sh))]"
proof -
  let ?room = "sh_max_stream_keys sh \<le> length (sh_event_sequences sh) \<longrightarrow>
    hm_contains (sh_event_sequences sh) (stream_key (ei_stream_id ei) (ei_topic ei))"
  let ?fits = "assert_fits S sh (Evt (emitted_event ei sh)) (''Event '' @ quoted (ei_topic ei))"
  consider "sh_state sh \<noteq> Ready" | "sh_state sh = Ready" "\<not> ?room" | e where "sh_state sh = Ready" ?room "?fits = Inl e"
    | "sh_state sh = Ready" ?room "?fits = Inr ()" "\<not> ch_receiver (sh_commands sh)"
    | "sh_state sh = Ready" ?room "?fits = Inr ()" "ch_receiver (sh_commands sh)"
    by (cases ?fits) auto
  then show ?thesis
  proof cases
    case 1
    then show ?thesis by (simp add: emit_def)
  next
    case 2
    then show ?thesis by (auto simp: emit_def Let_def)
  next
    case 3
    then have "emit S ei sh = (sh, Inl e)"
      unfolding emit_def emitted_event_def emitted_seq_def Let_def by auto
    then show ?thesis by simp
  next
    case 4
    then have "emit S ei sh = (sh, Inr False)"
      unfolding emit_def emitted_event_def emitted_seq_def Let_def by (auto simp: send_command_def ch_send_def)
    then show ?thesis by simp
  next
    case 5
    then have "fst (emit S ei sh) = (fst (send_command (CmdSend (Evt (emitted_event ei sh))) sh))
        \<lparr>sh_event_sequences := emitted_table ei sh\<rparr>"
      unfolding emit_def emitted_event_def emitted_seq_def emitted_table_def Let_def
      by (auto simp: send_command_def ch_send_def)
    with 5 show ?thesis by (auto simp: stream_view_def inbox_def send_command_def ch_send_def)
  qed
qed

lemma streams_ok_emit:
  assumes ok: "streams_ok (es @ queued_events (inbox sh)) sh"
  shows "streams_ok (es @ queued_events (inbox (fst (emit S ei sh)))) (fst (emit S ei sh))"
proof (cases "fst (emit S ei sh) = sh")
  case False
  let ?key = "stream_key (ei_stream_id ei) (ei_topic ei)" and ?t = "sh_event_sequences sh"
  let ?sh = "fst (emit S ei sh)"
  have room: "hm_get ?t ?key \<noteq> None \<or> length ?t < sh_max_stream_keys sh"
    and seqs: "sh_event_sequences ?sh = emitted_table ei sh" and max: "sh_max_stream_keys ?sh = sh_max_stream_keys sh"
    and queue: "inbox ?sh = inbox sh @ [CmdSend (Evt (emitted_event ei sh))]"
    using False emit_cases [of S ei sh] by (auto simp: stream_view_def hm_contains_def)
  have wf: "hm_wf ?t" and len: "length ?t \<le> sh_max_stream_keys sh" using ok by (simp_all add: streams_ok_def)
  have "length (sh_event_sequences ?sh) \<le> sh_max_stream_keys ?sh"
    using room len order_trans [OF hm.len_rem_le [OF wf] len] hm.len_bound_step [OF wf len room]
    by (simp add: seqs max emitted_table_def Let_def)
  moreover have "hm_wf (emitted_table ei sh)"
    using wf by (simp add: emitted_table_def hm.inv_ins hm.inv_rem Let_def)
  moreover have "replay (hm_get ?t) [emitted_event ei sh] = Some (hm_get (emitted_table ei sh))"
    using wf by (simp add: emitted_event_def emitted_seq_def emitted_table_def hm.get_ins hm.get_rem Let_def)
  moreover have "replay Map.empty (es @ queued_events (inbox ?sh)) = Some (hm_get (emitted_table ei sh))"
    using ok calculation(3) replay_append [of _ "es @ queued_events (inbox sh)" "[emitted_event ei sh]"]
    by (simp add: streams_ok_def queue del: replay.simps)
  ultimately show ?thesis by (simp add: streams_ok_def seqs)
qed (use ok in simp)

section \<open>The invariant over a run\<close>

lemma events_inv_cong:
  assumes "events_inv s" and "request_inv s'" and "stream_view (ss_shared s') = stream_view (ss_shared s)"
    and "sent_events (out_frames (ss_writer s')) = sent_events (out_frames (ss_writer s))"
    and "queued_events (inbox (ss_shared s')) = queued_events (inbox (ss_shared s))"
  shows "events_inv s'"
  using assms streams_ok_view [OF assms(3)] by (simp add: events_inv_def event_log_def)

lemma events_inv_open_writer: "events_inv s \<Longrightarrow> writer_open (ss_writer s)"
  by (simp add: events_inv_def request_inv_def Let_def)

lemma events_inv_take:
  assumes "events_inv s" and "ch_queue (sh_commands (ss_shared s)) = c # rest"
    and "request_inv s'" and "stream_view (ss_shared s') = stream_view (ss_shared s)"
    and "sent_events (out_frames (ss_writer s')) = sent_events (out_frames (ss_writer s)) @ command_events c"
    and "inbox (ss_shared s') = rest"
  shows "events_inv s'"
  using assms streams_ok_view [OF assms(4)] by (simp add: events_inv_def event_log_def inbox_def)

lemma take_stream_view [simp]: "stream_view (ss_shared (take_command s rest)) = stream_view (ss_shared s)"
  "inbox (ss_shared (take_command s rest)) = rest" "ss_writer (take_command s rest) = ss_writer s"
  by (simp_all add: take_command_def stream_view_def inbox_def)

lemma events_inv_command:
  assumes "events_inv s" and "ch_queue (sh_commands (ss_shared s)) = c # rest"
  shows "keeps events_inv events_inv (on_command c (take_command s rest))"
proof -
  have w: "writer_open (ss_writer s)" using assms(1) by (rule events_inv_open_writer)
  have req: "keeps request_inv request_inv (on_command c (take_command s rest))"
    using requests.at_command [OF _ assms(2)] assms(1) by (simp add: events_inv_def)
  have ok: "inbox_ok [c]"
    using assms request_inv_inbox [of s] inbox_ok_ConsD [of c rest] by (simp add: events_inv_def inbox_def)
  note take = events_inv_take [OF assms]
  show ?thesis
  proof (cases c)
    case (CmdRequest f r)
    with ok obtain q where "f = Req q" by (cases f) (auto simp: inbox_ok_def)
    with CmdRequest w req show ?thesis by (auto simp: on_command_def Let_def intro!: take)
  next
    case (CmdCancel i forget)
    with w req show ?thesis by (cases forget) (auto simp: on_command_def Let_def intro!: take)
  qed (use w req in \<open>auto simp: on_command_def intro!: take\<close>)
qed

lemma events_inv_frame:
  assumes "events_inv s"
  shows "keeps events_inv events_inv (on_frame f s)"
proof -
  have w: "writer_open (ss_writer s)" using assms by (rule events_inv_open_writer)
  have req: "keeps request_inv request_inv (on_frame f s)"
    using requests.at_frame assms by (simp add: events_inv_def)
  note same = events_inv_cong [OF assms]
  show ?thesis
  proof (cases f)
    case (Req r)
    let ?s = "with_dispatch (on_request r) s"
    have "sh_max_stream_keys (ss_shared ?s) = sh_max_stream_keys (ss_shared s)"
      using on_request_cases [of r "ss_shared s" "dr_tracking (ss_driver s)" "ss_writer s"]
      by (auto simp: with_dispatch_def spawned_def)
    with streams_ok_dispatched [OF dispatched_request] assms w
    have "streams_ok (event_log ?s) (ss_shared ?s)" by (simp add: events_inv_def)
    with Req req show ?thesis by (simp add: on_frame_def events_inv_def event_log_def)
  next
    case (Hello hl)
    with req w show ?thesis
      by (auto simp: on_frame_def step_simps keeps_def case_prod_beta split: option.splits intro!: same)
  qed (use req w in \<open>auto simp: on_frame_def settle_pending_def on_response_def step_simps
         split: option.splits intro!: same\<close>)
qed

lemma events_inv_handle:
  assumes "events_inv s"
  shows "events_inv (handle_call S oper s)"
proof -
  have req: "request_inv (handle_call S oper s)"
    using requests.at_handle assms by (simp add: events_inv_def)
  note same = events_inv_cong [OF assms req]
  show ?thesis
  proof (cases oper)
    case (HRequest m p ro)
    let ?sh = "fst (next_request_id (ss_shared s))"
    have "queued_events (inbox (fst (send_command (request_command m p s) ?sh))) = queued_events (inbox (ss_shared s))"
      by (simp add: inbox_send request_command_def step_simps)
    with request_start_cases [of S m p ro s] HRequest show ?thesis
      by (intro same) (auto simp: handle_call_def step_simps)
  next
    case (HEmit ei)
    let ?es = "sent_events (out_frames (ss_writer s))"
    have "streams_ok (?es @ queued_events (inbox (ss_shared s))) (ss_shared s)"
      using assms by (simp add: events_inv_def event_log_def)
    from streams_ok_emit [OF this] HEmit req show ?thesis
      by (simp add: events_inv_def event_log_def handle_call_def on_shared_def)
  qed (rule same; simp add: handle_call_def on_shared_def send_cancel_def close_now_def session_ping_def
        step_simps inbox_send)+
qed

lemma events_inv_open:
  assumes "session_open ceiling options = Inr s"
  shows "events_inv s"
proof -
  obtain sh0 where "ss_shared s = register_all (so_handlers options) sh0" "inbox sh0 = []" "sh_event_sequences sh0 = []"
    and "ss_writer s = writer_spawn"
    using assms by (auto simp: session_open_def and_then_Inr inbox_def unbounded_channel_def Let_def)
  moreover have "sh_event_sequences (register_all hs sh) = sh_event_sequences sh" for hs sh
    unfolding register_all_def
    by (induction hs arbitrary: sh) (simp_all add: case_prod_beta register_handler_def Let_def)
  ultimately show ?thesis
    using requests.at_open [OF assms]
    by (simp add: events_inv_def streams_ok_def event_log_def register_all_view writer_spawn_def out_frames_def
        hm_wf_def fun_eq_iff)
qed

lemma events_inv_teardown:
  assumes "events_inv s"
  shows "events_finished (fst (teardown_run port joined reason s))"
proof -
  have "wr_sent (shut_down port (ss_writer s)) = out_frames (ss_writer s)"
    using events_inv_open_writer [OF assms] by (rule shut_down_flushes)
  with assms show ?thesis
    by (auto simp: events_finished_def teardown_writer events_inv_def streams_ok_def event_log_def dest: replay_prefix)
qed

lemma events_inv_hello:
  assumes "events_inv s"
  shows "keeps events_inv events_inv (run_hello S outcome s)"
proof -
  have "keeps request_inv request_inv (run_hello S outcome s)"
    using requests.at_hello assms by (simp add: events_inv_def)
  then have "request_inv (fst (run_hello S outcome s))"
    by (simp add: keeps_def case_prod_beta split: option.splits)
  moreover have "stream_view (ss_shared (fst (run_hello S outcome s))) = stream_view (ss_shared s)
      \<and> ss_writer (fst (run_hello S outcome s)) = ss_writer s
      \<and> inbox (ss_shared (fst (run_hello S outcome s))) = inbox (ss_shared s)"
    by (simp add: run_hello_def Let_def step_simps split: option.split)
  ultimately have "events_inv (fst (run_hello S outcome s))"
    by (intro events_inv_cong [OF assms]) simp_all
  then show ?thesis by (simp add: keeps_def case_prod_beta split: option.split)
qed

interpretation events: session_invariant S port ceiling options events_inv events_inv events_finished
  for S port ceiling options
proof unfold_locales
  fix s outcome d t out c rest f oper joined reason
  show "session_open ceiling options = Inr s \<Longrightarrow> events_inv s" by (rule events_inv_open)
  show "events_inv s \<Longrightarrow> keeps events_inv events_inv (run_hello S outcome s)"
    by (rule events_inv_hello)
  show "events_inv s \<Longrightarrow> events_inv (build_liveness s)"
    using requests.at_liveness [of s] by (auto simp: build_liveness_def events_inv_def event_log_def)
  show "events_inv s \<Longrightarrow> events_inv s" .
  show "events_inv s \<Longrightarrow> sh_state (ss_shared s) = Handshaking \<Longrightarrow>
      events_inv (s\<lparr>ss_shared := fst (on_handshake_timeout d (ss_shared s))\<rparr>)"
    using requests.at_timeout [of s d]
    by (rule_tac events_inv_cong [of s]) (simp_all add: events_inv_def on_handshake_timeout_def step_simps Let_def)
  show "events_inv s \<Longrightarrow> keeps events_inv events_inv (on_liveness_tick s)"
    using requests.at_tick [of s] events_inv_open_writer [of s]
    by (auto simp: on_liveness_tick_def events_inv_def event_log_def)
  show "events_inv s \<Longrightarrow> hm_contains (rt_tasks (dr_tracking (ss_driver s))) t \<Longrightarrow> events_inv (on_settled S t out s)"
    using requests.at_settled [of s t S out] streams_ok_dispatched [OF dispatched_settled [of s S t out]]
      events_inv_open_writer [of s]
    by (simp add: events_inv_def settled_max)
  show "events_inv s \<Longrightarrow> ch_queue (sh_commands (ss_shared s)) = c # rest \<Longrightarrow>
      keeps events_inv events_inv (on_command c (take_command s rest))" by (rule events_inv_command)
  show "events_inv s \<Longrightarrow> keeps events_inv events_inv (on_frame f s)" by (rule events_inv_frame)
  show "events_inv s \<Longrightarrow> events_inv (s\<lparr>ss_writer := writer_turn port (ss_writer s)\<rparr>)"
    using requests.at_writer [of s port] events_inv_open_writer [of s]
    by (simp add: events_inv_def event_log_def)
  show "events_inv s \<Longrightarrow> events_inv (handle_call S oper s)" by (rule events_inv_handle)
  show "events_inv s \<Longrightarrow> events_finished (fst (teardown_run port joined reason s))" by (rule events_inv_teardown)
  show "events_finished s \<Longrightarrow> events_finished (handle_call S oper s)"
    by (simp add: events_finished_def handle_call_driver)
qed

text \<open>
  C4: The sequence numbers a session puts on the wire are the ones its peer expects.  At every moment
  of a run, a receiver that replays the events queued so far (those handed to the writer, then those
  still in the inbox) accepts each of them and ends with exactly the counters the session keeps, of
  which there are never more than its stream-key limit; what a finished session has sent is accepted
  too, whatever the queue lost.
\<close>

theorem event_sequences_refine:
  assumes "session_reachable S port ceiling options (ph, s)"
  shows "case ph of
      Finished _ \<Rightarrow> replay Map.empty (sent_events (wr_sent (ss_writer s))) \<noteq> None
    | _ \<Rightarrow> replay Map.empty (event_log s) = Some (hm_get (sh_event_sequences (ss_shared s)))
        \<and> length (sh_event_sequences (ss_shared s)) \<le> sh_max_stream_keys (ss_shared s)"
  using events.reachable [OF assms]
  by (cases ph) (simp_all add: events_inv_def streams_ok_def events_finished_def)

text \<open>A session that has emitted one event of a stream.\<close>

definition example_event :: event_input where
  "example_event = \<lparr>ei_topic = ''fs.changed'', ei_payload = JNull, ei_stream_id = Some ''s-1'', ei_end = False\<rparr>"

lemma example_emits:
  "hm_get (sh_event_sequences (ss_shared (handle_call terse_serde (HEmit example_event) ready_session))) ''s-1'' = Some 1"
proof -
  let ?sh = "ss_shared ready_session"
  have sh: "sh_event_sequences ?sh = []" "sh_max_stream_keys ?sh = 1024" "4096 \<le> send_limit_bytes ?sh"
    by (simp_all add: ready_session_def example_session_def example_options send_limit_bytes_def example_remote_def)
  have names: "is_valid_method_name ''fs.changed''" "chars_count ''s-1'' = 3" by code_simp+
  have "validate (Evt \<lparr>evt_topic = ''fs.changed'', evt_seq = 0, evt_stream_id = Some ''s-1'', evt_payload = JNull, evt_end = None\<rparr>) = Inr ()"
    by (simp add: validate_def validate_event_def check_id_def check_length_def check_method_name_def names
        MAX_ID_CHARS_def and_then_def)
  from terse_fits [OF this sh(3)] show ?thesis
    by (simp add: handle_call_def on_shared_def emit_def example_event_def ready_fields sh stream_key_def
        hm_contains_def send_command_def ch_send_def unbounded_channel_def Let_def hm_get_def hm_insert_def)
qed

theorem event_sequences_refine_witness:
  "\<exists>seen. replay Map.empty (event_log (handle_call terse_serde (HEmit example_event) ready_session)) = Some seen
     \<and> seen ''s-1'' = Some 1"
proof -
  have "session_reachable terse_serde (\<lambda>_. Sent) None (session_options_new example_peer)
      (Looping, handle_call terse_serde (HEmit example_event) ready_session)"
    using ready_reachable step_handle by (rule reach_step)
  from event_sequences_refine [OF this] example_emits show ?thesis by simp
qed

end
