(* ===== verification/Session_Tables.thy ===== *)
theory Session_Tables
  imports Session_Events
begin

text \<open>
  The tables of a session stay well formed: keys are distinct, and every subscription refers to a
  channel that exists and is listed once.
\<close>

section \<open>Sending to subscribers\<close>

definition live :: "(nat, 'm channel) hmap \<Rightarrow> nat \<Rightarrow> bool" where
  "live heap n \<longleftrightarrow> (case hm_get heap n of Some ch \<Rightarrow> ch_receiver ch | None \<Rightarrow> False)"

definition delivered :: "'m list \<Rightarrow> 'm channel \<Rightarrow> 'm channel" where
  "delivered msgs ch = (if ch_receiver ch then ch\<lparr>ch_queue := ch_queue ch @ msgs\<rparr> else ch)"

lemma ch_send_delivered: "ch_send msg ch = (delivered [msg] ch, ch_receiver ch)"
  by (simp add: ch_send_def delivered_def)

lemma delivered_receiver [simp]: "ch_receiver (delivered msgs ch) = ch_receiver ch"
  by (simp add: delivered_def)

lemma live_insert: "hm_wf heap \<Longrightarrow> live (hm_insert n ch heap) k = (if k = n then ch_receiver ch else live heap k)"
  by (simp add: live_def)

lemma retain_send_kept:
  "hm_wf heap \<Longrightarrow> distinct ns \<Longrightarrow> fst (retain_send msg ns heap) = filter (live heap) ns"
proof (induction ns arbitrary: heap)
  case (Cons n ns)
  show ?case
  proof (cases "hm_get heap n")
    case None
    with Cons show ?thesis by (simp add: live_def)
  next
    case (Some ch)
    have "filter (live (hm_insert n (delivered [msg] ch) heap)) ns = filter (live heap) ns"
      using Cons.prems by (intro filter_cong) (auto simp: live_insert)
    with Some Cons show ?thesis
      by (simp add: ch_send_delivered case_prod_beta hm.inv_ins) (simp add: live_def)
  qed
qed simp

lemma retain_send_heap:
  "hm_wf heap \<Longrightarrow> distinct ns \<Longrightarrow> hm_wf (snd (retain_send msg ns heap)) \<and>
   hm_get (snd (retain_send msg ns heap)) k =
     (if k \<in> set ns then map_option (delivered [msg]) (hm_get heap k) else hm_get heap k)"
proof (induction ns arbitrary: heap)
  case (Cons n ns)
  show ?case
  proof (cases "hm_get heap n")
    case None
    with Cons show ?thesis by auto
  next
    case (Some ch)
    with Cons show ?thesis
      by (auto simp: ch_send_delivered case_prod_beta hm.inv_ins hm.get_ins)
  qed
qed simp

definition subscriptions_ok :: "nat list \<Rightarrow> (nat, 'm channel) hmap \<Rightarrow> bool" where
  "subscriptions_ok ns heap \<longleftrightarrow> hm_wf heap \<and> distinct ns \<and> set ns \<subseteq> dom (hm_get heap)"

lemma subscriptions_retain:
  assumes "subscriptions_ok ns heap"
  shows "subscriptions_ok (fst (retain_send msg ns heap)) (snd (retain_send msg ns heap))"
proof -
  have "hm_wf heap" "distinct ns" using assms by (simp_all add: subscriptions_ok_def)
  from retain_send_kept [OF this] retain_send_heap [OF this] assms show ?thesis
    by (auto simp: subscriptions_ok_def live_def split: option.splits)
qed

lemma subscriptions_insert:
  "subscriptions_ok ns heap \<Longrightarrow> subscriptions_ok ns (hm_insert n ch heap)"
  by (auto simp: subscriptions_ok_def hm.inv_ins hm.get_ins)

lemma fold_max_bound: "(k::nat) \<in> set xs \<Longrightarrow> k \<le> fold max xs a"
  using Max.set_eq_fold [of a xs] Max_ge [of "insert a (set xs)" k] by simp

lemma fresh_name_absent: "hm_get heap (fresh_name heap) = None"
proof (rule ccontr)
  assume "hm_get heap (fresh_name heap) \<noteq> None"
  then have "fresh_name heap \<in> set (map fst heap)" by (auto simp: hm_get_def map_of_eq_None_iff)
  from fold_max_bound [OF this, of 0] show False by (simp add: fresh_name_def)
qed

lemma subscriptions_fresh:
  assumes "subscriptions_ok ns heap"
  shows "subscriptions_ok (ns @ [fresh_name heap]) (hm_insert (fresh_name heap) ch heap)"
proof -
  have "fresh_name heap \<notin> set ns"
    using assms fresh_name_absent [of heap] by (auto simp: subscriptions_ok_def)
  with assms show ?thesis by (auto simp: subscriptions_ok_def hm.inv_ins hm.get_ins)
qed

lemma drop_senders_wf: "hm_wf heap \<Longrightarrow> hm_wf (drop_senders ns heap)"
  by (simp add: hm_wf_def drop_senders_def comp_def case_prod_beta)

section \<open>The well-formed shared state\<close>

definition shared_wf :: "shared \<Rightarrow> bool" where
  "shared_wf sh \<longleftrightarrow> hm_wf (sh_handlers sh)
     \<and> subscriptions_ok (sh_event_subscribers sh) (sh_event_channels sh)
     \<and> subscriptions_ok (sh_pong_subscribers sh) (sh_pong_channels sh)"

lemma shared_wf_simps [simp]:
  "shared_wf (sh\<lparr>sh_in_flight := n\<rparr>) = shared_wf sh" "shared_wf (sh\<lparr>sh_state := st\<rparr>) = shared_wf sh"
  "shared_wf (sh\<lparr>sh_commands := ch\<rparr>) = shared_wf sh" "shared_wf (sh\<lparr>sh_ready := r\<rparr>) = shared_wf sh"
  "shared_wf (sh\<lparr>sh_remote := rp\<rparr>) = shared_wf sh" "shared_wf (sh\<lparr>sh_closure := c\<rparr>) = shared_wf sh"
  "shared_wf (sh\<lparr>sh_request_sequence := q\<rparr>) = shared_wf sh"
  "shared_wf (sh\<lparr>sh_event_sequences := es\<rparr>) = shared_wf sh"
  by (simp_all add: shared_wf_def)

lemma shared_wf_ops:
  assumes "shared_wf sh"
  shows "shared_wf (fan_out_event e sh)" "shared_wf (fan_out_pong sh)" "shared_wf (fst (send_command c sh))"
    "shared_wf (fst (register_handler m h sh))" "shared_wf (fst (session_handle m h sh))"
    "shared_wf (guard_drop g sh)" "shared_wf (fst (subscribe_events sh))" "shared_wf (fst (subscribe_pongs sh))"
    "shared_wf (fst (events_recv n sh))" "shared_wf (events_drop n sh)" "shared_wf (settle_ready x sh)"
    "shared_wf (fst (pongs_recv n sh))" "shared_wf (pongs_drop n sh)"
    "shared_wf (fst (on_hello hl sh))" "shared_wf (fst (next_request_id sh))"
    "shared_wf (clear_subscribers sh)"
proof -
  have h: "hm_wf (sh_handlers sh)" and e: "subscriptions_ok (sh_event_subscribers sh) (sh_event_channels sh)"
    and p: "subscriptions_ok (sh_pong_subscribers sh) (sh_pong_channels sh)"
    using assms by (simp_all add: shared_wf_def)
  show "shared_wf (fan_out_event e sh)" "shared_wf (fan_out_pong sh)"
    using h e p subscriptions_retain [OF e] subscriptions_retain [OF p]
    by (auto simp: fan_out_event_def fan_out_pong_def shared_wf_def case_prod_beta)
  show "shared_wf (fst (subscribe_events sh))" "shared_wf (fst (subscribe_pongs sh))"
    using h e p by (simp_all add: subscribe_events_def subscribe_pongs_def shared_wf_def subscriptions_fresh Let_def)
  show "shared_wf (fst (events_recv n sh))" "shared_wf (events_drop n sh)"
    "shared_wf (fst (pongs_recv n sh))" "shared_wf (pongs_drop n sh)"
    using h e p by (auto simp: events_recv_def events_drop_def pongs_recv_def pongs_drop_def shared_wf_def subscriptions_insert
        split: option.split prod.split)
  show "shared_wf (fst (register_handler m h sh))" "shared_wf (fst (session_handle m h sh))" "shared_wf (guard_drop g sh)"
    using h e p by (auto simp: register_handler_def session_handle_def guard_drop_def shared_wf_def hm.inv_ins hm.inv_rem
        Let_def split: option.split)
  show "shared_wf (clear_subscribers sh)"
    using h e p by (simp add: clear_subscribers_def shared_wf_def subscriptions_ok_def drop_senders_wf)
  show "shared_wf (fst (send_command c sh))" "shared_wf (settle_ready x sh)"
    "shared_wf (fst (on_hello hl sh))" "shared_wf (fst (next_request_id sh))"
    using assms by (simp_all add: send_command_def settle_ready_def on_hello_def next_request_id_def Let_def
        split: prod.split option.split negotiation.split)
qed

definition tables_inv :: "session \<Rightarrow> bool" where
  "tables_inv s \<longleftrightarrow> shared_wf (ss_shared s) \<and> hm_wf (dr_pending (ss_driver s))"

lemma emit_shared_wf: "shared_wf sh \<Longrightarrow> shared_wf (fst (emit S ei sh))"
  by (simp add: emit_def send_command_def ch_send_def Let_def split: sum.split)

lemma dispatched_shared_wf:
  "shared_wf (ss_shared (with_dispatch (on_request r) s)) = shared_wf (ss_shared s)"
  "shared_wf (ss_shared (on_settled S t out s)) = shared_wf (ss_shared s)"
proof -
  show "shared_wf (ss_shared (with_dispatch (on_request r) s)) = shared_wf (ss_shared s)"
    using on_request_cases [of r "ss_shared s" "dr_tracking (ss_driver s)" "ss_writer s"]
    by (auto simp: with_dispatch_def spawned_def)
  show "shared_wf (ss_shared (on_settled S t out s)) = shared_wf (ss_shared s)"
    by (simp add: on_settled_def with_dispatch_def on_handler_settled_def Let_def split: option.split sum.split)
qed

lemma tables_inv_handle:
  assumes "tables_inv s"
  shows "tables_inv (handle_call S oper s)"
proof (cases oper)
  case (HRequest m p ro)
  with assms request_start_cases [of S m p ro s] show ?thesis
    by (auto simp: handle_call_def tables_inv_def shared_wf_ops)
qed (use assms in \<open>simp_all add: handle_call_def tables_inv_def on_shared_def send_cancel_def close_now_def
       session_ping_def shared_wf_ops emit_shared_wf\<close>)

lemma tables_inv_frame:
  assumes "tables_inv s"
  shows "keeps tables_inv tables_inv (on_frame f s)"
proof (cases f)
  case (Req r)
  with assms dispatched_request [of s r] show ?thesis
    by (simp add: on_frame_def tables_inv_def dispatched_shared_wf) (simp add: dispatched_def)
next
  case (Hello hl)
  with assms show ?thesis
    by (simp add: on_frame_def tables_inv_def keeps_def case_prod_beta shared_wf_ops split: option.split)
qed (use assms in \<open>simp_all add: on_frame_def tables_inv_def settle_pending_def on_response_def shared_wf_ops
       hm.inv_rem split: option.split\<close>)

lemma tables_inv_open:
  assumes "session_open ceiling options = Inr s"
  shows "tables_inv s"
proof -
  obtain sh0 where sh0: "ss_shared s = register_all (so_handlers options) sh0" "shared_wf sh0"
    and "dr_pending (ss_driver s) = []"
    using assms by (auto simp: session_open_def and_then_Inr shared_wf_def subscriptions_ok_def hm_wf_def Let_def)
  moreover have "shared_wf sh \<Longrightarrow> shared_wf (register_all hs sh)" for hs sh
    unfolding register_all_def by (induction hs arbitrary: sh) (simp_all add: case_prod_beta shared_wf_ops)
  ultimately show ?thesis by (simp add: tables_inv_def hm_wf_def)
qed

lemma tables_inv_teardown:
  "tables_inv s \<Longrightarrow> tables_inv (fst (teardown_run port joined reason s))"
  by (simp add: teardown_run_def drop_inbox_def tables_inv_def shared_wf_ops hm_wf_def Let_def split: prod.split)

interpretation tables: session_invariant S port ceiling options tables_inv tables_inv tables_inv
  for S port ceiling options
proof unfold_locales
  fix s outcome d t out c rest f oper joined reason
  show "session_open ceiling options = Inr s \<Longrightarrow> tables_inv s" by (rule tables_inv_open)
  show "tables_inv s \<Longrightarrow> keeps tables_inv tables_inv (run_hello S outcome s)"
    by (simp add: run_hello_def Let_def tables_inv_def shared_wf_ops split: option.split)
  show "tables_inv s \<Longrightarrow> tables_inv (build_liveness s)" by (simp add: build_liveness_def tables_inv_def)
  show "tables_inv s \<Longrightarrow> tables_inv s" .
  show "tables_inv s \<Longrightarrow> sh_state (ss_shared s) = Handshaking \<Longrightarrow>
      tables_inv (s\<lparr>ss_shared := fst (on_handshake_timeout d (ss_shared s))\<rparr>)"
    by (simp add: on_handshake_timeout_def tables_inv_def shared_wf_ops Let_def)
  show "tables_inv s \<Longrightarrow> keeps tables_inv tables_inv (on_liveness_tick s)"
    by (simp add: on_liveness_tick_def tables_inv_def)
  show "tables_inv s \<Longrightarrow> hm_contains (rt_tasks (dr_tracking (ss_driver s))) t \<Longrightarrow> tables_inv (on_settled S t out s)"
    using dispatched_settled [of s S t out] by (simp add: tables_inv_def dispatched_shared_wf dispatched_def)
  show "tables_inv s \<Longrightarrow> ch_queue (sh_commands (ss_shared s)) = c # rest \<Longrightarrow>
      keeps tables_inv tables_inv (on_command c (take_command s rest))"
    by (cases c) (auto simp: on_command_def take_command_def tables_inv_def hm.inv_ins hm.inv_rem Let_def split: frame.split)
  show "tables_inv s \<Longrightarrow> keeps tables_inv tables_inv (on_frame f s)" by (rule tables_inv_frame)
  show "tables_inv s \<Longrightarrow> tables_inv (s\<lparr>ss_writer := writer_turn port (ss_writer s)\<rparr>)"
    by (simp add: tables_inv_def)
  show "tables_inv s \<Longrightarrow> tables_inv (handle_call S oper s)" by (rule tables_inv_handle)
  show "tables_inv s \<Longrightarrow> tables_inv (fst (teardown_run port joined reason s))" by (rule tables_inv_teardown)
qed

text \<open>
  The session's tables are well formed in every reachable state, running or finished: handlers,
  subscriptions and pending requests have distinct keys, every subscriber is listed once and has its
  channel, and while the session runs the three request tables agree.
\<close>

lemma session_well_formed:
  assumes "session_reachable S port ceiling options (ph, s)"
  shows "shared_wf (ss_shared s) \<and> hm_wf (dr_pending (ss_driver s))
    \<and> ((\<exists>c. ph = Finished c) \<or> tracking_ok (dr_tracking (ss_driver s)))"
  using tables.reachable [OF assms] requests.reachable [OF assms]
  by (cases ph) (auto simp: tables_inv_def request_inv_def Let_def)

end
