(* ===== verification/Session_Delivery.thy ===== *)
theory Session_Delivery
  imports Session_Tables
begin

text \<open>
  What the parts of a session promise one call at a time: subscriptions deliver every event once and
  in order, a stale guard leaves a newer handler alone, request ids do not repeat, an unanswered ping
  closes the session, queued commands run in order, and teardown leaves nothing open.
\<close>

section \<open>Subscriptions\<close>

lemma fan_out_step:
  assumes "subscriptions_ok (sh_event_subscribers sh) (sh_event_channels sh)" and "sh_state sh = Ready"
  shows "subscriptions_ok (sh_event_subscribers (fan_out_event e sh)) (sh_event_channels (fan_out_event e sh))" and "sh_state (fan_out_event e sh) = Ready"
    and "set (sh_event_subscribers (fan_out_event e sh)) = {n \<in> set (sh_event_subscribers sh). live (sh_event_channels sh) n}"
    and "hm_get (sh_event_channels (fan_out_event e sh)) n =
      (if n \<in> set (sh_event_subscribers sh) then map_option (delivered [e]) (hm_get (sh_event_channels sh) n)
       else hm_get (sh_event_channels sh) n)"
proof -
  let ?ns = "sh_event_subscribers sh" and ?heap = "sh_event_channels sh"
  have wf: "hm_wf ?heap" "distinct ?ns" using assms(1) by (simp_all add: subscriptions_ok_def)
  have eq: "fan_out_event e sh = sh\<lparr>sh_event_subscribers := fst (retain_send e ?ns ?heap),
      sh_event_channels := snd (retain_send e ?ns ?heap)\<rparr>"
    using assms(2) by (simp add: fan_out_event_def case_prod_beta)
  note facts = retain_send_kept [OF wf] retain_send_heap [OF wf]
  show "sh_state (fan_out_event e sh) = Ready"
    "set (sh_event_subscribers (fan_out_event e sh)) = {n \<in> set ?ns. live ?heap n}"
    "hm_get (sh_event_channels (fan_out_event e sh)) n =
      (if n \<in> set ?ns then map_option (delivered [e]) (hm_get ?heap n) else hm_get ?heap n)"
    using assms(2) by (auto simp: eq facts)
  show "subscriptions_ok (sh_event_subscribers (fan_out_event e sh)) (sh_event_channels (fan_out_event e sh))"
    using assms(1) by (auto simp: eq facts subscriptions_ok_def)
qed

text \<open>
  C13: Every event that arrives while the session is ready and a subscription is open is delivered to it
  once and in order: after any number of events each subscribed channel whose receiver is alive holds
  what it held before followed by exactly those events, a dropped subscription is forgotten, and no
  other channel changes.
\<close>

theorem fan_out_in_order:
  assumes "subscriptions_ok (sh_event_subscribers sh) (sh_event_channels sh)" and "sh_state sh = Ready"
  shows "(\<forall>n. hm_get (sh_event_channels (fold fan_out_event es sh)) n =
       (if n \<in> set (sh_event_subscribers sh) then map_option (delivered es) (hm_get (sh_event_channels sh) n)
        else hm_get (sh_event_channels sh) n))
    \<and> (es \<noteq> [] \<longrightarrow> set (sh_event_subscribers (fold fan_out_event es sh)) =
         {n \<in> set (sh_event_subscribers sh). live (sh_event_channels sh) n})"
  using assms
proof (induction es arbitrary: sh)
  case Nil
  have "map_option (delivered []) x = x" for x :: "event channel option"
    by (cases x) (simp_all add: delivered_def)
  then show ?case by simp
next
  case (Cons e es)
  note step = fan_out_step [OF Cons.prems, where e = e]
  have live: "live (sh_event_channels (fan_out_event e sh)) n = live (sh_event_channels sh) n" for n
    by (auto simp: live_def step(4) delivered_def split: option.split)
  have "delivered es (delivered [e] ch) = delivered (e # es) ch" for ch by (simp add: delivered_def)
  moreover have "delivered (e # es) ch = ch" if "\<not> ch_receiver ch" for ch es using that by (simp add: delivered_def)
  ultimately show ?case
    using Cons.IH [OF step(1,2)]
    by (cases "es = []") (auto simp: step(3,4) live option.map_comp comp_def live_def split: option.splits)
qed

lemma ready_subscribed:
  "subscriptions_ok (sh_event_subscribers (fst (subscribe_events (ss_shared ready_session))))
     (sh_event_channels (fst (subscribe_events (ss_shared ready_session))))"
  "sh_state (fst (subscribe_events (ss_shared ready_session))) = Ready"
  by (simp_all add: subscribe_events_def ready_session_def example_session_def example_options subscriptions_ok_def
      hm_wf_def fresh_name_def hm_insert_def hm_get_def domIff)

theorem fan_out_in_order_witness:
  "\<forall>e1 e2. hm_get (sh_event_channels (fold fan_out_event [e1, e2] (fst (subscribe_events (ss_shared ready_session))))) 1
     = Some \<lparr>ch_queue = [e1, e2], ch_sender = True, ch_receiver = True\<rparr>"
  using fan_out_in_order [OF ready_subscribed, of "[e1, e2]" for e1 e2]
  by (simp add: subscribe_events_def ready_session_def example_session_def example_options fresh_name_def
      hm_insert_def hm_get_def unbounded_channel_def delivered_def)

section \<open>Handler guards\<close>

lemma register_all_simps [simp]:
  "register_all [] sh = sh"
  "register_all (x # hs) sh = register_all hs (fst (register_handler (fst x) (snd x) sh))"
  by (simp_all add: register_all_def case_prod_beta)

lemma register_other:
  "m \<notin> fst ` set hs \<Longrightarrow> hm_wf (sh_handlers sh) \<Longrightarrow>
   hm_get (sh_handlers (register_all hs sh)) m = hm_get (sh_handlers sh) m"
  by (induction hs arbitrary: sh) (auto simp: case_prod_beta register_handler_def Let_def hm.inv_ins hm.get_ins)

lemma register_wf:
  "hm_wf (sh_handlers sh) \<Longrightarrow> hm_wf (sh_handlers (register_all hs sh))"
  by (induction hs arbitrary: sh) (simp_all add: case_prod_beta register_handler_def Let_def hm.inv_ins)

lemma register_last:
  assumes "m \<in> fst ` set hs" and "hm_wf (sh_handlers sh)"
  shows "\<exists>k. k < length hs \<and> fst (hs ! k) = m \<and> hm_get (sh_handlers (register_all hs sh)) m
    = Some (sh_next_generation sh + of_nat k, snd (hs ! k))"
  using assms
proof (induction hs arbitrary: sh)
  case (Cons x hs)
  let ?sh = "fst (register_handler (fst x) (snd x) sh)"
  have wf: "hm_wf (sh_handlers ?sh)" using Cons.prems by (simp add: register_handler_def Let_def hm.inv_ins)
  have gen: "sh_next_generation ?sh = sh_next_generation sh + 1" by (simp add: register_handler_def Let_def)
  show ?case
  proof (cases "m \<in> fst ` set hs")
    case True
    from Cons.IH [OF True wf] obtain k where k: "k < length hs" "fst (hs ! k) = m"
      "hm_get (sh_handlers (register_all hs ?sh)) m = Some (sh_next_generation sh + 1 + of_nat k, snd (hs ! k))"
      using gen by auto
    then show ?thesis by (intro exI [of _ "Suc k"]) (simp add: algebra_simps)
  next
    case False
    with Cons.prems have "fst x = m" by auto
    then have "hm_get (sh_handlers ?sh) m = Some (sh_next_generation sh, snd x)"
      using Cons.prems by (simp add: register_handler_def Let_def hm.get_ins)
    with register_other [OF False wf] \<open>fst x = m\<close> show ?thesis by (intro exI [of _ 0]) simp
  qed
qed simp

text \<open>
  C14: Dropping a guard removes the handler it registered and never a newer one.  After fewer than
  2^64 - 1 later registrations the guard's drop unregisters its method exactly when none of them
  was for that method; otherwise it changes nothing, and a persisted guard never does.
\<close>

theorem guard_drop_own_handler_only:
  assumes "hm_wf (sh_handlers sh)" and "session_handle m h sh = (sh1, g)" and "length hs < 2 ^ 64 - 1"
    and "sh2 = register_all hs sh1"
  shows "(m \<in> fst ` set hs \<longrightarrow> guard_drop g sh2 = sh2)
    \<and> (m \<notin> fst ` set hs \<longrightarrow> hm_get (sh_handlers sh2) m = Some (hg_generation g, h)
         \<and> hm_get (sh_handlers (guard_drop g sh2)) = (hm_get (sh_handlers sh2))(m := None))
    \<and> guard_drop (guard_persist g) sh2 = sh2"
proof -
  have g: "g = \<lparr>hg_method = m, hg_generation = sh_next_generation sh, hg_armed = True\<rparr>"
    and sh1: "sh1 = fst (register_handler m h sh)"
    using assms(2) by (auto simp: session_handle_def register_handler_def Let_def)
  have wf: "hm_wf (sh_handlers sh1)" using assms(1) by (simp add: sh1 register_handler_def Let_def hm.inv_ins)
  have gen: "sh_next_generation sh1 = sh_next_generation sh + 1" by (simp add: sh1 register_handler_def Let_def)
  have first: "guard_drop g sh2 = sh2" if in_hs: "m \<in> fst ` set hs"
  proof -
    from register_last [OF in_hs wf] obtain k f where k: "k < length hs"
      "hm_get (sh_handlers sh2) m = Some (sh_next_generation sh + 1 + of_nat k, f)"
      using gen assms(4) by auto
    have "sh_next_generation sh + 1 + of_nat k \<noteq> sh_next_generation sh"
    proof
      assume "sh_next_generation sh + 1 + of_nat k = sh_next_generation sh"
      then have "of_nat (Suc k) = (0 :: u64)" by (simp add: algebra_simps)
      moreover have "unat (of_nat (Suc k) :: u64) = Suc k"
        using k(1) assms(3) by (intro unat_of_nat_u64) linarith
      ultimately show False by simp
    qed
    with k(2) show ?thesis by (simp add: guard_drop_def g)
  qed
  have "hm_get (sh_handlers sh2) m = Some (sh_next_generation sh, h)" if "m \<notin> fst ` set hs"
    using register_other [OF that wf] assms(1,4) by (simp add: sh1 register_handler_def Let_def hm.get_ins)
  with first register_wf [OF wf, of hs] assms(4) show ?thesis
    by (auto simp: guard_drop_def g guard_persist_def hm.get_rem)
qed

theorem guard_drop_own_handler_only_witness:
  "let sh = ss_shared ready_session; (sh1, g) = session_handle ''fs.read'' 7 sh;
       sh2 = register_all [(''fs.read'', 8)] sh1
   in guard_drop g sh2 = sh2"
proof -
  have "hm_wf (sh_handlers (ss_shared ready_session))"
    by (simp add: ready_session_def example_session_def example_options hm_wf_def)
  from guard_drop_own_handler_only [OF this prod.collapse [symmetric], where hs = "[(''fs.read'', 8)]"]
  show ?thesis by (simp add: Let_def case_prod_beta)
qed

section \<open>Request ids\<close>

primrec request_ids :: "nat \<Rightarrow> shared \<Rightarrow> string list" where
  "request_ids 0 sh = []"
| "request_ids (Suc n) sh = (case next_request_id sh of (sh', i) \<Rightarrow> i # request_ids n sh')"

lemma request_ids_eq:
  "request_ids n sh = map (\<lambda>k. sh_request_id_prefix sh @ ''-'' @ show_nat (unat (sh_request_sequence sh + of_nat (Suc k)))) [0..<n]"
proof (induction n arbitrary: sh)
  case (Suc n)
  have "[0..<Suc n] = 0 # map Suc [0..<n]" by (simp add: upt_conv_Cons map_Suc_upt del: upt_Suc)
  then show ?case by (simp add: next_request_id_def Let_def Suc.IH comp_def algebra_simps del: upt_Suc)
qed simp

text \<open>
  Request ids are unique for the life of a session: any 2^64 consecutive ids differ, even across
  the wrap-around of the counter.
\<close>

theorem request_ids_distinct:
  assumes "n \<le> 2 ^ 64"
  shows "distinct (request_ids n sh)"
proof -
  let ?c = "sh_request_sequence sh"
  have "j = k" if "?c + of_nat (Suc j) = ?c + of_nat (Suc k)" "j < n" "k < n" for j k
  proof -
    have "(of_nat j :: u64) = of_nat k" using that(1) by simp
    then have "unat (of_nat j :: u64) = unat (of_nat k :: u64)" by (rule arg_cong)
    moreover have "unat (of_nat j :: u64) = j" "unat (of_nat k :: u64) = k"
      using that(2,3) assms by (intro unat_of_nat_u64, linarith)+
    ultimately show ?thesis by simp
  qed
  then have "inj_on (\<lambda>k. unat (?c + of_nat (Suc k))) (set [0..<n])"
    by (intro inj_onI) (simp only: set_upt atLeastLessThan_iff unsigned_word_eqI)
  then show ?thesis by (simp add: request_ids_eq distinct_map inj_on_def del: of_nat_Suc)
qed

theorem request_ids_distinct_witness: "distinct (request_ids 3 (ss_shared ready_session))"
  by (rule request_ids_distinct) simp

section \<open>Liveness\<close>

primrec turns :: "serde_json \<Rightarrow> readiness list \<Rightarrow> session \<Rightarrow> session \<times> teardown option" where
  "turns S [] s = (s, None)"
| "turns S (rd # rds) s =
     (case loop_turn S rd s of (s', None) \<Rightarrow> turns S rds s' | (s', Some reason) \<Rightarrow> (s', Some reason))"

definition brings_pong :: "readiness \<Rightarrow> bool" where
  "brings_pong rd \<longleftrightarrow> rd_inbound rd = Polled (Some (InFrame Pong))"

definition pinged :: "session \<Rightarrow> bool" where
  "pinged s \<longleftrightarrow> dr_awaiting_pong (ss_driver s) \<and> dr_liveness (ss_driver s)"

lemma pinged_dispatch: "pinged (with_dispatch f s) = pinged s" "pinged (on_settled S t out s) = pinged s"
  by (simp_all add: pinged_def with_dispatch_def on_settled_def split: prod.split)

lemma pinged_simps [simp]:
  "pinged (s\<lparr>ss_shared := sh\<rparr>) = pinged s" "pinged (s\<lparr>ss_writer := w\<rparr>) = pinged s"
  "pinged (s\<lparr>ss_arrived := a\<rparr>) = pinged s" "pinged (s\<lparr>ss_replies := r\<rparr>) = pinged s"
  "pinged (s\<lparr>ss_driver := (ss_driver s)\<lparr>dr_tracking := rt\<rparr>\<rparr>) = pinged s"
  "pinged (take_command s rest) = pinged s"
  by (simp_all add: pinged_def take_command_def)

lemma pinged_frame: "pinged s \<Longrightarrow> f \<noteq> Pong \<Longrightarrow> pinged (fst (on_frame f s))"
  by (cases f) (simp_all add: on_frame_def settle_pending_def on_response_def pinged_dispatch pinged_def
      case_prod_beta with_dispatch_def split: option.split)

lemma pinged_command: "pinged s \<Longrightarrow> pinged (fst (on_command c s))"
  by (cases c) (simp_all add: on_command_def pinged_def Let_def split: frame.split)

lemma pinged_liveness: "pinged s \<Longrightarrow> build_liveness s = s"
  by (simp add: pinged_def build_liveness_def)

lemma pinged_tick: "pinged s \<Longrightarrow> pinged (fst (on_liveness_tick s))"
  by (simp add: pinged_def on_liveness_tick_def)

lemma pinged_turn:
  assumes "loop_turn S rd s = (s', None)" and "\<not> brings_pong rd" and "pinged s"
  shows "pinged s'"
proof -
  have "pinged (fst (loop_turn S rd s))"
    using loop_turn_cases [where S = S and rd = rd and s = s] assms(2) unfolding pinged_liveness [OF assms(3)]
    by (elim disjE exE conjE)
       (simp_all add: assms(3) pinged_frame pinged_command pinged_dispatch pinged_tick brings_pong_def)
  then show ?thesis by (simp add: assms(1))
qed

lemma pinged_turns:
  "turns S rds s = (s', None) \<Longrightarrow> list_all (\<lambda>rd. \<not> brings_pong rd) rds \<Longrightarrow> pinged s \<Longrightarrow> pinged s'"
proof (induction rds arbitrary: s)
  case (Cons rd rds)
  then show ?case by (auto split: prod.splits option.splits intro: pinged_turn)
qed simp

text \<open>
  C12: A dead peer is noticed in two ticks.  A tick that finds no ping outstanding queues one and goes on;
  if no turn after it brings a \<open>pong\<close>, the next tick, however many turns later, ends the session with the
  transient code and the reason \<open>liveness timeout\<close>.
\<close>

theorem unanswered_ping_closes:
  assumes "rd_tick rd" and "dr_liveness (ss_driver s)" and "\<not> dr_awaiting_pong (ss_driver s)"
    and "send_failed (ss_writer s) = None" and "sh_state (ss_shared s) \<noteq> Handshaking"
    and "turns S (rd # rds) s = (s', None)" and "list_all (\<lambda>rd. \<not> brings_pong rd) rds"
    and "rd_tick rd'" and "send_failed (ss_writer s') = None" and "sh_state (ss_shared s') \<noteq> Handshaking"
  shows "loop_turn S rd s = (s\<lparr>ss_driver := (ss_driver s)\<lparr>dr_awaiting_pong := True\<rparr>,
      ss_writer := enqueue Ping (ss_writer s)\<rparr>, None)
    \<and> loop_turn S rd' s' = (s', Some (TLocal close_RELEASED (Some ''liveness timeout'')))"
proof -
  let ?s1 = "s\<lparr>ss_driver := (ss_driver s)\<lparr>dr_awaiting_pong := True\<rparr>, ss_writer := enqueue Ping (ss_writer s)\<rparr>"
  have first: "loop_turn S rd s = (?s1, None)"
    using assms(1-5) by (simp add: loop_turn_def build_liveness_def on_liveness_tick_def Let_def)
  have "turns S rds ?s1 = (s', None)" using assms(6) unfolding turns.simps first by simp
  moreover have "pinged ?s1" using assms(2) by (simp add: pinged_def)
  ultimately have pinged: "pinged s'" using assms(7) pinged_turns by blast
  then have "on_liveness_tick s' = (s', Some (TLocal close_RELEASED (Some ''liveness timeout'')))"
    "dr_liveness (ss_driver s')"
    by (simp_all add: on_liveness_tick_def pinged_def)
  then have "loop_turn S rd' s' = (s', Some (TLocal close_RELEASED (Some ''liveness timeout'')))"
    using assms(8-10) by (simp add: loop_turn_def pinged_liveness [OF pinged])
  with first show ?thesis by blast
qed

lemma alive_fields:
  "dr_liveness (ss_driver (build_liveness ready_session))" "\<not> dr_awaiting_pong (ss_driver (build_liveness ready_session))"
  "ss_writer (build_liveness ready_session) = writer_spawn" "sh_state (ss_shared (build_liveness ready_session)) = Ready"
  by (simp_all add: build_liveness_def ready_session_def example_session_def example_options DEFAULT_LIVENESS_INTERVAL_def
      from_secs_def)

theorem unanswered_ping_closes_witness:
  "let s = build_liveness ready_session; rd = quiet\<lparr>rd_tick := True\<rparr>
   in snd (loop_turn terse_serde rd (fst (loop_turn terse_serde rd s))) = Some (TLocal close_RELEASED (Some ''liveness timeout''))"
proof -
  let ?s = "build_liveness ready_session" and ?rd = "quiet\<lparr>rd_tick := True\<rparr>"
  let ?s1 = "?s\<lparr>ss_driver := (ss_driver ?s)\<lparr>dr_awaiting_pong := True\<rparr>, ss_writer := enqueue Ping (ss_writer ?s)\<rparr>"
  have fine: "send_failed (ss_writer ?s) = None" "send_failed (enqueue Ping (ss_writer ?s)) = None"
    by (simp_all add: alive_fields send_failed_def writer_spawn_def enqueue_def)
  have live: "build_liveness ?s = ?s" using alive_fields(1) by (simp add: build_liveness_def)
  have one: "loop_turn terse_serde ?rd ?s = (?s1, None)"
    using fine(1) alive_fields by (simp add: loop_turn_def live on_liveness_tick_def quiet_def Let_def)
  then have "turns terse_serde [?rd] ?s = (?s1, None)" by simp
  from unanswered_ping_closes [OF _ alive_fields(1,2) fine(1) _ this] fine(2) alive_fields(4) one
  show ?thesis by (simp add: Let_def quiet_def)
qed

section \<open>Commands run in order\<close>

primrec command_frames :: "command \<Rightarrow> frame list" where
  "command_frames (CmdSend f) = [f]"
| "command_frames (CmdRequest f r) = [f]"
| "command_frames (CmdCancel i forget) = [Cancel \<lparr>cancel_id = i\<rparr>]"
| "command_frames (CmdClose code reason) = []"

primrec is_close :: "command \<Rightarrow> bool" where
  "is_close (CmdClose code reason) = True"
| "is_close (CmdSend f) = False"
| "is_close (CmdRequest f r) = False"
| "is_close (CmdCancel i forget) = False"

definition no_interruption :: "readiness \<Rightarrow> bool" where
  "no_interruption rd \<longleftrightarrow> \<not> rd_timeout rd \<and> \<not> rd_tick rd \<and> rd_settled rd = None"

lemma command_turn:
  assumes "no_interruption rd" and "send_failed (ss_writer s) = None" and "ch_queue (sh_commands (ss_shared s)) = c # rest"
  shows "loop_turn S rd s = on_command c (take_command (build_liveness s) rest)"
  using assms by (simp add: loop_turn_def no_interruption_def settled_ready_def build_liveness_def Let_def)

lemma send_failed_enqueue: "send_failed (enqueue f w) = send_failed w"
  by (simp add: send_failed_def enqueue_def)

lemma open_command:
  assumes "\<not> is_close c" and "writer_open (ss_writer s)"
  shows "snd (on_command c s) = None" and "writer_open (ss_writer (fst (on_command c s)))"
    and "send_failed (ss_writer (fst (on_command c s))) = send_failed (ss_writer s)"
    and "out_frames (ss_writer (fst (on_command c s))) = out_frames (ss_writer s) @ command_frames c"
    and "ss_shared (fst (on_command c s)) = ss_shared s"
proof -
  have "snd (on_command c s) = None \<and> writer_open (ss_writer (fst (on_command c s)))
      \<and> send_failed (ss_writer (fst (on_command c s))) = send_failed (ss_writer s)
      \<and> out_frames (ss_writer (fst (on_command c s))) = out_frames (ss_writer s) @ command_frames c
      \<and> ss_shared (fst (on_command c s)) = ss_shared s"
  proof (cases c)
    case (CmdRequest f r)
    with assms show ?thesis by (cases f) (simp_all add: on_command_def Let_def send_failed_enqueue)
  qed (use assms in \<open>simp_all add: on_command_def Let_def send_failed_enqueue\<close>)
  then show "snd (on_command c s) = None" "writer_open (ss_writer (fst (on_command c s)))"
    "send_failed (ss_writer (fst (on_command c s))) = send_failed (ss_writer s)"
    "out_frames (ss_writer (fst (on_command c s))) = out_frames (ss_writer s) @ command_frames c"
    "ss_shared (fst (on_command c s)) = ss_shared s"
    by simp_all
qed

text \<open>
  \<open>close\<close> takes effect, after what was asked before it and before anything else is read.  With
  commands queued ahead of a close and no timer or handler ready, each turn runs the next command
  whatever the port has to offer, and the turn after them ends the session with the close's code and
  reason; the frames of those commands are queued in order.
\<close>

theorem close_command_ends_session:
  assumes "ch_queue (sh_commands (ss_shared s)) = cs @ CmdClose code reason # rest"
    and "list_all (\<lambda>c. \<not> is_close c) cs" and "length rds = length cs" and "list_all no_interruption (rds @ [rd])"
    and "writer_open (ss_writer s)" and "send_failed (ss_writer s) = None"
  shows "\<exists>s'. turns S (rds @ [rd]) s = (s', Some (TLocal code reason))
    \<and> out_frames (ss_writer s') = out_frames (ss_writer s) @ concat (map command_frames cs)"
  using assms
proof (induction cs arbitrary: s rds)
  case Nil
  then show ?case
    by (simp add: command_turn on_command_def) (simp add: take_command_def build_liveness_def)
next
  case (Cons c cs)
  obtain rd1 rds' where rds: "rds = rd1 # rds'" using Cons.prems(3) by (cases rds) auto
  let ?t = "take_command (build_liveness s) (cs @ CmdClose code reason # rest)"
  let ?s = "fst (on_command c ?t)"
  have c: "\<not> is_close c" and w: "writer_open (ss_writer ?t)" "ss_writer ?t = ss_writer s"
    using Cons.prems by (simp_all add: take_command_def build_liveness_def)
  note step = open_command [OF c w(1)]
  have "loop_turn S rd1 s = (?s, None)"
    using Cons.prems rds step(1) by (simp add: command_turn prod_eq_iff)
  moreover have "\<exists>s'. turns S (rds' @ [rd]) ?s = (s', Some (TLocal code reason))
      \<and> out_frames (ss_writer s') = out_frames (ss_writer ?s) @ concat (map command_frames cs)"
    using Cons.prems rds step(2,3,5) w by (intro Cons.IH) (simp_all add: take_command_def)
  ultimately show ?case using step(4) w by (simp add: rds)
qed

definition closing_session :: session where
  "closing_session = handle_call terse_serde (HClose 4000 None) (handle_call terse_serde HPing ready_session)"

lemma closing_fields:
  "ch_queue (sh_commands (ss_shared closing_session)) = [CmdSend Ping, CmdClose 4000 None]"
  "ss_writer closing_session = writer_spawn"
  by (simp_all add: closing_session_def handle_call_def on_shared_def close_now_def session_ping_def send_command_def
      ch_send_def ready_fields unbounded_channel_def) (simp add: ready_session_def example_driver)

theorem close_command_ends_session_witness:
  "\<exists>s'. turns terse_serde [quiet, quiet] closing_session = (s', Some (TLocal 4000 None))
     \<and> out_frames (ss_writer s') = [Ping]"
  using close_command_ends_session [of closing_session "[CmdSend Ping]" 4000 None "[]" "[quiet]" quiet terse_serde]
  by (simp add: closing_fields no_interruption_def quiet_def writer_open_def writer_spawn_def send_failed_def out_frames_def
      del: turns.simps)

section \<open>Teardown\<close>

lemma pending_failures_mem:
  "(i, req) \<in> set p \<Longrightarrow> (pr_reply req, Replied (Inl (closed_request_error code why (pr_method req) i)))
     \<in> set (pending_failures code why p)"
  unfolding pending_failures_def by force

lemma closed_request_error_code: "re_code (closed_request_error code why m i) = code_UNAVAILABLE"
  by (simp add: closed_request_error_def with_detail_def remote_error_new_def)

lemma join_keeps: "rt_cancelled (fold join_next ts rt) = rt_cancelled rt" "rt_active (fold join_next ts rt) = rt_active rt"
  by (induction ts arbitrary: rt) (simp_all add: join_next_def)

lemma settle_ready_state: "sh_state (settle_ready x sh) = sh_state sh"
  by (simp add: settle_ready_def split: option.split)

lemma teardown_fields:
  assumes "teardown_parts reason = (code, why, error, close_port)" and "teardown_run port joined reason s = (s', closure)"
  shows "sh_state (ss_shared s') = Closed" "sh_closure (ss_shared s') = Some closure"
    "sc_code closure = code" "sc_fatal closure = is_fatal_close_code code" "ss_writer s' = shut_down port (ss_writer s)"
    "ss_port_close s' = (if close_port then Some (code, why) else ss_port_close s)"
    "sh_ready (ss_shared s') \<noteq> None" "dr_pending (ss_driver s') = []"
    "set (pending_failures code why (dr_pending (ss_driver s))) \<subseteq> set (ss_replies s')"
    "rt_cancelled (dr_tracking (ss_driver s')) =
       map (ar_cancel \<circ> snd) (rt_active (dr_tracking (ss_driver s))) @ rt_cancelled (dr_tracking (ss_driver s))"
    "sh_event_subscribers (ss_shared s') = []" "sh_pong_subscribers (ss_shared s') = []"
    "ch_queue (sh_commands (ss_shared s')) = []"
proof -
  have s': "s' = fst (teardown_run port joined reason s)" and closure: "closure = snd (teardown_run port joined reason s)"
    using assms(2) by simp_all
  note defs = s' closure teardown_run_def assms(1) Let_def drop_inbox_def clear_subscribers_def join_keeps
  show "sh_state (ss_shared s') = Closed" "sh_closure (ss_shared s') = Some closure"
    "sc_code closure = code" "sc_fatal closure = is_fatal_close_code code" "ss_writer s' = shut_down port (ss_writer s)"
    "ss_port_close s' = (if close_port then Some (code, why) else ss_port_close s)" "dr_pending (ss_driver s') = []"
    "rt_cancelled (dr_tracking (ss_driver s')) =
       map (ar_cancel \<circ> snd) (rt_active (dr_tracking (ss_driver s))) @ rt_cancelled (dr_tracking (ss_driver s))"
    "sh_event_subscribers (ss_shared s') = []" "sh_pong_subscribers (ss_shared s') = []"
    "ch_queue (sh_commands (ss_shared s')) = []"
    by (simp_all add: defs step_simps settle_ready_state)
  show "set (pending_failures code why (dr_pending (ss_driver s))) \<subseteq> set (ss_replies s')"
    by (simp add: defs) blast
  show "sh_ready (ss_shared s') \<noteq> None" by (simp add: defs settle_ready_def split: option.split)
qed

text \<open>
  C11: When the loop breaks nothing is left open.  The state is \<open>closed\<close> and the closure published with
  the reason's code and its fatality; the writer has handed every queued frame to the port before it
  ended; the port is told to close exactly when this side decided; \<open>ready\<close> has a value; every pending
  call has failed with \<open>UNAVAILABLE\<close>; every request still being answered had its token cancelled; and
  no subscriber or queued command remains.
\<close>

theorem teardown_leaves_nothing_open:
  assumes "session_reachable S port ceiling options (Looping, s)" and "loop_turn S rd s = (s1, Some reason)"
    and "teardown_run port joined reason s1 = (s', closure)"
    and "teardown_parts reason = (code, why, error, close_port)"
  shows "sh_state (ss_shared s') = Closed \<and> session_closed (ss_shared s') = Polled closure
    \<and> sc_code closure = code \<and> sc_fatal closure = is_fatal_close_code code
    \<and> wr_sent (ss_writer s') = out_frames (ss_writer s1) \<and> \<not> wr_running (ss_writer s')
    \<and> ss_port_close s' = (if close_port then Some (code, why) else ss_port_close s1)
    \<and> session_ready (ss_shared s') \<noteq> Pending \<and> dr_pending (ss_driver s') = []
    \<and> (\<forall>(i, req) \<in> set (dr_pending (ss_driver s1)). \<exists>e. re_code e = code_UNAVAILABLE
         \<and> (pr_reply req, Replied (Inl e)) \<in> set (ss_replies s'))
    \<and> (\<forall>(i, a) \<in> set (rt_active (dr_tracking (ss_driver s1))). ar_cancel a \<in> set (rt_cancelled (dr_tracking (ss_driver s'))))
    \<and> sh_event_subscribers (ss_shared s') = [] \<and> sh_pong_subscribers (ss_shared s') = []
    \<and> ch_queue (sh_commands (ss_shared s')) = []"
proof -
  have "request_inv s" using requests.reachable [OF assms(1)] by simp
  from requests.turn_keeps [OF this, of S rd] have "writer_open (ss_writer s1)"
    by (simp add: assms(2) request_inv_def Let_def)
  note flushed = shut_down_flushes [OF this, of port]
  note torn = teardown_fields [OF assms(4,3)]
  have failed: "\<forall>(i, req) \<in> set (dr_pending (ss_driver s1)). \<exists>e. re_code e = code_UNAVAILABLE
      \<and> (pr_reply req, Replied (Inl e)) \<in> set (ss_replies s')"
    using torn(9) pending_failures_mem closed_request_error_code by (intro ballI) blast
  have "\<forall>(i, a) \<in> set (rt_active (dr_tracking (ss_driver s1))). ar_cancel a \<in> set (rt_cancelled (dr_tracking (ss_driver s')))"
    unfolding torn(10) by force
  moreover have "session_ready (ss_shared s') \<noteq> Pending"
    using torn(7) by (auto simp: session_ready_def)
  ultimately show ?thesis
    using torn(1-6,8,11-13) flushed failed by (simp add: session_closed_def)
qed

theorem teardown_leaves_nothing_open_witness:
  "sh_state (ss_shared lost_session) = Closed
   \<and> (\<exists>e. re_code e = code_UNAVAILABLE \<and> (0, Replied (Inl e)) \<in> set (ss_replies lost_session))"
proof -
  have "teardown_run (\<lambda>_. Sent) [] port_lost (build_liveness pending_session) = (lost_session, lost_closure)"
    by (simp add: lost_session_def lost_closure_def)
  moreover have "teardown_parts port_lost = (close_RELEASED, None, None, False)"
    by (simp add: teardown_parts_def port_lost_def)
  moreover have "dr_pending (ss_driver (build_liveness pending_session)) = [(''r-1'', \<lparr>pr_method = ''fs.read'', pr_reply = 0\<rparr>)]"
    using pending_fields(1) by (simp add: build_liveness_def)
  ultimately show ?thesis
    using teardown_leaves_nothing_open [OF pending_reachable lost_turn, of "\<lambda>_. Sent" "[]" lost_session lost_closure close_RELEASED None None False]
    by simp
qed

end
