(* ===== verification/Contract.thy ===== *)
theory Contract
  imports Catalog Session_Delivery
begin

text \<open>
  Application contracts (\<open>contract.rs\<close>, \<open>contract/*.rs\<close>): compiling a catalog, answering a request
  through its schemas, guard and handler, registering handlers on a session, \<open>rpc.discover\<close>, and
  typed calls and events.

  The \<open>jsonschema\<close> crate and serde's conversions between values and Rust types are parameters.  A
  compiled schema has type \<open>'v\<close>; \<open>js_validate\<close> reports the first violation, its location and kind, and
  \<open>js_join\<close> is the crate's pointer join.  A typed handler is its decoder, its function and its
  encoder; a request's parameter and result types are \<open>'p\<close> and \<open>'r\<close>.
\<close>

section \<open>Schemas (contract/params.rs)\<close>

datatype violation_kind = Required json | AdditionalProperties "string list" | OtherViolation

record violation =
  vi_path :: string
  vi_kind :: violation_kind
  vi_message :: string

record 'v jsonschema =
  js_build :: "json \<Rightarrow> string + 'v"
  js_validate :: "'v \<Rightarrow> json \<Rightarrow> violation option"
  js_join :: "string \<Rightarrow> string \<Rightarrow> string"

definition schema_compile :: "'v jsonschema \<Rightarrow> string \<Rightarrow> json \<Rightarrow> validation_error + 'v" where
  "schema_compile J field schema =
     map_err (\<lambda>error. ve_new field error ''a valid JSON Schema 2020-12 document'') (js_build J schema)"

definition first_violation :: "'v jsonschema \<Rightarrow> 'v \<Rightarrow> json \<Rightarrow> (string \<times> string) option" where
  "first_violation J validator value =
     (case js_validate J validator value of
        None \<Rightarrow> None
      | Some error \<Rightarrow>
          let base = vi_path error;
              pointer = (case vi_kind error of
                  Required property \<Rightarrow> js_join J base (case property of JString s \<Rightarrow> s | _ \<Rightarrow> [])
                | AdditionalProperties unexpected \<Rightarrow>
                    js_join J base (case unexpected of x # _ \<Rightarrow> x | [] \<Rightarrow> [])
                | OtherViolation \<Rightarrow> base);
              path = (if pointer = [] then ''/'' else pointer)
          in Some (path, vi_message error))"

section \<open>The contract (contract.rs)\<close>

record 'v compiled_method =
  mt_definition :: catalog_method
  mt_params :: 'v
  mt_result :: 'v

record 'v contract =
  ct_catalog :: catalog
  ct_methods :: "'v compiled_method list"

definition assert_not_reserved :: "string \<Rightarrow> string \<Rightarrow> validation_error + unit" where
  "assert_not_reserved field name =
     (if \<not> is_reserved_method_name name then Inr ()
      else Inl (ve_new field (debug_str name) ''a name outside the reserved rpc. namespace''))"

fun compile_methods :: "'v jsonschema \<Rightarrow> nat \<Rightarrow> catalog_method list \<Rightarrow> validation_error + 'v compiled_method list" where
  "compile_methods J index [] = Inr []"
| "compile_methods J index (m # ms) =
     and_then (schema_compile J (indexed ''methods'' index ''params'') (cm_params m))
     (\<lambda>params. and_then (schema_compile J (indexed ''methods'' index ''result'') (cm_result m))
     (\<lambda>result. and_then (compile_methods J (Suc index) ms)
     (\<lambda>rest. Inr (\<lparr>mt_definition = m, mt_params = params, mt_result = result\<rparr> # rest))))"

definition contract_compile :: "'v jsonschema \<Rightarrow> (jnumber \<Rightarrow> string) \<Rightarrow> catalog \<Rightarrow> validation_error + 'v contract" where
  "contract_compile J fmt_number c =
     and_then (catalog_validate fmt_number c)
     (\<lambda>_. and_then (for_each (\<lambda>index m. assert_not_reserved (indexed ''methods'' index ''name'') (cm_name m)) (cat_methods c))
     (\<lambda>_. and_then (for_each (\<lambda>index e. assert_not_reserved (indexed ''events'' index ''topic'') (ce_topic e)) (cat_events c))
     (\<lambda>_. and_then (compile_methods J 0 (cat_methods c))
     (\<lambda>methods. and_then (for_each (\<lambda>index e.
          and_then (schema_compile J (indexed ''events'' index ''payload'') (ce_payload e)) (\<lambda>_. Inr ()))
          (cat_events c))
     (\<lambda>_. and_then (case cat_capabilities c of
            Some capabilities \<Rightarrow> and_then (schema_compile J ''catalog.capabilities'' capabilities) (\<lambda>_. Inr ())
          | None \<Rightarrow> Inr ())
     (\<lambda>_. Inr \<lparr>ct_catalog = c, ct_methods = methods\<rparr>))))))"

definition from_catalog :: "'v jsonschema \<Rightarrow> (jnumber \<Rightarrow> string) \<Rightarrow> catalog \<Rightarrow> validation_error + 'v contract" where
  "from_catalog J fmt_number c = contract_compile J fmt_number c"

definition contract_method :: "string \<Rightarrow> 'v contract \<Rightarrow> 'v compiled_method option" where
  "contract_method name ct = find (\<lambda>m. cm_name (mt_definition m) = name) (ct_methods ct)"

subsection \<open>The builder\<close>

definition contract_builder :: "string \<Rightarrow> string \<Rightarrow> catalog" where
  "contract_builder name version =
     \<lparr>cat_name = name, cat_version = version, cat_description = None, cat_protocol = None,
      cat_methods = [], cat_events = [], cat_capabilities = None\<rparr>"

definition builder_description :: "string \<Rightarrow> catalog \<Rightarrow> catalog" where
  "builder_description d b = b\<lparr>cat_description := Some d\<rparr>"

definition builder_protocol :: "protocol_version \<Rightarrow> catalog \<Rightarrow> catalog" where
  "builder_protocol p b = b\<lparr>cat_protocol := Some p\<rparr>"

definition builder_capabilities :: "json \<Rightarrow> catalog \<Rightarrow> catalog" where
  "builder_capabilities v b = b\<lparr>cat_capabilities := Some v\<rparr>"

definition builder_method :: "catalog_method \<Rightarrow> catalog \<Rightarrow> catalog" where
  "builder_method m b = b\<lparr>cat_methods := cat_methods b @ [m]\<rparr>"

definition builder_event :: "catalog_event \<Rightarrow> catalog \<Rightarrow> catalog" where
  "builder_event e b = b\<lparr>cat_events := cat_events b @ [e]\<rparr>"

definition builder_build :: "'v jsonschema \<Rightarrow> (jnumber \<Rightarrow> string) \<Rightarrow> catalog \<Rightarrow> validation_error + 'v contract" where
  "builder_build J fmt_number b = contract_compile J fmt_number b"

subsection \<open>Checking values\<close>

definition violation_error :: "string \<Rightarrow> string \<Rightarrow> string \<Rightarrow> string \<Rightarrow> string \<Rightarrow> remote_error" where
  "violation_error code message method path reason =
     with_detail (with_detail (with_detail (remote_error_new code message)
       ''method'' (JString method)) ''path'' (JString path)) ''reason'' (JString reason)"

definition check_params :: "'v jsonschema \<Rightarrow> string \<Rightarrow> 'v \<Rightarrow> json \<Rightarrow> remote_error + unit" where
  "check_params J method validator params =
     (case first_violation J validator params of
        Some (path, reason) \<Rightarrow>
          Inl (violation_error code_INVALID_PARAMS
            (''Parameters of '' @ quoted method @ '' do not match the contract at '' @ path @ '': '' @ reason @ ''.'')
            method path reason)
      | None \<Rightarrow> Inr ())"

definition check_result :: "'v jsonschema \<Rightarrow> string \<Rightarrow> 'v \<Rightarrow> json \<Rightarrow> remote_error + unit" where
  "check_result J method validator result =
     (case first_violation J validator result of
        Some (path, reason) \<Rightarrow>
          Inl (violation_error code_INTERNAL
            (''Result of '' @ quoted method @ '' does not match the contract at '' @ path @ '': '' @ reason @ ''.'')
            method path reason)
      | None \<Rightarrow> Inr ())"

definition contract_decode :: "(json \<Rightarrow> string + 'p) \<Rightarrow> string \<Rightarrow> json \<Rightarrow> remote_error + 'p" where
  "contract_decode from_value method value =
     map_err (\<lambda>error. with_detail
         (remote_error_new code_INTERNAL
           (''Parameters of '' @ quoted method
            @ '' passed their schema but failed to decode into the handler's Rust type: '' @ error @ ''.''))
         ''method'' (JString method))
       (from_value value)"

definition unsupported :: "string \<Rightarrow> string \<Rightarrow> remote_error" where
  "unsupported contract method =
     with_detail (with_detail
       (remote_error_new code_METHOD_UNSUPPORTED
         (''Method '' @ quoted method @ '' is not part of contract '' @ quoted contract @ ''.''))
       ''method'' (JString method)) ''contract'' (JString contract)"

definition parse_params :: "'v jsonschema \<Rightarrow> (json \<Rightarrow> string + 'p) \<Rightarrow> 'v contract \<Rightarrow> string \<Rightarrow> json \<Rightarrow> remote_error + 'p" where
  "parse_params J from_value ct method params =
     (case contract_method method ct of
        None \<Rightarrow> Inl (unsupported (cat_name (ct_catalog ct)) method)
      | Some compiled \<Rightarrow>
          and_then (check_params J method (mt_params compiled) params)
            (\<lambda>_. contract_decode from_value method params))"

section \<open>Serving (contract/serve.rs)\<close>

record ('p, 'r) typed_handler =
  th_decode :: "json \<Rightarrow> string + 'p"
  th_run :: "'p \<Rightarrow> call_context \<Rightarrow> remote_error + 'r"
  th_encode :: "'r \<Rightarrow> string + json"

type_synonym serve_policy_guard = "string \<Rightarrow> json \<Rightarrow> string list \<Rightarrow> call_context \<Rightarrow> remote_error + unit"

definition typed_call :: "('p, 'r) typed_handler \<Rightarrow> string \<Rightarrow> json \<Rightarrow> call_context \<Rightarrow> remote_error + json" where
  "typed_call th method params context =
     (case contract_decode (th_decode th) method params of
        Inl error \<Rightarrow> Inl error
      | Inr p \<Rightarrow>
          and_then (th_run th p context) (\<lambda>result.
            map_err (\<lambda>error. with_detail
                (remote_error_new code_INTERNAL
                  (''Result of '' @ quoted method @ '' failed to serialise: '' @ error @ ''.''))
                ''method'' (JString method))
              (th_encode th result)))"

type_synonym ('p, 'r) contract_handlers = "(string \<times> ('p, 'r) typed_handler) list"

definition contract_handlers_new :: "('p, 'r) contract_handlers" where
  "contract_handlers_new = []"

definition handlers_on :: "string \<Rightarrow> ('p, 'r) typed_handler \<Rightarrow> ('p, 'r) contract_handlers \<Rightarrow> ('p, 'r) contract_handlers" where
  "handlers_on method th hs = hs @ [(method, th)]"

record serve_options =
  sv_guard :: "serve_policy_guard option"
  sv_validate_results :: bool
  sv_discover :: bool

definition serve_options_default :: serve_options where
  "serve_options_default = \<lparr>sv_guard = None, sv_validate_results = False, sv_discover = True\<rparr>"

record 'v method_policy =
  mp_params_validator :: 'v
  mp_result_validator :: 'v
  mp_capabilities :: "string list"
  mp_guard :: "serve_policy_guard option"
  mp_validate_results :: bool

definition answer :: "'v jsonschema \<Rightarrow> string \<Rightarrow> json \<Rightarrow> call_context \<Rightarrow> ('p, 'r) typed_handler \<Rightarrow> 'v method_policy
    \<Rightarrow> remote_error + json" where
  "answer J method params context erased policy =
     and_then (check_params J method (mp_params_validator policy) params)
     (\<lambda>_. and_then (case mp_guard policy of
              Some guard \<Rightarrow> guard method params (mp_capabilities policy) context
            | None \<Rightarrow> Inr ())
     (\<lambda>_. and_then (typed_call erased method params context)
     (\<lambda>result. and_then (if mp_validate_results policy
              then check_result J method (mp_result_validator policy) result else Inr ())
     (\<lambda>_. Inr result))))"

text \<open>
  The closures \<open>serve\<close> hands to \<open>Session::handle\<close>.  A handler reference is the index of its closure in
  the list of all closures made so far.
\<close>

datatype ('v, 'p, 'r) served =
    Discover json
  | Served string "('p, 'r) typed_handler" "'v method_policy"

definition run_served :: "'v jsonschema \<Rightarrow> ('v, 'p, 'r) served \<Rightarrow> json \<Rightarrow> call_context \<Rightarrow> remote_error + json" where
  "run_served J closure params context =
     (case closure of
        Discover catalog \<Rightarrow>
          if \<not> is_object params then
            Inl (with_detail
              (remote_error_new code_INVALID_PARAMS
                (''Parameters of '' @ quoted RPC_DISCOVER @ '' must be an object.''))
              ''method'' (JString RPC_DISCOVER))
          else Inr catalog
      | Served method erased policy \<Rightarrow> answer J method params context erased policy)"

definition serve_handle :: "string \<Rightarrow> ('v, 'p, 'r) served \<Rightarrow> shared \<times> ('v, 'p, 'r) served list
    \<Rightarrow> (shared \<times> ('v, 'p, 'r) served list) \<times> handler_guard" where
  "serve_handle method closure st =
     (case st of (sh, closures) \<Rightarrow>
      case session_handle method (length closures) sh of (sh', g) \<Rightarrow> ((sh', closures @ [closure]), g))"

definition method_policy_of :: "serve_options \<Rightarrow> 'v compiled_method \<Rightarrow> 'v method_policy" where
  "method_policy_of options compiled =
     \<lparr>mp_params_validator = mt_params compiled, mp_result_validator = mt_result compiled,
      mp_capabilities = cm_capabilities (mt_definition compiled), mp_guard = sv_guard options,
      mp_validate_results = sv_validate_results options\<rparr>"

definition serve_guard_drop :: "handler_guard list \<Rightarrow> shared \<Rightarrow> shared" where
  "serve_guard_drop guards sh = fold guard_drop guards sh"

definition serve_guard_persist :: "handler_guard list \<Rightarrow> handler_guard list" where
  "serve_guard_persist guards = map guard_persist guards"

fun serve_loop :: "'v contract \<Rightarrow> serve_options \<Rightarrow> ('p, 'r) contract_handlers \<Rightarrow> handler_guard list
    \<Rightarrow> shared \<times> ('v, 'p, 'r) served list
    \<Rightarrow> (shared \<times> ('v, 'p, 'r) served list) \<times> (validation_error + handler_guard list)" where
  "serve_loop ct options [] guards st = (st, Inr guards)"
| "serve_loop ct options ((method, erased) # rest) guards st =
     (case contract_method method ct of
        None \<Rightarrow>
          ((serve_guard_drop guards (fst st), snd st),
           Inl (ve_new ''handlers'' method
             (''a method declared by contract '' @ quoted (cat_name (ct_catalog ct)))))
      | Some compiled \<Rightarrow>
          (case serve_handle method (Served method erased (method_policy_of options compiled)) st of
             (st', g) \<Rightarrow> serve_loop ct options rest (guards @ [g]) st'))"

definition serve :: "(catalog \<Rightarrow> string + json) \<Rightarrow> 'v contract \<Rightarrow> shared \<times> ('v, 'p, 'r) served list
    \<Rightarrow> ('p, 'r) contract_handlers \<Rightarrow> serve_options
    \<Rightarrow> (shared \<times> ('v, 'p, 'r) served list) \<times> (validation_error + handler_guard list)" where
  "serve to_value ct st handlers options =
     (if sv_discover options then
        (case to_value (ct_catalog ct) of
           Inl error \<Rightarrow> (st, Inl (ve_new ''catalog'' error ''a catalog that serialises to JSON''))
         | Inr catalog \<Rightarrow>
             (case serve_handle RPC_DISCOVER (Discover catalog) st of
                (st', g) \<Rightarrow> serve_loop ct options handlers [g] st'))
      else serve_loop ct options handlers [] st)"

section \<open>Calling (contract/client.rs)\<close>

text \<open>\<open>request\<close> is what the session's own \<open>request_with\<close> settles with.\<close>

definition client_request_with :: "(string \<Rightarrow> json \<Rightarrow> request_options \<Rightarrow> remote_error + json) \<Rightarrow> ('p \<Rightarrow> string + json)
    \<Rightarrow> (json \<Rightarrow> string + 'r) \<Rightarrow> string \<Rightarrow> 'p \<Rightarrow> request_options \<Rightarrow> remote_error + 'r" where
  "client_request_with request to_value from_value method params options =
     and_then (map_err (\<lambda>error. with_detail
         (remote_error_new code_INTERNAL
           (''Parameters of '' @ quoted method @ '' failed to serialise: '' @ error @ ''.''))
         ''method'' (JString method)) (to_value params))
     (\<lambda>v. and_then (request method v options)
     (\<lambda>result. map_err (\<lambda>error. with_detail
         (remote_error_new code_INTERNAL
           (''Result of '' @ quoted method @ '' from the peer does not decode as the requested type: '' @ error @ ''.''))
         ''method'' (JString method)) (from_value result)))"

definition client_discover_with :: "(string \<Rightarrow> json \<Rightarrow> request_options \<Rightarrow> remote_error + json)
    \<Rightarrow> (json \<Rightarrow> string + catalog) \<Rightarrow> (jnumber \<Rightarrow> string) \<Rightarrow> request_options \<Rightarrow> remote_error + catalog" where
  "client_discover_with request from_value fmt_number options =
     and_then (client_request_with request (\<lambda>v. Inr v) from_value RPC_DISCOVER (JObject []) options)
     (\<lambda>catalog. and_then (map_err (\<lambda>error. remote_error_new code_INTERNAL
          (''The peer's catalog does not satisfy the checks Serde cannot express: '' @ ve_display error @ ''.''))
        (catalog_validate fmt_number catalog))
     (\<lambda>_. Inr catalog))"

section \<open>Typed events (contract/events.rs)\<close>

record event_options =
  eo_stream_id :: "string option"
  eo_end :: bool

record 't typed_event =
  te_payload :: 't
  te_frame :: event

definition contract_emit :: "serde_json \<Rightarrow> ('t \<Rightarrow> string + json) \<Rightarrow> string \<Rightarrow> 't \<Rightarrow> event_options \<Rightarrow> shared
    \<Rightarrow> shared \<times> (remote_error + bool)" where
  "contract_emit S to_value topic payload options sh =
     (case to_value payload of
        Inl error \<Rightarrow>
          (sh, Inl (with_detail
             (remote_error_new code_INTERNAL
               (''Event '' @ quoted topic @ '' payload failed to serialise: '' @ error @ ''.''))
             ''topic'' (JString topic)))
      | Inr v \<Rightarrow> emit S \<lparr>ei_topic = topic, ei_payload = v, ei_stream_id = eo_stream_id options, ei_end = eo_end options\<rparr> sh)"

definition typed_decode :: "(json \<Rightarrow> string + 't) \<Rightarrow> string \<Rightarrow> event \<Rightarrow> remote_error + 't typed_event" where
  "typed_decode from_value topic frame =
     (case from_value (evt_payload frame) of
        Inr payload \<Rightarrow> Inr \<lparr>te_payload = payload, te_frame = frame\<rparr>
      | Inl error \<Rightarrow>
          Inl (with_detail
            (remote_error_new code_INTERNAL
              (''Event '' @ quoted topic @ '' payload does not decode into the expected type: '' @ error @ ''.''))
            ''topic'' (JString topic)))"

definition channel_length :: "nat \<Rightarrow> shared \<Rightarrow> nat" where
  "channel_length n sh = (case hm_get (sh_event_channels sh) n of Some ch \<Rightarrow> length (ch_queue ch) | None \<Rightarrow> 0)"

lemma events_recv_shorter:
  assumes "events_recv n sh = (sh', Polled (Some e))"
  shows "channel_length n sh' < channel_length n sh"
  using assms by (auto simp: events_recv_def channel_length_def ch_recv_def split: option.splits list.splits if_splits)

function typed_recv :: "(json \<Rightarrow> string + 't) \<Rightarrow> string \<Rightarrow> nat \<Rightarrow> shared
    \<Rightarrow> shared \<times> (remote_error + 't typed_event) option poll" where
  "typed_recv from_value topic n sh =
     (case events_recv n sh of
        (sh', Pending) \<Rightarrow> (sh', Pending)
      | (sh', Polled None) \<Rightarrow> (sh', Polled None)
      | (sh', Polled (Some frame)) \<Rightarrow>
          if evt_topic frame \<noteq> topic then typed_recv from_value topic n sh'
          else (sh', Polled (Some (typed_decode from_value topic frame))))"
  by pat_completeness auto
termination
  by (relation "measure (\<lambda>(_, _, n, sh). channel_length n sh)") (auto intro: events_recv_shorter [OF sym])

declare typed_recv.simps [simp del]

end
