(* ===== verification/Contract_Laws.thy ===== *)
theory Contract_Laws
  imports Contract
begin

text \<open>
  What a contract promises: which catalogs compile and to what, the order of the checks a request goes
  through, what serving registers and what dropping its guard or failing leaves behind, that a peer's
  \<open>discover\<close> returns the catalog being served, and that a typed subscription yields its topic's events.
\<close>

section \<open>Compiling\<close>

definition schema_builds :: "'v jsonschema \<Rightarrow> json \<Rightarrow> bool" where
  "schema_builds J v \<longleftrightarrow> is_ok (js_build J v)"

lemma schema_compile_Inr: "schema_compile J field v = Inr x \<longleftrightarrow> js_build J v = Inr x"
  by (simp add: schema_compile_def)

definition compiled_as :: "'v jsonschema \<Rightarrow> catalog_method \<Rightarrow> 'v compiled_method \<Rightarrow> bool" where
  "compiled_as J m c \<longleftrightarrow> mt_definition c = m \<and> js_build J (cm_params m) = Inr (mt_params c)
     \<and> js_build J (cm_result m) = Inr (mt_result c)"

lemma compile_methods_Inr:
  "compile_methods J i ms = Inr cs \<longleftrightarrow>
   list_all2 (compiled_as J) ms cs"
proof (induction ms arbitrary: i cs)
  case (Cons m ms)
  show ?case
  proof (cases cs)
    case Nil
    then show ?thesis by (auto simp: and_then_Inr)
  next
    case (Cons c cs')
    with Cons.IH show ?thesis
      by (cases c) (auto simp: and_then_Inr schema_compile_Inr compiled_as_def)
  qed
qed (auto simp: list_all2_Nil)

lemma compile_methods_ok:
  "is_ok (compile_methods J i ms) \<longleftrightarrow> (\<forall>m \<in> set ms. schema_builds J (cm_params m) \<and> schema_builds J (cm_result m))"
  by (induction ms arbitrary: i) (auto simp: is_ok_and_then schema_compile_Inr schema_builds_def is_ok_iff and_then_Inr)

lemma assert_not_reserved_Inr: "assert_not_reserved field name = Inr () \<longleftrightarrow> \<not> is_reserved_method_name name"
  by (simp add: assert_not_reserved_def)

lemma for_each_all: "(\<And>i x. body i x = Inr () \<longleftrightarrow> P x) \<Longrightarrow> for_each body xs = Inr () \<longleftrightarrow> (\<forall>x \<in> set xs. P x)"
  by (simp add: for_each_from_Inr all_set_conv_all_nth)

definition compilable :: "'v jsonschema \<Rightarrow> catalog \<Rightarrow> bool" where
  "compilable J c \<longleftrightarrow> valid_but_protocol c
     \<and> (\<forall>m \<in> set (cat_methods c). \<not> is_reserved_method_name (cm_name m)
          \<and> schema_builds J (cm_params m) \<and> schema_builds J (cm_result m))
     \<and> (\<forall>e \<in> set (cat_events c). \<not> is_reserved_method_name (ce_topic e) \<and> schema_builds J (ce_payload e))
     \<and> (\<forall>v. cat_capabilities c = Some v \<longrightarrow> schema_builds J v)"

lemma unit_and_then: "and_then r (\<lambda>_. Inr ()) = Inr () \<longleftrightarrow> is_ok r"
  by (cases r) auto

lemma contract_compile_Inr:
  "contract_compile J N c = Inr ct \<longleftrightarrow> compilable J c \<and> ct_catalog ct = c \<and>
   list_all2 (compiled_as J) (cat_methods c) (ct_methods ct)"
proof -
  have ok: "is_ok (schema_compile J field v) \<longleftrightarrow> schema_builds J v" for field v
    by (auto simp: is_ok_iff schema_compile_Inr schema_builds_def)
  have events: "for_each (\<lambda>i e. assert_not_reserved (indexed ''events'' i ''topic'') (ce_topic e)) es = Inr ()
      \<longleftrightarrow> (\<forall>e \<in> set es. \<not> is_reserved_method_name (ce_topic e))"
    "for_each (\<lambda>i e. and_then (schema_compile J (indexed ''events'' i ''payload'') (ce_payload e)) (\<lambda>_. Inr ())) es = Inr ()
      \<longleftrightarrow> (\<forall>e \<in> set es. schema_builds J (ce_payload e))" for es
    by (rule for_each_all; simp add: assert_not_reserved_Inr unit_and_then ok)+
  have methods: "for_each (\<lambda>i m. assert_not_reserved (indexed ''methods'' i ''name'') (cm_name m)) ms = Inr ()
      \<longleftrightarrow> (\<forall>m \<in> set ms. \<not> is_reserved_method_name (cm_name m))" for ms
    by (rule for_each_all) (simp add: assert_not_reserved_Inr)
  have built: "list_all2 (compiled_as J) ms cs \<Longrightarrow>
      (\<forall>m \<in> set ms. schema_builds J (cm_params m) \<and> schema_builds J (cm_result m))" for ms cs
    using compile_methods_ok [of J 0 ms] compile_methods_Inr [of J 0 ms cs] by (simp add: is_ok_iff)
  show ?thesis
    using built
    by (cases ct)
       (auto simp: contract_compile_def and_then_Inr catalog_validate_Inr events methods compile_methods_Inr
          compilable_def schema_compile_Inr schema_builds_def is_ok_iff split: option.splits)
qed

text \<open>
  C19: A catalog compiles exactly when it is valid, uses no reserved name and every schema document it
  embeds builds.  The contract keeps the catalog unchanged and has one compiled method per declared
  method, in order, with the validators of its own two schemas; the builder and \<open>from_catalog\<close> agree.
\<close>

theorem compile_characterised:
  "(\<exists>ct. from_catalog J fmt_number c = Inr ct) = compilable J c
   \<and> builder_build J fmt_number c = from_catalog J fmt_number c
   \<and> (from_catalog J fmt_number c = Inr ct \<longrightarrow> ct_catalog ct = c
        \<and> list_all2 (compiled_as J) (cat_methods c) (ct_methods ct))"
proof -
  have "\<exists>ct. from_catalog J fmt_number c = Inr ct" if "compilable J c"
  proof -
    have "is_ok (compile_methods J 0 (cat_methods c))"
      using that by (auto simp: compile_methods_ok compilable_def)
    then obtain cs where "compile_methods J 0 (cat_methods c) = Inr cs" by (auto simp: is_ok_iff)
    with that have "from_catalog J fmt_number c = Inr \<lparr>ct_catalog = c, ct_methods = cs\<rparr>"
      by (simp add: from_catalog_def contract_compile_Inr compile_methods_Inr)
    then show ?thesis by blast
  qed
  then show ?thesis by (auto simp: from_catalog_def builder_build_def contract_compile_Inr)
qed

section \<open>Answering a request\<close>

lemma first_violation_None: "first_violation J v x = None \<longleftrightarrow> js_validate J v x = None"
  by (simp add: first_violation_def Let_def split: option.split)

lemma with_detail_code [simp]: "re_code (with_detail e k v) = re_code e"
  by (simp add: with_detail_def)

lemma remote_error_new_code [simp]: "re_code (remote_error_new code message) = code"
  by (simp add: remote_error_new_def)

lemma check_params_Inr: "check_params J m v x = Inr () \<longleftrightarrow> js_validate J v x = None"
  unfolding first_violation_None [symmetric] by (simp add: check_params_def split: option.split)

lemma check_params_Inl: "check_params J m v x = Inl e \<Longrightarrow> re_code e = code_INVALID_PARAMS"
  by (auto simp: check_params_def violation_error_def split: option.splits)

lemma check_result_Inr: "check_result J m v x = Inr () \<longleftrightarrow> js_validate J v x = None"
  unfolding first_violation_None [symmetric] by (simp add: check_result_def split: option.split)

lemma check_result_Inl: "check_result J m v x = Inl e \<Longrightarrow> re_code e = code_INTERNAL"
  by (auto simp: check_result_def violation_error_def split: option.splits)

definition guard_of :: "'v method_policy \<Rightarrow> string \<Rightarrow> json \<Rightarrow> call_context \<Rightarrow> remote_error + unit" where
  "guard_of policy method params context =
     (case mp_guard policy of Some g \<Rightarrow> g method params (mp_capabilities policy) context | None \<Rightarrow> Inr ())"

text \<open>
  C15: The order of a served request.  Parameters the schema refuses are \<open>INVALID_PARAMS\<close> whatever the
  guard and the handler are; a guard's refusal is the answer whatever the handler is; parameters that
  pass both and do not decode are \<open>INTERNAL\<close>, never \<open>INVALID_PARAMS\<close>; an answer that succeeds is the
  handler's own, encoded, on parameters both accepted, and conforms to the result schema when results
  are checked.
\<close>

theorem answer_pipeline:
  "(js_validate J (mp_params_validator policy) params \<noteq> None \<longrightarrow>
      (\<exists>e. re_code e = code_INVALID_PARAMS \<and>
         (\<forall>th g. answer J m params context th (policy\<lparr>mp_guard := g\<rparr>) = Inl e)))
   \<and> (js_validate J (mp_params_validator policy) params = None \<longrightarrow>
      guard_of policy m params context = Inl e \<longrightarrow>
      (\<forall>th. answer J m params context th policy = Inl e))
   \<and> (js_validate J (mp_params_validator policy) params = None \<longrightarrow>
      guard_of policy m params context = Inr () \<longrightarrow> th_decode th params = Inl why \<longrightarrow>
      (\<exists>e. answer J m params context th policy = Inl e \<and> re_code e = code_INTERNAL))
   \<and> (answer J m params context th policy = Inr v \<longrightarrow>
      js_validate J (mp_params_validator policy) params = None \<and> guard_of policy m params context = Inr ()
      \<and> (\<exists>p r. th_decode th params = Inr p \<and> th_run th p context = Inr r \<and> th_encode th r = Inr v)
      \<and> (mp_validate_results policy \<longrightarrow> js_validate J (mp_result_validator policy) v = None))"
  (is "?schema \<and> ?guard \<and> ?decode \<and> ?success")
proof -
  have ?schema
  proof
    assume "js_validate J (mp_params_validator policy) params \<noteq> None"
    then obtain e where e: "check_params J m (mp_params_validator policy) params = Inl e"
      using check_params_Inr [of J m "mp_params_validator policy" params]
      by (cases "check_params J m (mp_params_validator policy) params") auto
    then show "\<exists>e. re_code e = code_INVALID_PARAMS \<and>
        (\<forall>th g. answer J m params context th (policy\<lparr>mp_guard := g\<rparr>) = Inl e)"
      using check_params_Inl [OF e] by (auto simp: answer_def)
  qed
  moreover have ?guard
    by (auto simp: answer_def guard_of_def iffD2 [OF check_params_Inr])
  moreover have ?decode
    by (auto simp: answer_def guard_of_def typed_call_def contract_decode_def iffD2 [OF check_params_Inr])
  moreover have ?success
    using check_params_Inr [of J m] check_result_Inr [of J m]
    by (auto simp: answer_def and_then_Inr guard_of_def typed_call_def contract_decode_def split: sum.splits if_splits)
  ultimately show ?thesis by blast
qed

text \<open>A schema checker that wants an object, for the examples.\<close>

definition object_schema :: "unit jsonschema" where
  "object_schema = \<lparr>js_build = (\<lambda>v. if is_object v then Inr () else Inl ''not a schema''),
     js_validate = (\<lambda>_ v. if is_object v then None
       else Some \<lparr>vi_path = [], vi_kind = OtherViolation, vi_message = ''expected an object''\<rparr>),
     js_join = (\<lambda>base token. base @ ''/'' @ token)\<rparr>"

definition echo_handler :: "(json, json) typed_handler" where
  "echo_handler = \<lparr>th_decode = Inr, th_run = (\<lambda>p _. Inr p), th_encode = Inr\<rparr>"

definition open_policy :: "unit method_policy" where
  "open_policy = \<lparr>mp_params_validator = (), mp_result_validator = (), mp_capabilities = [],
     mp_guard = Some (\<lambda>_ _ _ _. Inl not_ready_error), mp_validate_results = True\<rparr>"

definition example_context :: call_context where
  "example_context = \<lparr>cc_id = ''p-1'', cc_method = ''fs.read'', cc_cancel = 0, cc_remote = example_remote\<rparr>"

theorem answer_pipeline_witness:
  "\<exists>e. re_code e = code_INVALID_PARAMS \<and>
     answer object_schema ''fs.read'' JNull example_context echo_handler (open_policy\<lparr>mp_guard := None\<rparr>) = Inl e"
proof -
  have "js_validate object_schema (mp_params_validator open_policy) JNull \<noteq> None"
    by (simp add: object_schema_def is_object_def)
  with answer_pipeline [of object_schema open_policy JNull "''fs.read''" example_context not_ready_error echo_handler "[]" JNull]
  show ?thesis by blast
qed

section \<open>Serving\<close>

lemma fold_guard_drop:
  "hm_wf (sh_handlers sh) \<Longrightarrow> hm_wf (sh_handlers (fold guard_drop gs sh)) \<and>
   hm_get (sh_handlers (fold guard_drop gs sh)) m =
     (case hm_get (sh_handlers sh) m of
        None \<Rightarrow> None
      | Some (n, h) \<Rightarrow> if \<exists>g \<in> set gs. hg_armed g \<and> hg_method g = m \<and> hg_generation g = n then None else Some (n, h))"
proof (induction gs arbitrary: sh)
  case Nil
  then show ?case by (simp split: option.split)
next
  case (Cons g gs)
  have "hm_wf (sh_handlers (guard_drop g sh))"
    using Cons.prems by (simp add: guard_drop_def hm.inv_rem split: option.split)
  from Cons.IH [OF this] show ?case
    using Cons.prems
    by (auto simp: guard_drop_def hm.get_rem split: option.splits)
qed

text \<open>What the loop has registered: the methods in order, each under the next closure and generation.\<close>

definition registrations :: "nat \<Rightarrow> string list \<Rightarrow> (string \<times> handler_ref) list" where
  "registrations n ms = zip ms [n..<n + length ms]"

definition guards_of :: "u64 \<Rightarrow> string list \<Rightarrow> handler_guard list" where
  "guards_of gen ms = map (\<lambda>i. \<lparr>hg_method = ms ! i, hg_generation = gen + of_nat i, hg_armed = True\<rparr>) [0..<length ms]"

lemma drop_registered:
  assumes "hm_wf (sh_handlers sh)"
  shows "hm_get (sh_handlers (serve_guard_drop (guards_of (sh_next_generation sh) ms) (register_all (registrations n ms) sh))) m
    = (if m \<in> set ms then None else hm_get (sh_handlers sh) m)"
proof (cases "m \<in> set ms")
  case True
  have "m \<in> fst ` set (registrations n ms)"
    using True by (simp add: registrations_def flip: set_map)
  from register_last [OF this assms] obtain k where k: "k < length ms" "ms ! k = m"
    "\<exists>h. hm_get (sh_handlers (register_all (registrations n ms) sh)) m = Some (sh_next_generation sh + of_nat k, h)"
    by (auto simp: registrations_def)
  then have "\<exists>g \<in> set (guards_of (sh_next_generation sh) ms). hg_armed g \<and> hg_method g = m
      \<and> hg_generation g = sh_next_generation sh + of_nat k"
    by (auto simp: guards_of_def)
  with k(3) True fold_guard_drop [OF register_wf [OF assms]] show ?thesis
    by (auto simp: serve_guard_drop_def)
next
  case False
  then have "m \<notin> fst ` set (registrations n ms)" by (simp add: registrations_def flip: set_map)
  moreover have "\<forall>g \<in> set (guards_of (sh_next_generation sh) ms). hg_method g \<noteq> m"
    using False by (auto simp: guards_of_def)
  ultimately show ?thesis
    using False fold_guard_drop [OF register_wf [OF assms]] register_other [OF _ assms]
    by (auto simp: serve_guard_drop_def split: option.split)
qed

definition closure_of :: "'v contract \<Rightarrow> serve_options \<Rightarrow> string \<times> ('p, 'r) typed_handler \<Rightarrow> ('v, 'p, 'r) served" where
  "closure_of ct options h = Served (fst h) (snd h) (method_policy_of options (the (contract_method (fst h) ct)))"

definition declared :: "'v contract \<Rightarrow> string \<times> ('p, 'r) typed_handler \<Rightarrow> bool" where
  "declared ct h \<longleftrightarrow> contract_method (fst h) ct \<noteq> None"

lemma register_all_snoc:
  "register_all (hs @ [x]) sh = fst (register_handler (fst x) (snd x) (register_all hs sh))"
  by (simp add: register_all_def case_prod_beta)

lemma register_all_generation: "sh_next_generation (register_all hs sh) = sh_next_generation sh + of_nat (length hs)"
  by (induction hs arbitrary: sh) (simp_all add: register_handler_def Let_def)

lemma registrations_snoc: "registrations n (ms @ [m]) = registrations n ms @ [(m, n + length ms)]"
  by (simp add: registrations_def)

lemma registrations_Cons: "registrations n (m # ms) = (m, n) # registrations (Suc n) ms"
  by (simp add: registrations_def upt_conv_Cons del: upt_Suc)

lemma guards_of_snoc:
  "guards_of gen (ms @ [m]) = guards_of gen ms @ [\<lparr>hg_method = m, hg_generation = gen + of_nat (length ms), hg_armed = True\<rparr>]"
  by (simp add: guards_of_def nth_append)

lemma serve_handle_step:
  assumes "sh = register_all (registrations n ms) sh0" and "length closures = n + length ms"
  shows "serve_handle m c (sh, closures) =
    ((register_all (registrations n (ms @ [m])) sh0, closures @ [c]),
     \<lparr>hg_method = m, hg_generation = sh_next_generation sh0 + of_nat (length ms), hg_armed = True\<rparr>)"
  using assms register_all_generation [of "registrations n ms" sh0]
  by (simp add: serve_handle_def session_handle_def register_handler_def registrations_snoc register_all_snoc Let_def)
     (simp add: registrations_def)

lemma serve_loop_spec:
  fixes hs :: "('p, 'r) contract_handlers"
  assumes "length closures = n + length ms"
  shows "serve_loop ct options hs (guards_of (sh_next_generation sh0) ms) (register_all (registrations n ms) sh0, closures) =
    (let known = takeWhile (declared ct) hs; names = ms @ map fst known;
         sh = register_all (registrations n names) sh0; guards = guards_of (sh_next_generation sh0) names
     in if known = hs then ((sh, closures @ map (closure_of ct options) hs), Inr guards)
        else ((serve_guard_drop guards sh, closures @ map (closure_of ct options) known),
              Inl (ve_new ''handlers'' (fst (hs ! length known))
                (''a method declared by contract '' @ quoted (cat_name (ct_catalog ct))))))"
  using assms
proof (induction hs arbitrary: ms closures)
  case (Cons h hs)
  obtain m th where h: "h = (m, th)" by (cases h)
  show ?case
  proof (cases "contract_method m ct")
    case None
    then show ?thesis by (simp add: h declared_def)
  next
    case (Some compiled)
    let ?c = "closure_of ct options h"
    have len: "length (closures @ [?c]) = n + length (ms @ [m])" using Cons.prems by simp
    have "serve_loop ct options (h # hs) (guards_of (sh_next_generation sh0) ms) (register_all (registrations n ms) sh0, closures)
        = serve_loop ct options hs (guards_of (sh_next_generation sh0) (ms @ [m]))
            (register_all (registrations n (ms @ [m])) sh0, closures @ [?c])"
      using Some Cons.prems serve_handle_step [OF refl, of closures n ms m]
      by (simp add: h closure_of_def guards_of_snoc)
    also note Cons.IH [OF len]
    finally show ?thesis using Some by (simp add: h declared_def Let_def)
  qed
qed simp

definition discover_names :: "serve_options \<Rightarrow> string list" where
  "discover_names options = (if sv_discover options then [RPC_DISCOVER] else [])"

lemma serve_spec:
  assumes "sv_discover options \<Longrightarrow> to_value (ct_catalog ct) = Inr catalog"
  shows "serve to_value ct (sh, closures) hs options =
    (let known = takeWhile (declared ct) hs; names = discover_names options @ map fst known;
         served = closures @ (if sv_discover options then [Discover catalog] else []);
         sh' = register_all (registrations (length closures) names) sh; guards = guards_of (sh_next_generation sh) names
     in if known = hs then ((sh', served @ map (closure_of ct options) hs), Inr guards)
        else ((serve_guard_drop guards sh', served @ map (closure_of ct options) known),
              Inl (ve_new ''handlers'' (fst (hs ! length known))
                (''a method declared by contract '' @ quoted (cat_name (ct_catalog ct))))))"
proof (cases "sv_discover options")
  case True
  have first: "serve_handle RPC_DISCOVER (Discover catalog) (sh, closures) =
      ((register_all (registrations (length closures) [RPC_DISCOVER]) sh, closures @ [Discover catalog]),
       \<lparr>hg_method = RPC_DISCOVER, hg_generation = sh_next_generation sh, hg_armed = True\<rparr>)"
    using serve_handle_step [of sh "length closures" "[]" sh closures RPC_DISCOVER "Discover catalog"]
    by (simp add: registrations_def)
  have "guards_of (sh_next_generation sh) [RPC_DISCOVER] = [\<lparr>hg_method = RPC_DISCOVER, hg_generation = sh_next_generation sh, hg_armed = True\<rparr>]"
    by (simp add: guards_of_def)
  with serve_loop_spec [of "closures @ [Discover catalog]" "length closures" "[RPC_DISCOVER]" ct options hs sh] True assms first
  show ?thesis by (simp add: serve_def discover_names_def Let_def)
next
  case False
  with serve_loop_spec [of closures "length closures" "[]" ct options hs sh] show ?thesis
    by (simp add: serve_def discover_names_def registrations_def guards_of_def)
qed

fun served_name :: "('v, 'p, 'r) served \<Rightarrow> string" where
  "served_name (Discover catalog) = RPC_DISCOVER"
| "served_name (Served method erased policy) = method"

lemma persisted_drop: "serve_guard_drop (serve_guard_persist gs) sh = sh"
  unfolding serve_guard_drop_def serve_guard_persist_def
  by (induction gs arbitrary: sh) (simp_all add: guard_persist_def guard_drop_def)

lemma registered_closure:
  assumes "hm_wf (sh_handlers sh)" and "map served_name cs = names" and "m \<in> set names"
  shows "\<exists>gen ref. hm_get (sh_handlers (register_all (registrations (length closures) names) sh)) m = Some (gen, ref)
    \<and> length closures \<le> ref \<and> ref < length (closures @ cs) \<and> served_name ((closures @ cs) ! ref) = m"
proof -
  let ?n = "length closures"
  have len: "length cs = length names" using assms(2) by auto
  have "m \<in> fst ` set (registrations ?n names)" using assms(3) by (simp add: registrations_def flip: set_map)
  from register_last [OF this assms(1)] obtain k where k: "k < length names" "names ! k = m"
    "hm_get (sh_handlers (register_all (registrations ?n names) sh)) m = Some (sh_next_generation sh + of_nat k, ?n + k)"
    by (auto simp: registrations_def)
  moreover have "served_name (cs ! k) = m" using k assms(2) len by (metis nth_map)
  ultimately show ?thesis using len by (intro exI) (auto simp: nth_append)
qed

text \<open>
  C16: Serving a contract.  It succeeds exactly when every handler names a declared method and the
  catalog serialises if \<open>rpc.discover\<close> is answered.  Then each of those names has a handler that is one
  of this call's closures for that name, every other name is served as before, and dropping the guard
  unregisters exactly those names; a persisted guard's drop does nothing.
\<close>

theorem serve_registers_exactly:
  fixes handlers :: "('p, 'r) contract_handlers"
  assumes "hm_wf (sh_handlers sh)" and "serve to_value ct (sh, closures) handlers options = ((sh', closures'), r)"
  shows "(is_ok r \<longleftrightarrow> (sv_discover options \<longrightarrow> is_ok (to_value (ct_catalog ct))) \<and> (\<forall>h \<in> set handlers. declared ct h))
    \<and> (\<forall>guards. r = Inr guards \<longrightarrow>
        (\<forall>m \<in> set (discover_names options @ map fst handlers). \<exists>gen ref. hm_get (sh_handlers sh') m = Some (gen, ref)
           \<and> length closures \<le> ref \<and> ref < length closures' \<and> served_name (closures' ! ref) = m)
        \<and> (\<forall>m. m \<notin> set (discover_names options @ map fst handlers) \<longrightarrow> hm_get (sh_handlers sh') m = hm_get (sh_handlers sh) m)
        \<and> (\<forall>m. hm_get (sh_handlers (serve_guard_drop guards sh')) m =
             (if m \<in> set (discover_names options @ map fst handlers) then None else hm_get (sh_handlers sh) m))
        \<and> serve_guard_drop (serve_guard_persist guards) sh' = sh')"
proof (cases "sv_discover options \<and> \<not> is_ok (to_value (ct_catalog ct))")
  case True
  with assms(2) have "\<not> is_ok r" by (auto simp: serve_def split: sum.splits)
  with True show ?thesis by auto
next
  case False
  then obtain catalog where cat: "sv_discover options \<Longrightarrow> to_value (ct_catalog ct) = Inr catalog"
    by (cases "to_value (ct_catalog ct)") auto
  let ?names = "discover_names options @ map fst handlers"
  let ?cs = "(if sv_discover options then [Discover catalog] else []) @ map (closure_of ct options) handlers"
  note spec = serve_spec [where to_value = to_value and ct = ct and options = options and sh = sh and closures = closures
      and hs = handlers, OF cat, unfolded assms(2)]
  have ok: "is_ok r \<longleftrightarrow> (\<forall>h \<in> set handlers. declared ct h)"
    using spec by (auto simp: Let_def takeWhile_eq_all_conv split: if_splits)
  show ?thesis
  proof (cases "\<forall>h \<in> set handlers. declared ct h")
    case True
    then have "takeWhile (declared ct) handlers = handlers" by (simp add: takeWhile_eq_all_conv)
    with spec have sh': "sh' = register_all (registrations (length closures) ?names) sh" and closures': "closures' = closures @ ?cs"
      and r: "r = Inr (guards_of (sh_next_generation sh) ?names)" by (simp_all add: Let_def)
    have "map served_name ?cs = ?names" by (simp add: discover_names_def closure_of_def)
    from registered_closure [OF assms(1) this]
    have "\<forall>m \<in> set ?names. \<exists>gen ref. hm_get (sh_handlers sh') m = Some (gen, ref)
        \<and> length closures \<le> ref \<and> ref < length closures' \<and> served_name (closures' ! ref) = m"
      unfolding sh' closures' by blast
    moreover have "m \<notin> set ?names \<Longrightarrow> hm_get (sh_handlers sh') m = hm_get (sh_handlers sh) m" for m
      unfolding sh' by (rule register_other [OF _ assms(1)]) (auto simp: registrations_def dest: set_zip_leftD)
    ultimately show ?thesis
      using drop_registered [OF assms(1)] persisted_drop True False ok
      unfolding r sh' by simp
  qed (use ok in auto)
qed

text \<open>
  C17: A failed \<open>serve\<close> leaves none of its handlers behind: afterwards every name is served as before
  the call, or by nobody, the latter exactly for the names it had reached before the failure.  So a
  handler that was already registered under one of those names is lost.
\<close>

theorem serve_failure_leaves_nothing:
  fixes handlers :: "('p, 'r) contract_handlers"
  assumes "hm_wf (sh_handlers sh)" and "serve to_value ct (sh, closures) handlers options = ((sh', closures'), Inl e)"
  shows "\<exists>reached. set reached \<subseteq> set (discover_names options @ map fst handlers)
    \<and> (\<forall>m. hm_get (sh_handlers sh') m = (if m \<in> set reached then None else hm_get (sh_handlers sh) m))
    \<and> (ve_field e = ''handlers'' \<longrightarrow> reached = discover_names options @ map fst (takeWhile (declared ct) handlers))"
proof (cases "sv_discover options \<and> \<not> is_ok (to_value (ct_catalog ct))")
  case True
  with assms(2) have "sh' = sh" "ve_field e = ''catalog''" by (auto simp: serve_def ve_new_def split: sum.splits)
  then show ?thesis by (intro exI [of _ "[]"]) simp
next
  case False
  then obtain catalog where cat: "sv_discover options \<Longrightarrow> to_value (ct_catalog ct) = Inr catalog"
    by (cases "to_value (ct_catalog ct)") auto
  let ?reached = "discover_names options @ map fst (takeWhile (declared ct) handlers)"
  have "sh' = serve_guard_drop (guards_of (sh_next_generation sh) ?reached) (register_all (registrations (length closures) ?reached) sh)"
    using serve_spec [where to_value = to_value and ct = ct and options = options and sh = sh and closures = closures
      and hs = handlers, OF cat, unfolded assms(2)]
    by (auto simp: Let_def split: if_splits)
  moreover have "set ?reached \<subseteq> set (discover_names options @ map fst handlers)" by (auto dest: set_takeWhileD)
  ultimately show ?thesis using drop_registered [OF assms(1)] by (intro exI [of _ ?reached]) simp
qed

text \<open>An example: one method, served on the ready session.\<close>

definition read_method :: catalog_method where
  "read_method = \<lparr>cm_name = ''fs.read'', cm_description = None, cm_params = JObject [], cm_result = JObject [],
     cm_capabilities = [], cm_deprecated = False\<rparr>"

definition read_catalog :: catalog where
  "read_catalog = \<lparr>cat_name = ''c'', cat_version = ''1'', cat_description = None, cat_protocol = None,
     cat_methods = [read_method], cat_events = [], cat_capabilities = None\<rparr>"

definition read_contract :: "unit contract" where
  "read_contract = \<lparr>ct_catalog = read_catalog, ct_methods = [\<lparr>mt_definition = read_method, mt_params = (), mt_result = ()\<rparr>]\<rparr>"

lemma ready_handlers: "hm_wf (sh_handlers (ss_shared ready_session))" "sh_handlers (ss_shared ready_session) = []"
  by (simp_all add: ready_session_def example_session_def example_options hm_wf_def)

lemma read_declared:
  "contract_method ''fs.read'' read_contract = Some \<lparr>mt_definition = read_method, mt_params = (), mt_result = ()\<rparr>"
  "contract_method ''no.such'' read_contract = None"
  by (simp_all add: contract_method_def read_contract_def read_method_def)

theorem serve_registers_exactly_witness:
  "\<exists>sh' closures' guards.
     serve (\<lambda>_. Inr JNull) read_contract (ss_shared ready_session, []) [(''fs.read'', echo_handler)] serve_options_default
       = ((sh', closures'), Inr guards)
     \<and> hm_get (sh_handlers sh') ''fs.read'' \<noteq> None \<and> hm_get (sh_handlers (serve_guard_drop guards sh')) ''fs.read'' = None"
proof -
  let ?hs = "[(''fs.read'', echo_handler)]"
  obtain sh' closures' r where s: "serve (\<lambda>_. Inr JNull) read_contract (ss_shared ready_session, []) ?hs serve_options_default
      = ((sh', closures'), r)" by (metis prod.collapse)
  note law = serve_registers_exactly [OF ready_handlers(1) s]
  have "is_ok r" using law by (simp add: declared_def read_declared serve_options_default_def)
  then obtain guards where r: "r = Inr guards" by (auto simp: is_ok_iff)
  have "hm_get (sh_handlers sh') ''fs.read'' \<noteq> None" "hm_get (sh_handlers (serve_guard_drop guards sh')) ''fs.read'' = None"
    using law r by auto
  with s r show ?thesis by blast
qed

theorem serve_failure_leaves_nothing_witness:
  "\<exists>sh' closures' e.
     serve (\<lambda>_. Inr JNull) read_contract (register_all [(''fs.read'', 99)] (ss_shared ready_session), [])
         [(''fs.read'', echo_handler), (''no.such'', echo_handler)] serve_options_default = ((sh', closures'), Inl e)
     \<and> hm_get (sh_handlers sh') ''fs.read'' = None"
proof -
  let ?sh = "register_all [(''fs.read'', 99)] (ss_shared ready_session)"
  let ?hs = "[(''fs.read'', echo_handler), (''no.such'', echo_handler)]"
  have wf: "hm_wf (sh_handlers ?sh)" by (rule register_wf) (rule ready_handlers(1))
  have known: "takeWhile (declared read_contract) ?hs = [(''fs.read'', echo_handler)]"
    by (simp add: declared_def read_declared)
  obtain sh' closures' e where s: "serve (\<lambda>_. Inr JNull) read_contract (?sh, []) ?hs serve_options_default
      = ((sh', closures'), Inl e)" and e: "ve_field e = ''handlers''"
    by (simp add: serve_def serve_options_default_def read_declared serve_handle_def case_prod_beta ve_new_def)
  from serve_failure_leaves_nothing [OF wf s] e obtain reached where
    "\<forall>m. hm_get (sh_handlers sh') m = (if m \<in> set reached then None else hm_get (sh_handlers ?sh) m)"
    "reached = discover_names serve_options_default @ map fst (takeWhile (declared read_contract) ?hs)"
    by blast
  then have "hm_get (sh_handlers sh') ''fs.read'' = None" unfolding known by simp
  with s show ?thesis by blast
qed

section \<open>Discovery\<close>

lemma contract_method_name:
  assumes "contract_compile J N c = Inr ct" and "contract_method m ct = Some cm"
  shows "\<not> is_reserved_method_name m"
proof -
  from assms(1) have c: "compilable J c" "list_all2 (compiled_as J) (cat_methods c) (ct_methods ct)"
    by (simp_all add: contract_compile_Inr)
  have "cm \<in> set (ct_methods ct)" "cm_name (mt_definition cm) = m"
    using assms(2) by (auto simp: contract_method_def find_Some_iff)
  then obtain k where k: "k < length (ct_methods ct)" "ct_methods ct ! k = cm" by (auto simp: in_set_conv_nth)
  then have "mt_definition cm = cat_methods c ! k" "k < length (cat_methods c)"
    using c(2) by (auto simp: list_all2_conv_all_nth compiled_as_def)
  with c(1) \<open>cm_name (mt_definition cm) = m\<close> show ?thesis by (auto simp: compilable_def)
qed

text \<open>
  C18: Discovery returns the contract being served.  When a peer compiles a catalog and serves it, a
  client whose \<open>rpc.discover\<close> request is dispatched to the handler the peer's session has registered for
  it receives that very catalog, valid and decoded, given that serde reads back what it wrote.
\<close>

theorem discover_returns_served_catalog:
  fixes handlers :: "('p, 'r) contract_handlers"
  assumes "\<forall>c v. to_value c = Inr v \<longrightarrow> from_value v = Inr c"
    and "from_catalog J fmt_number c = Inr ct" and "hm_wf (sh_handlers sh)" and "sv_discover options"
    and "serve to_value ct (sh, closures) handlers options = ((sh', closures'), Inr guards)"
    and "\<forall>v ro. request RPC_DISCOVER v ro =
      (case hm_get (sh_handlers sh') RPC_DISCOVER of
         Some (gen, ref) \<Rightarrow> run_served J (closures' ! ref) v context
       | None \<Rightarrow> Inl (unsupported (cat_name c) RPC_DISCOVER))"
  shows "client_discover_with request from_value fmt_number ro = Inr c"
proof -
  have ct: "contract_compile J fmt_number c = Inr ct" using assms(2) by (simp add: from_catalog_def)
  then have c: "ct_catalog ct = c" "valid_but_protocol c" by (simp_all add: contract_compile_Inr compilable_def)
  from assms(4,5) obtain v where v: "to_value c = Inr v" by (cases "to_value c") (auto simp: serve_def c)
  have cat: "sv_discover options \<Longrightarrow> to_value (ct_catalog ct) = Inr v" by (simp add: c v)
  note spec = serve_spec [where to_value = to_value and ct = ct and options = options and sh = sh
      and closures = closures and hs = handlers, OF cat, unfolded assms(5)]
  have known: "takeWhile (declared ct) handlers = handlers"
    using spec by (auto simp: Let_def split: if_splits)
  let ?names = "RPC_DISCOVER # map fst handlers"
  have sh': "sh' = register_all (registrations (length closures) ?names) sh"
    and closures': "closures' = closures @ Discover v # map (closure_of ct options) handlers"
    using spec assms(4) by (simp_all add: known Let_def discover_names_def)
  have "is_reserved_method_name RPC_DISCOVER" by code_simp
  then have absent: "RPC_DISCOVER \<notin> set (map fst handlers)"
    using known contract_method_name [OF ct] by (auto simp: takeWhile_eq_all_conv declared_def)
  let ?sh1 = "fst (register_handler RPC_DISCOVER (length closures) sh)"
  have "hm_wf (sh_handlers ?sh1)" "hm_get (sh_handlers ?sh1) RPC_DISCOVER = Some (sh_next_generation sh, length closures)"
    using assms(3) by (simp_all add: register_handler_def Let_def hm.inv_ins hm.get_ins)
  moreover have "RPC_DISCOVER \<notin> fst ` set (registrations (Suc (length closures)) (map fst handlers))"
    using absent by (auto simp: registrations_def dest: set_zip_leftD)
  ultimately have "hm_get (sh_handlers sh') RPC_DISCOVER = Some (sh_next_generation sh, length closures)"
    using register_other by (simp add: sh' registrations_Cons)
  then have "request RPC_DISCOVER (JObject []) ro = Inr v"
    using assms(6) by (simp add: closures' run_served_def is_object_def nth_append)
  with assms(1) v c(2) show ?thesis
    by (simp add: client_discover_with_def client_request_with_def iffD2 [OF catalog_validate_Inr])
qed

definition read_to_value :: "catalog \<Rightarrow> string + json" where
  "read_to_value c = (if c = read_catalog then Inr (JString ''read'') else Inl ''unsupported'')"

definition read_from_value :: "json \<Rightarrow> string + catalog" where
  "read_from_value v = (if v = JString ''read'' then Inr read_catalog else Inl ''unsupported'')"

lemma read_compiles: "from_catalog object_schema (\<lambda>_. []) read_catalog = Inr read_contract"
proof -
  have "valid_name ''fs.read''" using example_names(4) by (simp add: valid_name_iff)
  then have "compilable object_schema read_catalog"
    using bad_name_labels example_names(5)
    by (simp add: compilable_def valid_catalog_def valid_protocol_def read_catalog_def valid_label_def valid_method_def read_method_def
        is_object_def schema_builds_def object_schema_def)
  then show ?thesis
    by (simp add: from_catalog_def contract_compile_Inr read_contract_def read_catalog_def compiled_as_def read_method_def
        object_schema_def is_object_def)
qed

theorem compile_characterised_witness:
  "compilable object_schema read_catalog \<and> ct_catalog read_contract = read_catalog \<and> length (ct_methods read_contract) = 1"
  using compile_characterised [of object_schema "\<lambda>_. []" read_catalog read_contract] read_compiles
  by (auto dest: list_all2_lengthD simp: read_catalog_def)

theorem discover_returns_served_catalog_witness:
  "\<exists>request. client_discover_with request read_from_value (\<lambda>_. []) \<lparr>ro_cancel = False, ro_timeout = None\<rparr> = Inr read_catalog"
proof -
  let ?hs = "[(''fs.read'', echo_handler)]"
  obtain sh' closures' r where s: "serve read_to_value read_contract (ss_shared ready_session, []) ?hs serve_options_default
      = ((sh', closures'), r)" by (metis prod.collapse)
  then have "is_ok r"
    by (auto simp: serve_def serve_options_default_def read_declared serve_handle_def case_prod_beta read_to_value_def
        read_contract_def [THEN arg_cong [where f = ct_catalog]])
  then obtain guards where r: "r = Inr guards" by (auto simp: is_ok_iff)
  have rt: "\<forall>c v. read_to_value c = Inr v \<longrightarrow> read_from_value v = Inr c"
    by (simp add: read_to_value_def read_from_value_def)
  have on: "sv_discover serve_options_default" by (simp add: serve_options_default_def)
  let ?request = "\<lambda>(m :: string) v (o' :: request_options). case hm_get (sh_handlers sh') RPC_DISCOVER of
     Some (gen, ref) \<Rightarrow> run_served object_schema (closures' ! ref) v example_context
   | None \<Rightarrow> Inl (unsupported (cat_name read_catalog) RPC_DISCOVER)"
  have "client_discover_with ?request read_from_value (\<lambda>_. []) \<lparr>ro_cancel = False, ro_timeout = None\<rparr> = Inr read_catalog"
    using discover_returns_served_catalog [OF rt read_compiles ready_handlers(1) on s [unfolded r], of ?request example_context]
    by blast
  then show ?thesis by blast
qed

section \<open>Typed events\<close>

definition subscription :: "nat \<Rightarrow> shared \<Rightarrow> event channel option" where
  "subscription n sh = hm_get (sh_event_channels sh) n"

lemma events_recv_queue:
  assumes "subscription n sh = Some ch"
  shows "events_recv n sh = (case ch_queue ch of
      [] \<Rightarrow> (sh\<lparr>sh_event_channels := hm_insert n ch (sh_event_channels sh)\<rparr>, if ch_sender ch then Pending else Polled None)
    | e # rest \<Rightarrow> (sh\<lparr>sh_event_channels := hm_insert n (ch\<lparr>ch_queue := rest\<rparr>) (sh_event_channels sh)\<rparr>, Polled (Some e)))"
  using assms by (simp add: events_recv_def subscription_def ch_recv_def split: list.split)

text \<open>
  A typed subscription yields exactly the events of its topic, in order, and terminates: one
  \<open>recv\<close> consumes the queued events up to and including the first of its topic and returns that one
  decoded, or an \<open>INTERNAL\<close> error for it when it does not decode; with none queued it consumes them all
  and waits, or ends once the session has closed.
\<close>

theorem typed_recv_filters_topic:
  fixes from_value :: "json \<Rightarrow> string + 't"
  assumes "subscription n sh = Some ch"
  shows "case dropWhile (\<lambda>e. evt_topic e \<noteq> topic) (ch_queue ch) of
      [] \<Rightarrow> (\<exists>sh'. typed_recv from_value topic n sh = (sh', if ch_sender ch then Pending else Polled None)
            \<and> subscription n sh' = Some (ch\<lparr>ch_queue := []\<rparr>))
    | e # rest \<Rightarrow> (\<exists>sh' x. typed_recv from_value topic n sh = (sh', Polled (Some x))
            \<and> subscription n sh' = Some (ch\<lparr>ch_queue := rest\<rparr>)
            \<and> (case from_value (evt_payload e) of
                 Inr payload \<Rightarrow> x = Inr \<lparr>te_payload = payload, te_frame = e\<rparr>
               | Inl _ \<Rightarrow> (\<exists>error. x = Inl error \<and> re_code error = code_INTERNAL)))"
  using assms
proof (induction "ch_queue ch" arbitrary: sh ch)
  case Nil
  note recv = events_recv_queue [OF Nil.prems]
  have "ch\<lparr>ch_queue := []\<rparr> = ch" using Nil.hyps by simp
  with Nil.hyps [symmetric] show ?case
    by (subst typed_recv.simps) (simp add: recv subscription_def)
next
  case (Cons e q)
  let ?sh = "sh\<lparr>sh_event_channels := hm_insert n (ch\<lparr>ch_queue := q\<rparr>) (sh_event_channels sh)\<rparr>"
  have recv: "events_recv n sh = (?sh, Polled (Some e))"
    using events_recv_queue [OF Cons.prems] Cons.hyps(2) [symmetric] by simp
  have sub: "subscription n ?sh = Some (ch\<lparr>ch_queue := q\<rparr>)" by (simp add: subscription_def)
  show ?case
  proof (cases "evt_topic e = topic")
    case True
    with Cons.hyps(2) [symmetric] recv sub show ?thesis
      by (auto simp: typed_recv.simps [of from_value topic n sh] typed_decode_def split: sum.split)
  next
    case False
    have "typed_recv from_value topic n sh = typed_recv from_value topic n ?sh"
      using False by (simp add: typed_recv.simps [of from_value topic n sh] recv)
    moreover have "dropWhile (\<lambda>e. evt_topic e \<noteq> topic) (ch_queue ch) = dropWhile (\<lambda>e. evt_topic e \<noteq> topic) q"
      using False Cons.hyps(2) [symmetric] by simp
    ultimately show ?thesis
      using Cons.hyps(1) [of "ch\<lparr>ch_queue := q\<rparr>" ?sh] sub by (auto simp del: dropWhile_eq_Nil_conv split: list.splits)
  qed
qed

definition note_event :: "string \<Rightarrow> event" where
  "note_event topic = \<lparr>evt_topic = topic, evt_seq = 0, evt_stream_id = None, evt_payload = JNull, evt_end = None\<rparr>"

definition subscribed :: shared where
  "subscribed = fold fan_out_event [note_event ''fs.other'', note_event ''fs.changed''] (fst (subscribe_events (ss_shared ready_session)))"

lemma subscribed_channel:
  "subscription 1 subscribed = Some \<lparr>ch_queue = [note_event ''fs.other'', note_event ''fs.changed''], ch_sender = True, ch_receiver = True\<rparr>"
  by (simp add: subscription_def subscribed_def fan_out_event_def subscribe_events_def ready_session_def
      example_session_def example_options fresh_name_def hm_insert_def hm_get_def unbounded_channel_def ch_send_def)

theorem typed_recv_filters_topic_witness:
  "\<exists>sh'. typed_recv Inr ''fs.changed'' 1 subscribed
     = (sh', Polled (Some (Inr \<lparr>te_payload = JNull, te_frame = note_event ''fs.changed''\<rparr>)))"
  using typed_recv_filters_topic [OF subscribed_channel, of "Inr :: json \<Rightarrow> string + json" "''fs.changed''"]
  by (auto simp: note_event_def)

end
