(* ===== verification/Ndjson_Port.thy ===== *)
theory Ndjson_Port
  imports Port
begin

text \<open>
  The NDJSON port of \<open>transports/ndjson.rs\<close>, which stdio, the local socket and the spawn launcher all
  reuse.  The operating-system handles are the environment's: a write answers with a \<open>write_result\<close>, a
  read with a \<open>read_event\<close>, and both are arguments of the operations.  The bytes a writing handle took
  over its life are kept in \<open>sw_wire\<close>.

  The writer is shared by the sending half, the receiving half and any \<open>PortCloser\<close>, so its calls are
  modelled in the pieces that can interleave: a send up to the lock and under it, the farewell, the
  flip of \<open>ending\<close>, and the rest of the shutdown.
\<close>

section \<open>The shared writer\<close>

text \<open>
  How \<open>write_record\<close> ends: the whole record was taken and flushed; the handle failed after taking
  some bytes; or the write was given up, evicted by the end of the port or by the farewell's grace.
\<close>

datatype write_result = Wrote | WriteFailed nat | WriteStuck nat

definition bytes_taken :: "byte list \<Rightarrow> write_result \<Rightarrow> byte list" where
  "bytes_taken line res =
     (case res of Wrote \<Rightarrow> line | WriteFailed n \<Rightarrow> take n line | WriteStuck n \<Rightarrow> take n line)"

text \<open>\<open>sw_writer\<close> is whether the handle is still there (\<open>Some\<close>): it is dropped when the port ends.\<close>

record shared_writer =
  sw_wire :: "byte list"
  sw_writer :: bool
  sw_writable :: bool
  sw_ending :: bool

definition shared_writer_new :: shared_writer where
  "shared_writer_new = \<lparr>sw_wire = [], sw_writer = True, sw_writable = True, sw_ending = False\<rparr>"

text \<open>\<open>write_frame\<close> up to the lock: an outcome, or the line to write.\<close>

definition write_frame_enter :: "serde_json \<Rightarrow> shared_writer \<Rightarrow> frame \<Rightarrow> nat \<Rightarrow> send_outcome + byte list" where
  "write_frame_enter S w frame max_frame_bytes =
     (case encode_line S frame max_frame_bytes of
        Inl error \<Rightarrow> Inl (Refused error)
      | Inr line \<Rightarrow> if sw_ending w then Inl SendClosed else Inr line)"

text \<open>\<open>write_frame\<close> under the lock.\<close>

definition write_frame_locked :: "shared_writer \<Rightarrow> byte list \<Rightarrow> write_result \<Rightarrow> shared_writer \<times> send_outcome" where
  "write_frame_locked w line res =
     (if \<not> sw_writable w then (w, SendClosed)
      else if \<not> sw_writer w then (w, SendClosed)
      else let w = w\<lparr>sw_wire := sw_wire w @ bytes_taken line res\<rparr> in
        case res of
          Wrote \<Rightarrow> (w, Sent)
        | WriteFailed _ \<Rightarrow> (w\<lparr>sw_writable := False\<rparr>, SendClosed)
        | WriteStuck _ \<Rightarrow> (w\<lparr>sw_writable := False\<rparr>, SendClosed))"

text \<open>A whole \<open>send\<close>, when nothing comes between its two parts.\<close>

definition ntx_send :: "serde_json \<Rightarrow> nat \<Rightarrow> frame \<Rightarrow> write_result \<Rightarrow> shared_writer \<Rightarrow> shared_writer \<times> send_outcome" where
  "ntx_send S max_frame_bytes frame res w =
     (case write_frame_enter S w frame max_frame_bytes of
        Inl out \<Rightarrow> (w, out)
      | Inr line \<Rightarrow> write_frame_locked w line res)"

definition clamp_reason :: "string \<Rightarrow> string" where
  "clamp_reason reason =
     (if chars_count reason \<le> MAX_REASON_CHARS then reason else chars_take MAX_REASON_CHARS reason)"

text \<open>The record \<open>write_close\<close> writes: with the reason, else without it, else none.\<close>

definition farewell_record :: "serde_json \<Rightarrow> u16 \<Rightarrow> string option \<Rightarrow> nat \<Rightarrow> (frame \<times> byte list) option" where
  "farewell_record S code reason max_frame_bytes =
     (let frame = Close \<lparr>close_code = code, close_reason = map_option clamp_reason reason\<rparr>;
          bare = Close \<lparr>close_code = code, close_reason = None\<rparr>
      in case encode_line S frame max_frame_bytes of
           Inr line \<Rightarrow> Some (frame, line)
         | Inl _ \<Rightarrow> (case encode_line S bare max_frame_bytes of
                       Inr line \<Rightarrow> Some (bare, line)
                     | Inl _ \<Rightarrow> None))"

text \<open>
  \<open>write_close\<close> under the grace of \<open>end\<close>.  When the grace runs out the call is dropped where it
  stands: what was taken stays taken, and \<open>writable\<close> is not touched.
\<close>

definition write_close :: "serde_json \<Rightarrow> shared_writer \<Rightarrow> u16 \<Rightarrow> string option \<Rightarrow> nat \<Rightarrow> write_result \<Rightarrow> shared_writer" where
  "write_close S w code reason max_frame_bytes res =
     (case farewell_record S code reason max_frame_bytes of
        None \<Rightarrow> w
      | Some (_, line) \<Rightarrow>
          if \<not> sw_writable w then w
          else if \<not> sw_writer w then w
          else let w = w\<lparr>sw_wire := sw_wire w @ bytes_taken line res\<rparr> in
            case res of
              Wrote \<Rightarrow> w
            | WriteFailed _ \<Rightarrow> w\<lparr>sw_writable := False\<rparr>
            | WriteStuck _ \<Rightarrow> w)"

text \<open>\<open>shut_down\<close>: the flip of \<open>ending\<close>, then the handle is taken and dropped.\<close>

definition sw_shut_down_flip :: "shared_writer \<Rightarrow> shared_writer" where
  "sw_shut_down_flip w = w\<lparr>sw_ending := True\<rparr>"

definition sw_shut_down_take :: "shared_writer \<Rightarrow> shared_writer" where
  "sw_shut_down_take w = w\<lparr>sw_writable := False, sw_writer := False\<rparr>"

definition sw_shut_down :: "shared_writer \<Rightarrow> shared_writer" where
  "sw_shut_down w = sw_shut_down_take (sw_shut_down_flip w)"

definition sw_end :: "serde_json \<Rightarrow> shared_writer \<Rightarrow> u16 \<Rightarrow> string option \<Rightarrow> nat \<Rightarrow> write_result \<Rightarrow> shared_writer" where
  "sw_end S w code reason max_frame_bytes res =
     sw_shut_down (write_close S w code reason max_frame_bytes res)"

section \<open>The port and its halves\<close>

record ndjson_port =
  np_writer :: shared_writer
  np_max_frame_bytes :: nat

definition ndjson_port_new :: ndjson_port where
  "ndjson_port_new = \<lparr>np_writer = shared_writer_new, np_max_frame_bytes = DEFAULT_MAX_FRAME_BYTES\<rparr>"

text \<open>\<open>stdio_port\<close>: the port over the process's own standard streams.\<close>

definition stdio_port :: ndjson_port where
  "stdio_port = ndjson_port_new"

text \<open>A ceiling below the floor panics (\<open>Inl\<close> the message).\<close>

definition np_with_max_frame_bytes :: "nat \<Rightarrow> ndjson_port \<Rightarrow> string + ndjson_port" where
  "np_with_max_frame_bytes max_frame_bytes port =
     and_then (check_max_frame_bytes max_frame_bytes) (\<lambda>m. Inr (port\<lparr>np_max_frame_bytes := m\<rparr>))"

text \<open>\<open>PortCloser::close\<close>: \<open>alive\<close> is whether either half still holds the writer.\<close>

definition port_closer_close :: "serde_json \<Rightarrow> bool \<Rightarrow> shared_writer \<Rightarrow> nat \<Rightarrow> u16 \<Rightarrow> string option \<Rightarrow> write_result \<Rightarrow> shared_writer" where
  "port_closer_close S alive w max_frame_bytes code reason res =
     (if alive then sw_end S w code reason max_frame_bytes res else w)"

record ndjson_rx =
  nx_decoder :: line_decoder
  nx_pending :: "frame list"
  nx_closure :: "port_closure option"
  nx_max_frame_bytes :: nat
  nx_terminal :: bool

definition np_split :: "ndjson_port \<Rightarrow> string + ndjson_rx" where
  "np_split port =
     and_then (line_decoder_new (np_max_frame_bytes port))
       (\<lambda>d. Inr \<lparr>nx_decoder = d, nx_pending = [], nx_closure = None,
                 nx_max_frame_bytes = np_max_frame_bytes port, nx_terminal = False\<rparr>)"

section \<open>Receiving\<close>

text \<open>What a read gives: bytes (none of them is the end of the stream), or an error's text.\<close>

datatype read_event = ReadBytes "byte list" | ReadFailed string

definition nx_refuse :: "serde_json \<Rightarrow> write_result \<Rightarrow> codec_error \<Rightarrow> ndjson_rx \<Rightarrow> shared_writer \<Rightarrow> ndjson_rx \<times> shared_writer" where
  "nx_refuse S res error rx w =
     (let code = close_code_for_codec_error error; reason = codec_error_display error
      in (rx\<lparr>nx_closure := Some (ProtocolError error code)\<rparr>,
          sw_end S w code (Some reason) (nx_max_frame_bytes rx) res))"

definition nx_decode_chunk :: "serde_json \<Rightarrow> write_result \<Rightarrow> byte list \<Rightarrow> ndjson_rx \<Rightarrow> shared_writer \<Rightarrow> ndjson_rx \<times> shared_writer" where
  "nx_decode_chunk S res bytes rx w =
     (let (d, outcome) = ld_push S (nx_decoder rx) bytes;
          rx = rx\<lparr>nx_decoder := d, nx_pending := nx_pending rx @ po_frames outcome\<rparr>
      in case po_error outcome of
           Some error \<Rightarrow> nx_refuse S res error rx w
         | None \<Rightarrow> (rx, w))"

definition nx_on_eof :: "ndjson_rx \<Rightarrow> shared_writer \<Rightarrow> ndjson_rx \<times> shared_writer" where
  "nx_on_eof rx w = (rx\<lparr>nx_closure := Some (PortClosed None None)\<rparr>, sw_shut_down w)"

definition nx_on_failure :: "string \<Rightarrow> ndjson_rx \<Rightarrow> shared_writer \<Rightarrow> ndjson_rx \<times> shared_writer" where
  "nx_on_failure error rx w = (rx\<lparr>nx_closure := Some (PortClosed None (Some error))\<rparr>, sw_shut_down w)"

definition nx_on_read :: "serde_json \<Rightarrow> write_result \<Rightarrow> read_event \<Rightarrow> ndjson_rx \<Rightarrow> shared_writer \<Rightarrow> ndjson_rx \<times> shared_writer" where
  "nx_on_read S res ev rx w =
     (case ev of
        ReadBytes bytes \<Rightarrow> if bytes = [] then nx_on_eof rx w else nx_decode_chunk S res bytes rx w
      | ReadFailed error \<Rightarrow> nx_on_failure error rx w)"

text \<open>The checks at the head of the loop of \<open>recv\<close>; None goes on to read.\<close>

definition nx_ready :: "ndjson_rx \<Rightarrow> (ndjson_rx \<times> inbound option) option" where
  "nx_ready rx =
     (case nx_pending rx of
        frame # rest \<Rightarrow> Some (rx\<lparr>nx_pending := rest\<rparr>, Some (InFrame frame))
      | [] \<Rightarrow>
          (case nx_closure rx of
             Some closure \<Rightarrow> Some (rx\<lparr>nx_closure := None, nx_terminal := True\<rparr>, Some (InClosed closure))
           | None \<Rightarrow> if nx_terminal rx then Some (rx, None) else None))"

type_synonym nx_state = "ndjson_rx \<times> shared_writer \<times> read_event list"

text \<open>\<open>recv\<close>, over the reads the handle will answer; with none left the call waits.\<close>

fun nx_recv :: "serde_json \<Rightarrow> write_result \<Rightarrow> ndjson_rx \<Rightarrow> shared_writer \<Rightarrow> read_event list \<Rightarrow> nx_state \<times> inbound option poll" where
  "nx_recv S res rx w [] =
     (case nx_ready rx of
        Some (rx', item) \<Rightarrow> ((rx', w, []), Polled item)
      | None \<Rightarrow> ((rx, w, []), Pending))"
| "nx_recv S res rx w (ev # reads) =
     (case nx_ready rx of
        Some (rx', item) \<Rightarrow> ((rx', w, ev # reads), Polled item)
      | None \<Rightarrow> (case nx_on_read S res ev rx w of (rx', w') \<Rightarrow> nx_recv S res rx' w' reads))"

definition nx_step :: "serde_json \<Rightarrow> write_result \<Rightarrow> nx_state \<Rightarrow> nx_state \<times> inbound option poll" where
  "nx_step S res s = (case s of (rx, w, reads) \<Rightarrow> nx_recv S res rx w reads)"

section \<open>The receiving half keeps the port contract\<close>

definition nx_ended :: "nx_state \<Rightarrow> bool" where
  "nx_ended s = (case s of (rx, _, _) \<Rightarrow> nx_pending rx = [] \<and> nx_closure rx = None \<and> nx_terminal rx)"

lemma nx_ready_closed:
  "nx_ready rx = Some (rx', Some (InClosed c)) \<Longrightarrow> nx_ended (rx', w, reads)"
  by (auto simp: nx_ready_def nx_ended_def split: list.splits option.splits if_splits)

lemma nx_recv_closed:
  "nx_recv S res rx w reads = (s, Polled (Some (InClosed c))) \<Longrightarrow> nx_ended s"
  by (induction S res rx w reads rule: nx_recv.induct)
     (auto split: option.splits prod.splits dest: nx_ready_closed)

lemma nx_ready_ended: "nx_ended (rx, w, reads) \<Longrightarrow> nx_ready rx = Some (rx, None)"
  by (simp add: nx_ended_def nx_ready_def)

lemma nx_step_ended:
  assumes "nx_ended s"
  shows "nx_step S res s = (s, Polled None)"
proof -
  obtain rx w reads where s: "s = (rx, w, reads)" by (cases s)
  with assms nx_ready_ended show ?thesis
    by (cases reads) (auto simp: nx_step_def)
qed

interpretation nrx: port_receiver "nx_step S res" nx_ended for S res
proof unfold_locales
  show "nx_ended s'" if "nx_step S res s = (s', Polled (Some (InClosed c)))" for s s' c
    using that by (auto simp: nx_step_def dest: nx_recv_closed split: prod.splits)
qed (rule nx_step_ended)

section \<open>What the receiving half delivers\<close>

lemma nx_recv_pending:
  "nx_pending rx = f # fs \<Longrightarrow>
     nx_step S res (rx, w, reads) = ((rx\<lparr>nx_pending := fs\<rparr>, w, reads), Polled (Some (InFrame f)))"
  by (cases reads) (simp_all add: nx_step_def nx_ready_def)

lemma recvs_pending:
  "snd (recvs (nx_step S res) (length (nx_pending rx) + n) (rx, w, reads)) =
     map InFrame (nx_pending rx) @ snd (recvs (nx_step S res) n (rx\<lparr>nx_pending := []\<rparr>, w, reads))"
proof (induction "nx_pending rx" arbitrary: rx)
  case Nil
  then have idle: "rx\<lparr>nx_pending := []\<rparr> = rx" by (cases rx) simp
  show ?case by (simp only: idle) (simp flip: Nil)
next
  case (Cons f fs)
  from Cons.hyps(1) [of "rx\<lparr>nx_pending := fs\<rparr>"] Cons.hyps(2) [symmetric] show ?case
    by (simp add: nx_recv_pending case_prod_beta)
qed

definition nx_reading :: "ndjson_rx \<Rightarrow> bool" where
  "nx_reading rx = (nx_closure rx = None \<and> \<not> nx_terminal rx)"

lemma recvs_read:
  assumes "nx_reading rx" and "nx_pending rx = []" and "nx_on_read S res ev rx w = (rx', w')"
  shows "recvs (nx_step S res) (Suc n) (rx, w, ev # reads) = recvs (nx_step S res) (Suc n) (rx', w', reads)"
  using assms by (simp add: nx_step_def nx_ready_def nx_reading_def)

lemma recvs_eof:
  assumes "nx_reading rx" and "nx_pending rx = []"
  shows "snd (recvs (nx_step S res) (Suc n) (rx, w, [ReadBytes []])) = [InClosed (PortClosed None None)]"
proof -
  obtain rx' w' where r: "nx_on_read S res (ReadBytes []) rx w = (rx', w')" by fastforce
  let ?s = "(rx'\<lparr>nx_closure := None, nx_terminal := True\<rparr>, w', [])"
  have "nx_ready rx' = Some (rx'\<lparr>nx_closure := None, nx_terminal := True\<rparr>, Some (InClosed (PortClosed None None)))"
    and "nx_pending rx' = []"
    using r assms by (auto simp: nx_on_read_def nx_on_eof_def nx_ready_def)
  then have "nx_step S res (rx', w', []) = (?s, Polled (Some (InClosed (PortClosed None None))))"
    and "nx_ended ?s" by (simp_all add: nx_step_def nx_ended_def)
  with recvs_read [OF assms r] show ?thesis by (simp add: nrx.recvs_ended)
qed

lemma ld_push_nothing:
  "ld_wf d \<Longrightarrow> ld_failure d = None \<Longrightarrow> ld_push S d [] = (d, \<lparr>po_frames = [], po_error = None\<rparr>)"
  by (simp add: ld_push_def ld_wf_def push_loop_partial)

lemma ld_push_ok_append:
  assumes "ld_wf d" and "po_error (snd (ld_push S d (a @ b))) = None"
  shows "po_error (snd (ld_push S d a)) = None"
    and "po_error (snd (ld_push S (fst (ld_push S d a)) b)) = None"
    and "po_frames (snd (ld_push S d (a @ b))) =
           po_frames (snd (ld_push S d a)) @ po_frames (snd (ld_push S (fst (ld_push S d a)) b))"
proof -
  note app = ld_push_append [OF assms(1), of S a b]
  show second: "po_error (snd (ld_push S (fst (ld_push S d a)) b)) = None"
    using app assms(2) by (simp add: po_kind_def)
  show "po_frames (snd (ld_push S d (a @ b))) =
      po_frames (snd (ld_push S d a)) @ po_frames (snd (ld_push S (fst (ld_push S d a)) b))"
    using app by simp
  show "po_error (snd (ld_push S d a)) = None"
  proof (cases "ld_failure (fst (ld_push S d a))")
    case None
    then show ?thesis by (simp add: ld_push_error)
  next
    case (Some e)
    with second show ?thesis by (simp add: ld_push_failed)
  qed
qed

lemma recvs_chunks:
  assumes "nx_reading rx" and "ld_wf (nx_decoder rx)" and "ld_failure (nx_decoder rx) = None"
    and "list_all (\<lambda>c. c \<noteq> []) chunks"
    and "po_error (snd (ld_push S (nx_decoder rx) (concat chunks))) = None"
    and "fs = po_frames (snd (ld_push S (nx_decoder rx) (concat chunks)))"
  shows "snd (recvs (nx_step S res) (length (nx_pending rx) + length fs + Suc n)
            (rx, w, map ReadBytes chunks @ [ReadBytes []])) =
         map InFrame (nx_pending rx @ fs) @ [InClosed (PortClosed None None)]"
  using assms
proof (induction chunks arbitrary: rx w fs n)
  case Nil
  then have "fs = []" by (simp add: ld_push_nothing)
  moreover have "nx_reading (rx\<lparr>nx_pending := []\<rparr>)" using Nil by (simp add: nx_reading_def)
  ultimately show ?case
    using recvs_pending [of S res rx "Suc n" w "[ReadBytes []]"] by (simp add: recvs_eof del: recvs.simps)
next
  case (Cons c cs)
  let ?d = "nx_decoder rx"
  let ?d' = "fst (ld_push S ?d c)" and ?gs = "po_frames (snd (ld_push S ?d c))"
  let ?rx = "rx\<lparr>nx_pending := []\<rparr>"
  let ?rx' = "?rx\<lparr>nx_decoder := ?d', nx_pending := ?gs\<rparr>"
  let ?hs = "po_frames (snd (ld_push S ?d' (concat cs)))"
  note ok = ld_push_ok_append [OF Cons.prems(2), of S c "concat cs"]
  have err: "po_error (snd (ld_push S ?d (c @ concat cs))) = None" using Cons.prems(5) by simp
  have fs: "fs = ?gs @ ?hs" using Cons.prems(6) ok(3) [OF err] by simp
  have read: "nx_on_read S res (ReadBytes c) ?rx w = (?rx', w)"
    using Cons.prems(4) ok(1) [OF err]
    by (auto simp: nx_on_read_def nx_decode_chunk_def Let_def split: prod.split)
  have "snd (recvs (nx_step S res) (length (nx_pending rx) + (length fs + Suc n))
            (rx, w, map ReadBytes (c # cs) @ [ReadBytes []])) =
      map InFrame (nx_pending rx) @ snd (recvs (nx_step S res) (Suc (length fs + n))
            (?rx', w, map ReadBytes cs @ [ReadBytes []]))"
    using recvs_read [OF _ _ read, of "length fs + n" "map ReadBytes cs @ [ReadBytes []]"] Cons.prems(1)
    by (simp only: recvs_pending) (simp add: nx_reading_def del: recvs.simps)
  moreover have "snd (recvs (nx_step S res) (length (nx_pending ?rx') + length ?hs + Suc n)
            (?rx', w, map ReadBytes cs @ [ReadBytes []])) =
      map InFrame (nx_pending ?rx' @ ?hs) @ [InClosed (PortClosed None None)]"
  proof (rule Cons.IH)
    show "ld_wf (nx_decoder ?rx')" using Cons.prems(2) by (simp add: ld_push_wf)
    show "ld_failure (nx_decoder ?rx') = None" using ok(1) [OF err] by (simp flip: ld_push_error)
  qed (use Cons.prems ok(2) [OF err] in \<open>simp_all add: nx_reading_def\<close>)
  ultimately show ?case using fs by (simp add: ac_simps del: recvs.simps)
qed

section \<open>One direction, its writer driven in any order\<close>

text \<open>
  The pieces of the writer's calls.  \<open>SendEnter\<close> and \<open>SendLocked\<close> are one \<open>send\<close> (the sending half is
  borrowed for the call, so at most one is waiting); \<open>Farewell\<close>, \<open>Flip\<close>, \<open>TakeHandle\<close> are one \<open>end\<close>.
\<close>

datatype writer_op =
    SendEnter frame
  | SendLocked write_result
  | Farewell u16 "string option" write_result
  | Flip
  | TakeHandle

record nd_side =
  nd_writer :: shared_writer
  nd_waiting :: "(frame \<times> byte list) option"
  nd_outcomes :: "(frame \<times> send_outcome) list"
  nd_unreported :: "frame list"

text \<open>
  \<open>nd_outcomes\<close> is what the callers were told and \<open>nd_unreported\<close> the frames whose whole record the handle
  took although the write did not succeed (its flush failed, or it was given up at its very end).
\<close>

definition nd_open :: nd_side where
  "nd_open = \<lparr>nd_writer = shared_writer_new, nd_waiting = None, nd_outcomes = [], nd_unreported = []\<rparr>"

definition taken_unreported :: "shared_writer \<Rightarrow> frame \<Rightarrow> byte list \<Rightarrow> write_result \<Rightarrow> frame list" where
  "taken_unreported w f line res =
     (if sw_writable w \<and> sw_writer w \<and> res \<noteq> Wrote \<and> bytes_taken line res = line then [f] else [])"

definition nd_step :: "serde_json \<Rightarrow> nat \<Rightarrow> writer_op \<Rightarrow> nd_side \<Rightarrow> nd_side" where
  "nd_step S m op s =
     (let w = nd_writer s in
      case op of
        SendEnter f \<Rightarrow>
          (case nd_waiting s of
             Some _ \<Rightarrow> s
           | None \<Rightarrow> (case write_frame_enter S w f m of
                 Inl out \<Rightarrow> s\<lparr>nd_outcomes := nd_outcomes s @ [(f, out)]\<rparr>
               | Inr line \<Rightarrow> s\<lparr>nd_waiting := Some (f, line)\<rparr>))
      | SendLocked res \<Rightarrow>
          (case nd_waiting s of
             None \<Rightarrow> s
           | Some (f, line) \<Rightarrow> (case write_frame_locked w line res of
                 (w', out) \<Rightarrow> s\<lparr>nd_writer := w', nd_waiting := None,
                                 nd_outcomes := nd_outcomes s @ [(f, out)],
                                 nd_unreported := nd_unreported s @ taken_unreported w f line res\<rparr>))
      | Farewell code reason res \<Rightarrow>
          s\<lparr>nd_writer := write_close S w code reason m res,
            nd_outcomes := nd_outcomes s @
              (case farewell_record S code reason m of
                 Some (f, _) \<Rightarrow>
                   if sw_writable w \<and> sw_writer w then [(f, if res = Wrote then Sent else SendClosed)] else []
               | None \<Rightarrow> []),
            nd_unreported := nd_unreported s @
              (case farewell_record S code reason m of
                 Some (f, line) \<Rightarrow> taken_unreported w f line res
               | None \<Rightarrow> [])\<rparr>
      | Flip \<Rightarrow> s\<lparr>nd_writer := sw_shut_down_flip w\<rparr>
      | TakeHandle \<Rightarrow> s\<lparr>nd_writer := sw_shut_down_take w\<rparr>)"

definition nd_run :: "serde_json \<Rightarrow> nat \<Rightarrow> writer_op list \<Rightarrow> nd_side" where
  "nd_run S m ops = fold (nd_step S m) ops nd_open"

text \<open>The frames whose whole record the handle took and the caller was told so, in order.\<close>

definition nd_sent :: "nd_side \<Rightarrow> frame list" where
  "nd_sent s = map fst (filter (\<lambda>fo. snd fo = Sent) (nd_outcomes s))"

text \<open>
  What is asked of the handle: once a farewell has run into its grace, the handle takes no further
  byte before it is dropped.  \<open>stuck\<close> is whether one has.
\<close>

fun takes_nothing :: "write_result \<Rightarrow> bool" where
  "takes_nothing Wrote = False"
| "takes_nothing (WriteFailed n) = (n = 0)"
| "takes_nothing (WriteStuck n) = (n = 0)"

fun is_stuck :: "write_result \<Rightarrow> bool" where
  "is_stuck (WriteStuck _) = True"
| "is_stuck _ = False"

fun stays_stuck :: "bool \<Rightarrow> writer_op list \<Rightarrow> bool" where
  "stays_stuck stuck [] = True"
| "stays_stuck stuck (SendLocked res # ops) = ((stuck \<longrightarrow> takes_nothing res) \<and> stays_stuck stuck ops)"
| "stays_stuck stuck (Farewell _ _ res # ops) =
     ((stuck \<longrightarrow> takes_nothing res) \<and> stays_stuck (stuck \<or> is_stuck res) ops)"
| "stays_stuck stuck (_ # ops) = stays_stuck stuck ops"

definition ops_exact :: "writer_op list \<Rightarrow> bool" where
  "ops_exact ops = list_all (\<lambda>op. case op of SendEnter f \<Rightarrow> frame_exact f | _ \<Rightarrow> True) ops"

text \<open>
  The wire: the records of the frames sent, in order, then at most a part of one more record, which
  is only there when nothing further can be written; the frame is unreported when the part is all of it.
\<close>

definition record_of :: "serde_json \<Rightarrow> nat \<Rightarrow> frame \<Rightarrow> byte list \<Rightarrow> bool" where
  "record_of S m f line = (frame_exact f \<and> encode_line S f m = Inr line)"

definition part_of :: "serde_json \<Rightarrow> nat \<Rightarrow> frame list \<Rightarrow> byte list \<Rightarrow> bool" where
  "part_of S m whole part \<longleftrightarrow>
     (\<exists>f line n. record_of S m f line \<and> part = take n line \<and> whole = (if length line \<le> n then [f] else []))"

definition wire_holds :: "serde_json \<Rightarrow> nat \<Rightarrow> frame list \<Rightarrow> frame list \<Rightarrow> bool \<Rightarrow> byte list \<Rightarrow> bool" where
  "wire_holds S m sent whole over wire \<longleftrightarrow>
     (\<exists>ls part. wire = concat ls @ part \<and> list_all2 (record_of S m) sent ls
        \<and> (part = [] \<and> whole = [] \<or> over \<and> part_of S m whole part))"

definition nd_inv :: "serde_json \<Rightarrow> nat \<Rightarrow> bool \<Rightarrow> nd_side \<Rightarrow> bool" where
  "nd_inv S m stuck s \<longleftrightarrow>
     wire_holds S m (nd_sent s) (nd_unreported s) (\<not> sw_writable (nd_writer s) \<or> stuck) (sw_wire (nd_writer s))
     \<and> (\<forall>f \<in> set (nd_unreported s). (f, SendClosed) \<in> set (nd_outcomes s))
     \<and> (case nd_waiting s of Some (f, line) \<Rightarrow> record_of S m f line | None \<Rightarrow> True)"

lemma wire_holds_mono:
  "wire_holds S m sent whole over wire \<Longrightarrow> (over \<Longrightarrow> over') \<Longrightarrow> wire_holds S m sent whole over' wire"
  unfolding wire_holds_def by blast

lemma wire_holds_record:
  assumes "wire_holds S m sent whole False wire" and "record_of S m f line"
  shows "wire_holds S m (sent @ [f]) whole over (wire @ line)"
proof -
  obtain ls where "wire = concat ls" "list_all2 (record_of S m) sent ls" "whole = []"
    using assms(1) by (auto simp: wire_holds_def)
  with assms(2) have "wire @ line = concat (ls @ [line]) @ []"
    and "list_all2 (record_of S m) (sent @ [f]) (ls @ [line])"
    by (simp_all add: list_all2_appendI)
  with \<open>whole = []\<close> show ?thesis unfolding wire_holds_def by blast
qed

lemma wire_holds_part:
  assumes "wire_holds S m sent whole False wire" and "record_of S m f line"
  shows "wire_holds S m sent (whole @ (if length line \<le> n then [f] else [])) True (wire @ take n line)"
proof -
  have "part_of S m (if length line \<le> n then [f] else []) (take n line)"
    using assms(2) unfolding part_of_def by blast
  moreover obtain ls where "wire = concat ls" "list_all2 (record_of S m) sent ls" "whole = []"
    using assms(1) by (auto simp: wire_holds_def)
  ultimately show ?thesis
    unfolding wire_holds_def by (intro exI [of _ ls] exI [of _ "take n line"]) simp
qed

lemma record_nonempty: "record_of S m f line \<Longrightarrow> line \<noteq> []"
  by (auto simp: record_of_def encode_line_def and_then_Inr)

lemma take_whole_iff: "take n xs = xs \<longleftrightarrow> length xs \<le> n"
  by (metis length_take min.absorb_iff1 take_all_iff)

text \<open>One record handed to the handle, whatever the handle makes of it.\<close>

lemma wire_holds_taken:
  assumes "wire_holds S m sent whole stuck wire" and "record_of S m f line" and "stuck \<longrightarrow> takes_nothing res"
    and "res \<noteq> Wrote \<longrightarrow> over" and "stuck \<longrightarrow> over" and "sw_writable w" and "sw_writer w"
  shows "wire_holds S m (sent @ (if res = Wrote then [f] else [])) (whole @ taken_unreported w f line res) over
     (wire @ bytes_taken line res)"
proof (cases stuck)
  case True
  with assms record_nonempty [OF assms(2)] show ?thesis
    by (cases res) (simp_all add: bytes_taken_def taken_unreported_def)
next
  case False
  then have hold: "wire_holds S m sent whole False wire" using assms(1) by simp
  show ?thesis
  proof (cases "res = Wrote")
    case True
    with wire_holds_record [OF hold assms(2)] show ?thesis by (simp add: bytes_taken_def taken_unreported_def)
  next
    case False
    with wire_holds_part [OF hold assms(2)] assms(4,6,7) show ?thesis
      by (cases res) (simp_all add: bytes_taken_def taken_unreported_def take_whole_iff)
  qed
qed

lemma farewell_record_of: "farewell_record S code reason m = Some (f, line) \<Longrightarrow> record_of S m f line"
  by (auto simp: farewell_record_def record_of_def frame_exact_def Let_def split: sum.splits)

lemma nd_sent_outcome:
  "nd_sent (s\<lparr>nd_outcomes := nd_outcomes s @ xs\<rparr>) = nd_sent s @ map fst (filter (\<lambda>fo. snd fo = Sent) xs)"
  by (simp add: nd_sent_def)

lemma nd_inv_open: "nd_inv S m False nd_open"
  by (simp add: nd_inv_def nd_open_def nd_sent_def shared_writer_new_def wire_holds_def)

lemma nd_inv_enter:
  assumes "nd_inv S m stuck s" and "frame_exact f"
  shows "nd_inv S m stuck (nd_step S m (SendEnter f) s)"
  using assms
  by (auto simp: nd_inv_def nd_step_def write_frame_enter_def nd_sent_def record_of_def Let_def
      split: option.split sum.split)

lemma nd_inv_locked:
  assumes "nd_inv S m stuck s" and "stuck \<longrightarrow> takes_nothing res"
  shows "nd_inv S m stuck (nd_step S m (SendLocked res) s)"
proof (cases "nd_waiting s")
  case None
  with assms show ?thesis by (simp add: nd_step_def)
next
  case (Some fl)
  obtain f line where fl: "fl = (f, line)" by (cases fl)
  let ?w = "nd_writer s"
  show ?thesis
  proof (cases "sw_writable ?w \<and> sw_writer ?w")
    case False
    with assms Some fl show ?thesis
      by (auto simp: nd_inv_def nd_step_def write_frame_locked_def nd_sent_def taken_unreported_def Let_def)
  next
    case True
    with assms Some fl have hold: "wire_holds S m (nd_sent s) (nd_unreported s) stuck (sw_wire ?w)" and rec: "record_of S m f line"
      by (simp_all add: nd_inv_def)
    have "wire_holds S m (nd_sent s @ (if res = Wrote then [f] else []))
        (nd_unreported s @ taken_unreported ?w f line res) (res \<noteq> Wrote \<or> stuck)
        (sw_wire ?w @ bytes_taken line res)"
      by (rule wire_holds_taken [OF hold rec assms(2)]) (use True in simp_all)
    with True Some fl assms(1) show ?thesis
      by (cases res) (auto simp: nd_inv_def nd_step_def write_frame_locked_def nd_sent_def taken_unreported_def Let_def)
  qed
qed

lemma nd_inv_farewell:
  assumes "nd_inv S m stuck s" and "stuck \<longrightarrow> takes_nothing res"
  shows "nd_inv S m (stuck \<or> is_stuck res) (nd_step S m (Farewell code reason res) s)"
proof -
  let ?w = "nd_writer s"
  have weak: "nd_inv S m (stuck \<or> is_stuck res) s"
    using assms(1) by (auto simp: nd_inv_def intro: wire_holds_mono)
  show ?thesis
  proof (cases "farewell_record S code reason m")
    case None
    with weak show ?thesis by (simp add: nd_inv_def nd_step_def write_close_def nd_sent_def Let_def)
  next
    case (Some fl)
    obtain f line where fl: "fl = (f, line)" by (cases fl)
    show ?thesis
    proof (cases "sw_writable ?w \<and> sw_writer ?w")
      case False
      with weak Some fl show ?thesis
        by (auto simp: nd_inv_def nd_step_def write_close_def nd_sent_def taken_unreported_def Let_def)
    next
      case True
      with assms have hold: "wire_holds S m (nd_sent s) (nd_unreported s) stuck (sw_wire ?w)" by (simp add: nd_inv_def)
      have "wire_holds S m (nd_sent s @ (if res = Wrote then [f] else []))
        (nd_unreported s @ taken_unreported ?w f line res) (res \<noteq> Wrote \<or> stuck)
          (sw_wire ?w @ bytes_taken line res)"
        using Some fl True by (intro wire_holds_taken [OF hold _ assms(2)]) (auto dest: farewell_record_of)
      with True Some fl assms(1) show ?thesis
        by (cases res) (auto simp: nd_inv_def nd_step_def write_close_def nd_sent_def taken_unreported_def Let_def)
    qed
  qed
qed

lemma nd_inv_end:
  assumes "nd_inv S m stuck s" and "op = Flip \<or> op = TakeHandle"
  shows "nd_inv S m stuck (nd_step S m op s)"
  using assms
  by (auto simp: nd_inv_def nd_step_def sw_shut_down_flip_def sw_shut_down_take_def nd_sent_def Let_def
      intro: wire_holds_mono)

lemma nd_inv_run:
  "nd_inv S m stuck s \<Longrightarrow> stays_stuck stuck ops \<Longrightarrow> ops_exact ops \<Longrightarrow>
     \<exists>stuck'. nd_inv S m stuck' (fold (nd_step S m) ops s)"
proof (induction ops arbitrary: stuck s)
  case Nil
  then show ?case by auto
next
  case (Cons op ops)
  have "\<exists>stuck'. nd_inv S m stuck' (nd_step S m op s) \<and> stays_stuck stuck' ops"
    using Cons.prems
    by (cases op) (auto simp: ops_exact_def intro: nd_inv_enter nd_inv_locked nd_inv_farewell nd_inv_end)
  with Cons show ?case by (auto simp: ops_exact_def)
qed

section \<open>End to end\<close>

lemma encode_line_larger:
  "encode_line S f m = Inr line \<Longrightarrow> m \<le> m' \<Longrightarrow> encode_line S f m' = Inr line"
  by (auto simp: encode_line_def and_then_Inr encode_frame_bytes_Inr)

lemma records_larger:
  "list_all2 (record_of S m) fs ls \<Longrightarrow> m \<le> m' \<Longrightarrow>
     list_all2 (\<lambda>f l. frame_exact f \<and> encode_line S f m' = Inr l) fs ls"
  by (erule list_all2_mono) (auto simp: record_of_def intro: encode_line_larger)

text \<open>Part of a record is nothing to the decoder yet, or, taken to its newline, one frame.\<close>

lemma push_loop_part:
  assumes "serde_ok S" and "4096 \<le> m" and "m \<le> m'" and "part_of S m whole part"
  shows "\<exists>r. push_loop S m' gs part = (gs @ whole, None, r) \<and> length (strip_carriage_return r) \<le> m'"
proof -
  obtain f line n where rec: "record_of S m f line" and part: "part = take n line"
    and whole: "whole = (if length line \<le> n then [f] else [])"
    using assms(4) by (auto simp: part_of_def)
  obtain bs where line: "line = bs @ [0x0A]" and enc: "encode_frame_bytes S f m = Inr bs"
    using rec by (auto simp: record_of_def encode_line_def and_then_Inr)
  show ?thesis
  proof (cases "n \<le> length bs")
    case True
    let ?r = "take n bs"
    have "0x0A \<notin> set ?r" using encoded_object(3) [OF assms(1) enc] set_take_subset [of n bs] by blast
    then have "push_loop S m' gs part = (gs @ whole, None, ?r)"
      using True line part whole by (simp add: push_loop_partial)
    moreover have "length (strip_carriage_return ?r) \<le> m'"
      using strip_length [of ?r] enc assms(3) by (simp add: encode_frame_bytes_Inr)
    ultimately show ?thesis by blast
  next
    case False
    then have all: "part = concat [line]" "whole = [f]" using line part whole by simp_all
    have "list_all2 (\<lambda>f l. frame_exact f \<and> encode_line S f m' = Inr l) [f] [line]"
      using records_larger [of S m "[f]" "[line]" m'] assms(3) rec by simp
    then have "push_loop S m' gs part = (gs @ whole, None, [])"
      using push_loop_lines [OF assms(1), of m' "[f]" "[line]" gs] assms(2,3) all by simp
    then show ?thesis by (simp add: strip_carriage_return_def)
  qed
qed

lemma ld_push_wire:
  assumes "serde_ok S" and "4096 \<le> m" and "m \<le> m'" and "wire_holds S m sent whole over wire"
    and "line_decoder_new m' = Inr d"
  shows "length whole \<le> 1 \<and> po_frames (snd (ld_push S d wire)) = sent @ whole
     \<and> po_error (snd (ld_push S d wire)) = None"
proof -
  obtain ls part where wire: "wire = concat ls @ part" and ls: "list_all2 (record_of S m) sent ls"
    and part: "part = [] \<and> whole = [] \<or> part_of S m whole part"
    using assms(4) unfolding wire_holds_def by blast
  have lines: "push_loop S m' [] (concat ls) = (sent, None, [])"
    using push_loop_lines [OF assms(1) _ records_larger [OF ls assms(3)], of "[]"] assms(2,3) by simp
  have one: "length whole \<le> 1" using part by (auto simp: part_of_def)
  have "\<exists>r. push_loop S m' sent part = (sent @ whole, None, r) \<and> length (strip_carriage_return r) \<le> m'"
  proof (cases "part_of S m whole part")
    case True
    then show ?thesis by (rule push_loop_part [OF assms(1-3)])
  next
    case False
    with part show ?thesis by (simp add: push_loop_partial strip_carriage_return_def)
  qed
  with one show ?thesis
    using lines wire push_loop_append [of S m' "[]" "concat ls" part] assms(5)
    by (auto simp: line_decoder_new_Inr ld_push_def Let_def)
qed

text \<open>
  C26: The NDJSON transport loses, reorders and duplicates nothing.  Whatever order a side's sends,
  farewells and shutdown run in, however each write ends, and however the bytes are cut into reads,
  the other side's \<open>recv\<close> gives exactly the frames whose send was reported \<open>Sent\<close> (and a farewell
  that was written), in order, then the frame, if any, whose record the handle took whole although the
  write was reported as failed or given up, then the closure once and nothing after it.  There is at
  most one such frame, and it is one that was reported closed.  This is for a JSON library that does
  what it documents, frames it reads back exactly (no floating-point number, objects in key order,
  nesting at most 120), a reader whose ceiling is not below the writer's, and a handle that takes nothing
  more once a farewell has run into its grace on it.
\<close>

theorem ndjson_port_delivers:
  assumes "serde_ok S" and "4096 \<le> m" and "m \<le> m'"
    and "ops_exact ops" and "stays_stuck False ops" and "nd_run S m ops = side"
    and "np_split (ndjson_port_new\<lparr>np_max_frame_bytes := m'\<rparr>) = Inr rx"
    and "concat chunks = sw_wire (nd_writer side)" and "list_all (\<lambda>c. c \<noteq> []) chunks"
    and "length (nd_outcomes side) + 2 \<le> n"
  shows "snd (recvs (nx_step S res) n (rx, w, map ReadBytes chunks @ [ReadBytes []])) =
         map InFrame (nd_sent side @ nd_unreported side) @ [InClosed (PortClosed None None)]
    \<and> length (nd_unreported side) \<le> 1
    \<and> (\<forall>f \<in> set (nd_unreported side). (f, SendClosed) \<in> set (nd_outcomes side))"
proof -
  let ?fs = "nd_sent side @ nd_unreported side"
  obtain d where d: "line_decoder_new m' = Inr d"
    and rx: "rx = \<lparr>nx_decoder = d, nx_pending = [], nx_closure = None, nx_max_frame_bytes = m', nx_terminal = False\<rparr>"
    using assms(7) by (auto simp: np_split_def and_then_Inr)
  obtain stuck where "nd_inv S m stuck side"
    using nd_inv_run [OF nd_inv_open assms(5,4), of S m] assms(6) unfolding nd_run_def by blast
  then obtain over where "wire_holds S m (nd_sent side) (nd_unreported side) over (concat chunks)"
    and closed: "\<forall>f \<in> set (nd_unreported side). (f, SendClosed) \<in> set (nd_outcomes side)"
    using assms(8) unfolding nd_inv_def by auto
  note push = ld_push_wire [OF assms(1-3) this(1) d]
  have "length (nd_sent side) \<le> length (nd_outcomes side)" by (simp add: nd_sent_def)
  with push assms(10) have n: "n = length (nx_pending rx) + length ?fs + Suc (n - length ?fs - 1)"
    using rx by simp
  have "snd (recvs (nx_step S res) (length (nx_pending rx) + length ?fs + Suc (n - length ?fs - 1))
      (rx, w, map ReadBytes chunks @ [ReadBytes []])) =
      map InFrame (nx_pending rx @ ?fs) @ [InClosed (PortClosed None None)]"
    by (rule recvs_chunks)
       (use rx d push assms(9) line_decoder_new_wf [OF d] in \<open>auto simp: nx_reading_def line_decoder_new_Inr\<close>)
  with n push closed rx show ?thesis by (metis append_Nil ndjson_rx.select_convs(2))
qed

text \<open>
  A send that went out whole, one whose write failed after the handle took \<open>k\<close> bytes of it, and the end
  of the port.
\<close>

definition given_up_ops :: "nat \<Rightarrow> writer_op list" where
  "given_up_ops k = [SendEnter Ping, SendLocked Wrote, SendEnter Pong, SendLocked (WriteFailed k), Flip, TakeHandle]"

lemma given_up_run:
  "nd_outcomes (nd_run liveness_serde 4096 (given_up_ops k)) = [(Ping, Sent), (Pong, SendClosed)]"
  "nd_unreported (nd_run liveness_serde 4096 (given_up_ops k)) = (if length pong_text < k then [Pong] else [])"
  "sw_wire (nd_writer (nd_run liveness_serde 4096 (given_up_ops k))) = ping_text @ [0x0A] @ take k (pong_text @ [0x0A])"
  by (simp_all add: given_up_ops_def nd_run_def nd_open_def nd_step_def write_frame_enter_def
      write_frame_locked_def encode_line_def liveness_encode shared_writer_new_def bytes_taken_def
      taken_unreported_def take_whole_iff sw_shut_down_flip_def sw_shut_down_take_def Let_def Suc_le_eq
      del: take_append)

definition fresh_rx :: ndjson_rx where
  "fresh_rx = \<lparr>nx_decoder = fresh_decoder, nx_pending = [], nx_closure = None, nx_max_frame_bytes = 4096,
     nx_terminal = False\<rparr>"

theorem ndjson_port_delivers_witness:
  "snd (recvs (nx_step liveness_serde Wrote) 4 (fresh_rx, shared_writer_new,
        map ReadBytes [ping_text @ [0x0A], take 3 (pong_text @ [0x0A])] @ [ReadBytes []])) =
     [InFrame Ping, InClosed (PortClosed None None)]
   \<and> snd (recvs (nx_step liveness_serde Wrote) 4 (fresh_rx, shared_writer_new,
        map ReadBytes [ping_text @ [0x0A], take 99 (pong_text @ [0x0A])] @ [ReadBytes []])) =
     [InFrame Ping, InFrame Pong, InClosed (PortClosed None None)]"
proof -
  have rx: "np_split (ndjson_port_new\<lparr>np_max_frame_bytes := 4096\<rparr>) = Inr fresh_rx"
    by (simp add: np_split_def fresh_decoder_new fresh_rx_def)
  have "snd (recvs (nx_step liveness_serde Wrote) 4 (fresh_rx, shared_writer_new,
        map ReadBytes [ping_text @ [0x0A], take (Suc k) (pong_text @ [0x0A])] @ [ReadBytes []])) =
     map InFrame (Ping # (if length pong_text < Suc k then [Pong] else [])) @ [InClosed (PortClosed None None)]" for k
  proof -
    let ?side = "nd_run liveness_serde 4096 (given_up_ops (Suc k))"
    let ?chunks = "[ping_text @ [0x0A], take (Suc k) (pong_text @ [0x0A])]"
    have exact: "ops_exact (given_up_ops (Suc k))" "stays_stuck False (given_up_ops (Suc k))"
      by (simp_all add: given_up_ops_def ops_exact_def frame_exact_def)
    have chunks: "concat ?chunks = sw_wire (nd_writer ?side)" "list_all (\<lambda>c. c \<noteq> []) ?chunks"
      by (simp_all add: given_up_run)
    have n: "length (nd_outcomes ?side) + 2 \<le> 4" by (simp add: given_up_run)
    have "nd_sent ?side @ nd_unreported ?side = Ping # (if length pong_text < Suc k then [Pong] else [])"
      by (simp add: nd_sent_def given_up_run)
    with ndjson_port_delivers [OF liveness_serde_ok order_refl order_refl exact refl rx chunks n, of Wrote shared_writer_new]
    show ?thesis by simp
  qed
  from this [of 2] this [of 98] show ?thesis by (simp add: pong_text_eq numeral_eq_Suc del: recvs.simps)
qed

text \<open>
  Why the last hypothesis is there: a farewell that runs into its grace leaves \<open>writable\<close> set, so a
  send already waiting for the lock may still be written, and reported \<open>Sent\<close>, behind the part of the
  close record that was taken.
\<close>

lemma stuck_farewell_then_send:
  fixes k :: nat
  assumes "encode_line S f m = Inr line" and "farewell_record S code reason m = Some (g, gl)"
  defines "s \<equiv> nd_run S m [SendEnter f, Farewell code reason (WriteStuck k), SendLocked Wrote, Flip, TakeHandle]"
  shows "(f, Sent) \<in> set (nd_outcomes s) \<and> sw_wire (nd_writer s) = take k gl @ line"
  using assms(1,2)
  by (simp add: s_def nd_run_def nd_open_def nd_step_def write_frame_enter_def write_frame_locked_def
      write_close_def shared_writer_new_def bytes_taken_def sw_shut_down_flip_def sw_shut_down_take_def Let_def)

end
