(* ===== verification/Websocket.thy ===== *)
theory Websocket
  imports Ndjson_Port Chunk
begin

text \<open>
  The WebSocket port of \<open>transports/websocket.rs\<close>: the options, the sending half with its writer
  task, and the receiving half.  The socket itself (tungstenite) is the environment: a write answers
  with how many messages it took and whether it is done, and the messages that arrive are an argument
  of \<open>recv\<close>.  The messages the socket took over its life are kept in \<open>sk_wire\<close>.

  The counters and flags the tasks share are atomics; one call of \<open>send_frame\<close>, \<open>close\<close> or
  \<open>mark_closed\<close> and one poll of the writer task are one step each.
\<close>

section \<open>Messages and options\<close>

datatype ws_message =
    Binary "byte list"
  | TextMessage "byte list"
  | CloseMessage "(u16 \<times> string) option"
  | PingMessage "byte list"
  | PongMessage "byte list"
  | RawFrame "byte list"

definition WEBSOCKET_SUBPROTOCOL :: string where "WEBSOCKET_SUBPROTOCOL = ''mango.v1''"
definition MAX_CLOSE_REASON_BYTES :: nat where "MAX_CLOSE_REASON_BYTES = 123"
definition STALLED_QUEUE_REASON :: string where
  "STALLED_QUEUE_REASON = ''the send queue outgrew one frame limit while the socket was not draining''"

record websocket_options =
  wo_max_frame_bytes :: nat
  wo_max_message_bytes :: nat
  wo_send_close_frame :: bool

definition websocket_options_default :: websocket_options where
  "websocket_options_default =
     \<lparr>wo_max_frame_bytes = DEFAULT_MAX_FRAME_BYTES, wo_max_message_bytes = DEFAULT_MAX_MESSAGE_BYTES,
      wo_send_close_frame = True\<rparr>"

text \<open>The builders panic on a ceiling below its floor (\<open>Inl\<close> the message).\<close>

definition wo_with_max_frame_bytes :: "nat \<Rightarrow> websocket_options \<Rightarrow> string + websocket_options" where
  "wo_with_max_frame_bytes max_frame_bytes o' =
     and_then (check_max_frame_bytes max_frame_bytes) (\<lambda>m. Inr (o'\<lparr>wo_max_frame_bytes := m\<rparr>))"

definition wo_with_max_message_bytes :: "nat \<Rightarrow> websocket_options \<Rightarrow> string + websocket_options" where
  "wo_with_max_message_bytes max_message_bytes o' =
     and_then (check_at_least ''max_message_bytes'' max_message_bytes MIN_MAX_MESSAGE_BYTES)
       (\<lambda>m. Inr (o'\<lparr>wo_max_message_bytes := m\<rparr>))"

definition without_close_frame :: "websocket_options \<Rightarrow> websocket_options" where
  "without_close_frame o' = o'\<lparr>wo_send_close_frame := False\<rparr>"

text \<open>The three fields of tungstenite's \<open>WebSocketConfig\<close> the port sets; a \<open>usize\<close> has 64 bits here.\<close>

record socket_config =
  sc_max_message_size :: "nat option"
  sc_max_frame_size :: "nat option"
  sc_write_buffer_size :: nat

definition socket_config_of :: "websocket_options \<Rightarrow> socket_config" where
  "socket_config_of o' =
     (let incoming = min (wo_max_frame_bytes o' + CHUNK_HEADER_BYTES) (2 ^ 64 - 1)
      in \<lparr>sc_max_message_size = Some incoming, sc_max_frame_size = Some incoming, sc_write_buffer_size = 0\<rparr>)"

section \<open>The close frame\<close>

text \<open>\<open>str::is_char_boundary\<close> and the loop that backs off to one.\<close>

definition is_char_boundary :: "string \<Rightarrow> nat \<Rightarrow> bool" where
  "is_char_boundary s i = (i = 0 \<or> i = length s \<or> i < length s \<and> \<not> is_continuation (s ! i))"

fun boundary_below :: "string \<Rightarrow> nat \<Rightarrow> nat" where
  "boundary_below s 0 = 0"
| "boundary_below s (Suc n) = (if is_char_boundary s (Suc n) then Suc n else boundary_below s n)"

definition clamp_close_reason :: "string \<Rightarrow> string" where
  "clamp_close_reason reason =
     (if length reason \<le> MAX_CLOSE_REASON_BYTES then reason
      else take (boundary_below reason MAX_CLOSE_REASON_BYTES) reason)"

definition peer_closure :: "(u16 \<times> string) option \<Rightarrow> port_closure" where
  "peer_closure frame =
     (case frame of
        None \<Rightarrow> PortClosed None None
      | Some (code, reason) \<Rightarrow>
          if \<not> (close_RELEASED \<le> code \<and> code \<le> MAX_CLOSE_CODE) then PortClosed None None
          else PortClosed (Some code) (if reason \<noteq> [] then Some reason else None))"

section \<open>The writer\<close>

datatype write_command = Chunks "byte list list" nat | CloseCommand u16 "string option"

text \<open>The writer task between two awaits: waiting for a command, inside a write, or over.\<close>

datatype drive_task = DriveIdle | DriveWriting "byte list list" bool | DriveOver

record socket_writer =
  sk_commands :: "write_command channel"
  sk_queued_bytes :: nat
  sk_open :: bool
  sk_paused :: bool
  sk_gave_up :: bool
  sk_task :: drive_task
  sk_wire :: "ws_message list"

definition socket_writer_spawn :: socket_writer where
  "socket_writer_spawn =
     \<lparr>sk_commands = unbounded_channel, sk_queued_bytes = 0, sk_open = True, sk_paused = False,
      sk_gave_up = False, sk_task = DriveIdle, sk_wire = []\<rparr>"

definition total_bytes :: "byte list list \<Rightarrow> nat" where
  "total_bytes messages = sum_list (map length messages)"

definition farewell_messages :: "serde_json \<Rightarrow> u16 \<Rightarrow> string option \<Rightarrow> websocket_options \<Rightarrow> (frame \<times> byte list list) option" where
  "farewell_messages S code reason o' =
     (let frame = Close \<lparr>close_code = code, close_reason = map_option clamp_reason reason\<rparr>;
          bare = Close \<lparr>close_code = code, close_reason = None\<rparr>
      in case encode_chunks S frame (wo_max_message_bytes o') (wo_max_frame_bytes o') of
           Inr messages \<Rightarrow> Some (frame, messages)
         | Inl _ \<Rightarrow>
             (case encode_chunks S bare (wo_max_message_bytes o') (wo_max_frame_bytes o') of
                Inr messages \<Rightarrow> Some (bare, messages)
              | Inl _ \<Rightarrow> None))"

definition queue_farewell :: "serde_json \<Rightarrow> websocket_options \<Rightarrow> u16 \<Rightarrow> string option \<Rightarrow> socket_writer \<Rightarrow> socket_writer" where
  "queue_farewell S o' code reason w =
     (case farewell_messages S code reason o' of
        None \<Rightarrow> w
      | Some (_, messages) \<Rightarrow>
          let bytes = total_bytes messages
          in w\<lparr>sk_queued_bytes := sk_queued_bytes w + bytes,
               sk_commands := fst (ch_send (Chunks messages bytes) (sk_commands w))\<rparr>)"

definition sk_close :: "serde_json \<Rightarrow> websocket_options \<Rightarrow> u16 \<Rightarrow> string option \<Rightarrow> bool \<Rightarrow> socket_writer \<Rightarrow> socket_writer" where
  "sk_close S o' code reason send_close_frame w =
     (if \<not> sk_open w then w
      else let w = w\<lparr>sk_open := False\<rparr>;
               w = (if send_close_frame then queue_farewell S o' code reason w else w)
           in w\<lparr>sk_commands := fst (ch_send (CloseCommand code reason) (sk_commands w))\<rparr>)"

definition sk_mark_closed :: "socket_writer \<Rightarrow> socket_writer" where
  "sk_mark_closed w = w\<lparr>sk_open := False\<rparr>"

definition send_frame :: "serde_json \<Rightarrow> websocket_options \<Rightarrow> frame \<Rightarrow> socket_writer \<Rightarrow> socket_writer \<times> send_outcome" where
  "send_frame S o' frame w =
     (if \<not> sk_open w then (w, SendClosed)
      else case encode_chunks S frame (wo_max_message_bytes o') (wo_max_frame_bytes o') of
        Inl error \<Rightarrow> (w, Refused error)
      | Inr messages \<Rightarrow>
          let bytes = total_bytes messages; waiting = sk_queued_bytes w;
              w = w\<lparr>sk_queued_bytes := waiting + bytes\<rparr>;
              (ch, ok) = ch_send (Chunks messages bytes) (sk_commands w)
          in if \<not> ok then
               (w\<lparr>sk_queued_bytes := sk_queued_bytes w - bytes, sk_open := False\<rparr>, SendClosed)
             else let w = w\<lparr>sk_commands := ch\<rparr> in
               if waiting > wo_max_frame_bytes o' \<and> sk_paused w then
                 (sk_close S o' close_PROTOCOL_ERROR (Some STALLED_QUEUE_REASON) True w, SendClosed)
               else (w, Sent))"

definition wtx_close :: "serde_json \<Rightarrow> websocket_options \<Rightarrow> u16 \<Rightarrow> string option \<Rightarrow> socket_writer \<Rightarrow> socket_writer" where
  "wtx_close S o' code reason w = sk_close S o' code reason (wo_send_close_frame o') w"

section \<open>The writer task\<close>

text \<open>\<open>release_unwritten\<close>: the channel closes and what was still queued is let go of.\<close>

fun command_bytes :: "write_command \<Rightarrow> nat" where
  "command_bytes (Chunks _ bytes) = bytes"
| "command_bytes (CloseCommand _ _) = 0"

definition release_unwritten :: "socket_writer \<Rightarrow> socket_writer" where
  "release_unwritten w =
     w\<lparr>sk_queued_bytes := fold (\<lambda>c n. n - command_bytes c) (ch_queue (sk_commands w)) (sk_queued_bytes w),
       sk_commands := (sk_commands w)\<lparr>ch_queue := [], ch_receiver := False\<rparr>\<rparr>"

definition drive_end :: "socket_writer \<Rightarrow> socket_writer" where
  "drive_end w = (release_unwritten w)\<lparr>sk_task := DriveOver\<rparr>"

definition close_frame_for :: "u16 \<Rightarrow> string option \<Rightarrow> ws_message" where
  "close_frame_for code reason =
     CloseMessage (Some (code, clamp_close_reason (case reason of Some r \<Rightarrow> r | None \<Rightarrow> [])))"

text \<open>\<open>took\<close> is whether the socket takes the close frame.\<close>

definition drive_command :: "bool \<Rightarrow> socket_writer \<Rightarrow> socket_writer" where
  "drive_command took w =
     (case ch_recv (sk_commands w) of
        (_, Pending) \<Rightarrow> w
      | (ch, Polled None) \<Rightarrow> drive_end (w\<lparr>sk_commands := ch\<rparr>)
      | (ch, Polled (Some (Chunks messages bytes))) \<Rightarrow>
          w\<lparr>sk_commands := ch, sk_queued_bytes := sk_queued_bytes w - bytes, sk_task := DriveWriting messages False\<rparr>
      | (ch, Polled (Some (CloseCommand code reason))) \<Rightarrow>
          drive_end (w\<lparr>sk_commands := ch,
            sk_wire := sk_wire w @ (if took then [close_frame_for code reason] else [])\<rparr>))"

text \<open>\<open>close_stalled_peer\<close>: the socket takes \<open>j\<close> messages of the farewell, and the close frame or not.\<close>

definition close_stalled_peer :: "serde_json \<Rightarrow> websocket_options \<Rightarrow> nat \<Rightarrow> bool \<Rightarrow> socket_writer \<Rightarrow> socket_writer" where
  "close_stalled_peer S o' j took w =
     (let farewell = (if wo_send_close_frame o' then
                        (case farewell_messages S close_PROTOCOL_ERROR (Some STALLED_QUEUE_REASON) o' of
                           Some (_, messages) \<Rightarrow> take j messages
                         | None \<Rightarrow> [])
                      else [])
      in w\<lparr>sk_wire := sk_wire w @ map Binary farewell
             @ (if took then [close_frame_for close_PROTOCOL_ERROR (Some STALLED_QUEUE_REASON)] else [])\<rparr>)"

text \<open>How one poll of \<open>write_chunks\<close> comes out.\<close>

datatype write_poll = WriteBlocked | WriteDone | WriteLost

text \<open>One poll of a write: the socket takes \<open>k\<close> more messages (all of them when it is done).\<close>

definition drive_poll :: "serde_json \<Rightarrow> websocket_options \<Rightarrow> nat \<Rightarrow> write_poll \<Rightarrow> nat \<Rightarrow> bool \<Rightarrow> byte list list \<Rightarrow> bool \<Rightarrow> socket_writer \<Rightarrow> socket_writer" where
  "drive_poll S o' k polled j took messages give_up w =
     (case polled of
        WriteBlocked \<Rightarrow>
          let w = w\<lparr>sk_wire := sk_wire w @ map Binary (take k messages), sk_paused := True\<rparr>
          in if sk_queued_bytes w > wo_max_frame_bytes o' then
               w\<lparr>sk_open := False, sk_gave_up := True, sk_task := DriveWriting (drop k messages) True\<rparr>
             else w\<lparr>sk_task := DriveWriting (drop k messages) give_up\<rparr>
      | WriteDone \<Rightarrow>
          let w = w\<lparr>sk_wire := sk_wire w @ map Binary messages, sk_paused := False\<rparr>
          in if give_up then drive_end (close_stalled_peer S o' j took w)
             else w\<lparr>sk_task := DriveIdle\<rparr>
      | WriteLost \<Rightarrow>
          drive_end (w\<lparr>sk_wire := sk_wire w @ map Binary (take k messages), sk_paused := False,
                       sk_open := False\<rparr>))"

text \<open>One wake-up of the task.\<close>

definition drive_step :: "serde_json \<Rightarrow> websocket_options \<Rightarrow> nat \<Rightarrow> write_poll \<Rightarrow> nat \<Rightarrow> bool \<Rightarrow> socket_writer \<Rightarrow> socket_writer" where
  "drive_step S o' k polled j took w =
     (case sk_task w of
        DriveIdle \<Rightarrow> drive_command took w
      | DriveWriting messages give_up \<Rightarrow> drive_poll S o' k polled j took messages give_up w
      | DriveOver \<Rightarrow> w)"

section \<open>Receiving\<close>

record websocket_rx =
  wr_reassembler :: reassembler
  wr_closure :: "port_closure option"
  wr_terminal :: bool

definition ws_split :: "websocket_options \<Rightarrow> string + socket_writer \<times> websocket_rx" where
  "ws_split o' =
     and_then (reassembler_new (wo_max_message_bytes o') (wo_max_frame_bytes o'))
       (\<lambda>r. Inr (socket_writer_spawn, \<lparr>wr_reassembler = r, wr_closure = None, wr_terminal = False\<rparr>))"

definition wr_refuse :: "serde_json \<Rightarrow> websocket_options \<Rightarrow> codec_error \<Rightarrow> websocket_rx \<Rightarrow> socket_writer \<Rightarrow> websocket_rx \<times> socket_writer" where
  "wr_refuse S o' error rx w =
     (let code = close_code_for_codec_error error; reason = codec_error_display error
      in (rx\<lparr>wr_closure := Some (ProtocolError error code)\<rparr>, sk_close S o' code (Some reason) True w))"

definition wr_on_message :: "serde_json \<Rightarrow> websocket_options \<Rightarrow> ws_message \<Rightarrow> websocket_rx \<Rightarrow> socket_writer \<Rightarrow> (websocket_rx \<times> socket_writer) \<times> inbound option" where
  "wr_on_message S o' message rx w =
     (case message of
        Binary bytes \<Rightarrow>
          (case cr_push S (wr_reassembler rx) bytes of
             (r, Inr (Some frame)) \<Rightarrow> ((rx\<lparr>wr_reassembler := r\<rparr>, w), Some (InFrame frame))
           | (r, Inr None) \<Rightarrow> ((rx\<lparr>wr_reassembler := r\<rparr>, w), None)
           | (r, Inl error) \<Rightarrow> (wr_refuse S o' error (rx\<lparr>wr_reassembler := r\<rparr>) w, None))
      | TextMessage txt \<Rightarrow>
          (wr_refuse S o' (codec_error_new Schema
             (''received a text message of '' @ show_nat (length txt)
              @ '' bytes, expected a binary message, the only kind '' @ WEBSOCKET_SUBPROTOCOL @ '' carries'')) rx w, None)
      | CloseMessage frame \<Rightarrow> ((rx\<lparr>wr_closure := Some (peer_closure frame)\<rparr>, sk_mark_closed w), None)
      | PingMessage _ \<Rightarrow> ((rx, w), None)
      | PongMessage _ \<Rightarrow> ((rx, w), None)
      | RawFrame _ \<Rightarrow> ((rx, w), None))"

text \<open>What the socket's stream gives: a message, an error's text, or its end.\<close>

datatype stream_event = StreamMessage ws_message | StreamError string | StreamEnd

definition wr_on_event :: "serde_json \<Rightarrow> websocket_options \<Rightarrow> stream_event \<Rightarrow> websocket_rx \<Rightarrow> socket_writer \<Rightarrow> (websocket_rx \<times> socket_writer) \<times> inbound option" where
  "wr_on_event S o' ev rx w =
     (case ev of
        StreamMessage message \<Rightarrow> wr_on_message S o' message rx w
      | StreamError error \<Rightarrow> ((rx\<lparr>wr_closure := Some (PortClosed None (Some error))\<rparr>, sk_mark_closed w), None)
      | StreamEnd \<Rightarrow> ((rx\<lparr>wr_closure := Some (PortClosed None None)\<rparr>, sk_mark_closed w), None))"

text \<open>
  The head of the loop of \<open>recv\<close>: the closure, the end, or the writer having given up, whose closure
  the next turn of the loop hands out at once.  None goes on to the stream.
\<close>

definition wr_ready :: "websocket_rx \<Rightarrow> socket_writer \<Rightarrow> ((websocket_rx \<times> socket_writer) \<times> inbound option) option" where
  "wr_ready rx w =
     (case wr_closure rx of
        Some closure \<Rightarrow> Some ((rx\<lparr>wr_closure := None, wr_terminal := True\<rparr>, w), Some (InClosed closure))
      | None \<Rightarrow>
          if wr_terminal rx then Some ((rx, w), None)
          else if sk_gave_up w then
            Some ((rx\<lparr>wr_terminal := True\<rparr>, sk_mark_closed w),
              Some (InClosed (PortClosed (Some close_PROTOCOL_ERROR) (Some STALLED_QUEUE_REASON))))
          else None)"

type_synonym wr_state = "websocket_rx \<times> socket_writer \<times> stream_event list"

fun wr_recv :: "serde_json \<Rightarrow> websocket_options \<Rightarrow> websocket_rx \<Rightarrow> socket_writer \<Rightarrow> stream_event list \<Rightarrow> wr_state \<times> inbound option poll" where
  "wr_recv S o' rx w [] =
     (case wr_ready rx w of
        Some ((rx', w'), item) \<Rightarrow> ((rx', w', []), Polled item)
      | None \<Rightarrow> ((rx, w, []), Pending))"
| "wr_recv S o' rx w (ev # evs) =
     (case wr_ready rx w of
        Some ((rx', w'), item) \<Rightarrow> ((rx', w', ev # evs), Polled item)
      | None \<Rightarrow>
          (case wr_on_event S o' ev rx w of
             ((rx', w'), Some item) \<Rightarrow> ((rx', w', evs), Polled (Some item))
           | ((rx', w'), None) \<Rightarrow> wr_recv S o' rx' w' evs))"

definition wr_step :: "serde_json \<Rightarrow> websocket_options \<Rightarrow> wr_state \<Rightarrow> wr_state \<times> inbound option poll" where
  "wr_step S o' s = (case s of (rx, w, evs) \<Rightarrow> wr_recv S o' rx w evs)"

end
