(* ===== verification/Websocket_Laws.thy ===== *)
theory Websocket_Laws
  imports Websocket "HOL-Library.Sublist"
begin

text \<open>
  Laws of the WebSocket port: the receiving half keeps the port contract; the byte counter of the
  send queue is exact and a stalled socket bounds it; and frames arrive in the order they were queued,
  all of them when the port closed in order.
\<close>

section \<open>One side driven by any sequence of calls\<close>

datatype ws_op =
    WsSend frame
  | WsClose u16 "string option"
  | WsRefuse u16 "string option"
  | WsMark
  | WsDrive nat write_poll nat bool

record ws_side =
  wsd_writer :: socket_writer
  wsd_sent :: "frame list"
  wsd_stalled :: "frame list"

text \<open>
  \<open>wsd_sent\<close> is the frames whose send reported \<open>Sent\<close>, and \<open>wsd_stalled\<close> the one that was queued on an
  open port and reported closed because it met a stalled queue.
\<close>

definition ws_open :: ws_side where
  "ws_open = \<lparr>wsd_writer = socket_writer_spawn, wsd_sent = [], wsd_stalled = []\<rparr>"

definition ws_step :: "serde_json \<Rightarrow> websocket_options \<Rightarrow> ws_op \<Rightarrow> ws_side \<Rightarrow> ws_side" where
  "ws_step S o' op s =
     (let w = wsd_writer s in
      case op of
        WsSend f \<Rightarrow>
          (case send_frame S o' f w of
             (w', out) \<Rightarrow> s\<lparr>wsd_writer := w', wsd_sent := wsd_sent s @ (if out = Sent then [f] else []),
                             wsd_stalled := wsd_stalled s @ (if sk_open w \<and> out = SendClosed then [f] else [])\<rparr>)
      | WsClose code reason \<Rightarrow> s\<lparr>wsd_writer := wtx_close S o' code reason w\<rparr>
      | WsRefuse code reason \<Rightarrow> s\<lparr>wsd_writer := sk_close S o' code reason True w\<rparr>
      | WsMark \<Rightarrow> s\<lparr>wsd_writer := sk_mark_closed w\<rparr>
      | WsDrive k polled j took \<Rightarrow> s\<lparr>wsd_writer := drive_step S o' k polled j took w\<rparr>)"

definition ws_run :: "serde_json \<Rightarrow> websocket_options \<Rightarrow> ws_op list \<Rightarrow> ws_side" where
  "ws_run S o' ops = fold (ws_step S o') ops ws_open"

lemma ws_run_induct:
  assumes "I ws_open" and "\<And>s op. op \<in> set ops \<Longrightarrow> I s \<Longrightarrow> I (ws_step S o' op s)"
  shows "I (ws_run S o' ops)"
  unfolding ws_run_def
  by (rule fold_invariant [where Q = "\<lambda>op. op \<in> set ops"]) (use assms in auto)

section \<open>The backlog\<close>

text \<open>An upper bound for the messages of one frame: its bytes and one header per chunk.\<close>

definition frame_cost :: "websocket_options \<Rightarrow> nat" where
  "frame_cost o' = wo_max_frame_bytes o' + CHUNK_HEADER_BYTES * unat (max_chunks_for (wo_max_frame_bytes o'))"

lemma total_bytes_append [simp]: "total_bytes (a @ b) = total_bytes a + total_bytes b"
  by (simp add: total_bytes_def)

lemma encode_chunks_cost:
  assumes "encode_chunks S f mm m = Inr msgs"
  shows "total_bytes msgs \<le> m + 9 * unat (max_chunks_for m)"
proof -
  obtain bs where bs: "encode_frame_bytes S f m = Inr bs" and mm: "2048 \<le> mm"
    and msgs: "msgs = map (\<lambda>i. chunk_message (of_nat i) (u32_saturating (max (div_ceil (length bs) (mm - 9)) 1))
        (chunk_payload bs (mm - 9) i)) [0..<unat (u32_saturating (max (div_ceil (length bs) (mm - 9)) 1))]"
    using assms by (auto simp: encode_chunks_Inr Let_def)
  let ?c = "u32_saturating (max (div_ceil (length bs) (mm - 9)) 1)"
  have len: "length bs \<le> m" "4096 \<le> m" using bs by (simp_all add: encode_frame_bytes_Inr)
  have count: "unat ?c \<le> unat (max_chunks_for m)"
    using chunk_count_le_bound [of bs m "mm - 9"] len mm by (simp add: word_le_nat_alt)
  have "total_bytes msgs = 9 * unat ?c + length (concat (map (chunk_payload bs (mm - 9)) [0..<unat ?c]))"
    unfolding msgs total_bytes_def
    by (simp add: comp_def length_concat sum_list_addf sum_list_triv)
  also have "\<dots> \<le> 9 * unat (max_chunks_for m) + m"
    using count len by (simp add: chunk_payloads_concat min_def)
  finally show ?thesis by simp
qed

lemma encode_chunks_frame_cost:
  "encode_chunks S f (wo_max_message_bytes o') (wo_max_frame_bytes o') = Inr msgs \<Longrightarrow> total_bytes msgs \<le> frame_cost o'"
  using encode_chunks_cost by (simp add: frame_cost_def)

definition is_writing :: "drive_task \<Rightarrow> bool" where
  "is_writing t = (case t of DriveWriting _ _ \<Rightarrow> True | _ \<Rightarrow> False)"

fun is_close_command :: "write_command \<Rightarrow> bool" where
  "is_close_command (CloseCommand _ _) = True"
| "is_close_command (Chunks _ _) = False"

text \<open>
  The counter is what the queue holds; a task that is over has closed the channel and the port; a
  close is only queued, and a write only given up, once the port is closed; the flag for a stalled
  socket is only up inside a write; and while it is up on an open port, the queue holds at most one
  frame limit and one frame.
\<close>

definition backlog_inv :: "websocket_options \<Rightarrow> socket_writer \<Rightarrow> bool" where
  "backlog_inv o' w \<longleftrightarrow>
     sk_queued_bytes w = sum_list (map command_bytes (ch_queue (sk_commands w)))
     \<and> ch_sender (sk_commands w)
     \<and> ch_receiver (sk_commands w) = (sk_task w \<noteq> DriveOver)
     \<and> (sk_task w = DriveOver \<longrightarrow> \<not> sk_open w \<and> ch_queue (sk_commands w) = [])
     \<and> (list_ex is_close_command (ch_queue (sk_commands w)) \<longrightarrow> \<not> sk_open w)
     \<and> (case sk_task w of DriveWriting _ give_up \<Rightarrow> give_up \<longrightarrow> \<not> sk_open w | _ \<Rightarrow> \<not> sk_paused w)
     \<and> (sk_open w \<and> sk_paused w \<longrightarrow> sk_queued_bytes w \<le> wo_max_frame_bytes o' + frame_cost o')"

lemma fold_release:
  "n = sum_list (map command_bytes cs) \<Longrightarrow> fold (\<lambda>c n. n - command_bytes c) cs n = 0"
  by (induction cs arbitrary: n) simp_all

lemma backlog_spawn: "backlog_inv o' socket_writer_spawn"
  by (simp add: backlog_inv_def socket_writer_spawn_def unbounded_channel_def)

lemma backlog_mark: "backlog_inv o' w \<Longrightarrow> backlog_inv o' (sk_mark_closed w)"
  by (auto simp: backlog_inv_def sk_mark_closed_def split: drive_task.splits)

lemma backlog_close:
  assumes "backlog_inv o' w"
  shows "backlog_inv o' (sk_close S o' code reason frame w)"
  using assms
  by (auto simp: backlog_inv_def sk_close_def queue_farewell_def ch_send_def Let_def
      split: drive_task.splits option.splits)

lemma backlog_send:
  assumes "backlog_inv o' w"
  shows "backlog_inv o' (fst (send_frame S o' f w))"
proof (cases "sk_open w")
  case False
  with assms show ?thesis by (simp add: send_frame_def)
next
  case True
  show ?thesis
  proof (cases "encode_chunks S f (wo_max_message_bytes o') (wo_max_frame_bytes o')")
    case (Inl e)
    with assms True show ?thesis by (simp add: send_frame_def)
  next
    case (Inr msgs)
    let ?b = "total_bytes msgs"
    let ?w = "w\<lparr>sk_queued_bytes := sk_queued_bytes w + ?b, sk_commands := (sk_commands w)\<lparr>ch_queue :=
      ch_queue (sk_commands w) @ [Chunks msgs ?b]\<rparr>\<rparr>"
    let ?stalled = "wo_max_frame_bytes o' < sk_queued_bytes w \<and> sk_paused w"
    have live: "ch_receiver (sk_commands w)" using assms True by (auto simp: backlog_inv_def)
    have cost: "?b \<le> frame_cost o'" using Inr by (rule encode_chunks_frame_cost)
    show ?thesis
    proof (cases ?stalled)
      case False
      then have "backlog_inv o' ?w"
        using assms True cost by (auto simp: backlog_inv_def split: drive_task.splits)
      with False True Inr live show ?thesis
        by (auto simp: send_frame_def ch_send_def Let_def)
    next
      case stalled: True
      have out: "fst (send_frame S o' f w) = sk_close S o' close_PROTOCOL_ERROR (Some STALLED_QUEUE_REASON) True ?w"
        using stalled True Inr live by (simp add: send_frame_def ch_send_def Let_def)
      show ?thesis unfolding out using assms True
        by (auto simp: backlog_inv_def sk_close_def queue_farewell_def ch_send_def Let_def
            split: drive_task.splits option.splits)
    qed
  qed
qed

lemma backlog_drive_end:
  assumes "sk_queued_bytes w = sum_list (map command_bytes (ch_queue (sk_commands w)))"
    and "ch_sender (sk_commands w)" and "\<not> sk_open w" and "\<not> sk_paused w"
  shows "backlog_inv o' (drive_end w)"
  using assms by (simp add: backlog_inv_def drive_end_def release_unwritten_def fold_release)

lemma backlog_command:
  assumes "backlog_inv o' w" and "sk_task w = DriveIdle"
  shows "backlog_inv o' (drive_command took w)"
proof (cases "ch_queue (sk_commands w)")
  case Nil
  with assms show ?thesis by (simp add: drive_command_def ch_recv_def backlog_inv_def)
next
  case (Cons c cs)
  show ?thesis
  proof (cases c)
    case (Chunks msgs b)
    with Cons assms show ?thesis
      by (auto simp: drive_command_def ch_recv_def backlog_inv_def)
  next
    case (CloseCommand code reason)
    with Cons assms show ?thesis
      by (auto simp: drive_command_def ch_recv_def backlog_inv_def [of o' w] intro!: backlog_drive_end)
  qed
qed

lemma backlog_poll:
  assumes "backlog_inv o' w" and "sk_task w = DriveWriting msgs give_up"
  shows "backlog_inv o' (drive_poll S o' k polled j took msgs give_up w)"
proof (cases polled)
  case WriteBlocked
  with assms show ?thesis by (auto simp: drive_poll_def backlog_inv_def Let_def)
next
  case WriteDone
  show ?thesis
  proof (cases give_up)
    case True
    with assms WriteDone show ?thesis
      by (auto simp: drive_poll_def close_stalled_peer_def Let_def backlog_inv_def [of o' w] intro!: backlog_drive_end)
  next
    case False
    with assms WriteDone show ?thesis by (auto simp: drive_poll_def backlog_inv_def Let_def)
  qed
next
  case WriteLost
  with assms show ?thesis
    by (auto simp: drive_poll_def backlog_inv_def [of o' w] intro!: backlog_drive_end)
qed

lemma backlog_drive: "backlog_inv o' w \<Longrightarrow> backlog_inv o' (drive_step S o' k polled j took w)"
  by (cases "sk_task w") (simp_all add: drive_step_def backlog_command backlog_poll)

lemma backlog_step:
  "backlog_inv o' (wsd_writer s) \<Longrightarrow> backlog_inv o' (wsd_writer (ws_step S o' op s))"
  by (cases op) (simp_all add: ws_step_def wtx_close_def backlog_close backlog_mark backlog_drive
      backlog_send case_prod_beta Let_def)

lemma backlog_run: "backlog_inv o' (wsd_writer (ws_run S o' ops))"
  by (rule ws_run_induct) (simp_all add: ws_open_def backlog_spawn backlog_step)

section \<open>The receiving half keeps the port contract\<close>

definition wr_ended :: "wr_state \<Rightarrow> bool" where
  "wr_ended s = (case s of (rx, _, _) \<Rightarrow> wr_closure rx = None \<and> wr_terminal rx)"

lemma wr_ready_closed:
  "wr_ready rx w = Some ((rx', w'), Some (InClosed c)) \<Longrightarrow> wr_ended (rx', w', evs)"
  by (auto simp: wr_ready_def wr_ended_def split: option.splits if_splits)

lemma wr_on_event_not_closed: "wr_on_event S o' ev rx w \<noteq> (x, Some (InClosed c))"
  by (auto simp: wr_on_event_def wr_on_message_def split: stream_event.split ws_message.split prod.split sum.split option.split)

lemma wr_recv_closed:
  "wr_recv S o' rx w evs = (s, Polled (Some (InClosed c))) \<Longrightarrow> wr_ended s"
proof (induction S o' rx w evs rule: wr_recv.induct)
  case (1 S o' rx w)
  then show ?case by (auto split: option.splits prod.splits dest: wr_ready_closed)
next
  case (2 S o' rx w ev evs)
  then show ?case
    using wr_on_event_not_closed [of S o' ev rx w]
    by (auto split: option.splits prod.splits dest: wr_ready_closed)
qed

lemma wr_step_ended:
  assumes "wr_ended s"
  shows "wr_step S o' s = (s, Polled None)"
proof -
  obtain rx w evs where s: "s = (rx, w, evs)" by (cases s)
  with assms have "wr_ready rx w = Some ((rx, w), None)" by (simp add: wr_ended_def wr_ready_def)
  with s show ?thesis by (cases evs) (simp_all add: wr_step_def)
qed

interpretation wrx: port_receiver "wr_step S o'" wr_ended for S o'
proof unfold_locales
  show "wr_ended s'" if "wr_step S o' s = (s', Polled (Some (InClosed c)))" for s s' c
    using that by (auto simp: wr_step_def dest: wr_recv_closed split: prod.splits)
qed (rule wr_step_ended)

definition wr_reading :: "websocket_rx \<Rightarrow> socket_writer \<Rightarrow> bool" where
  "wr_reading rx w = (wr_closure rx = None \<and> \<not> wr_terminal rx \<and> \<not> sk_gave_up w)"

lemma wr_ready_reading: "wr_reading rx w \<Longrightarrow> wr_ready rx w = None"
  by (simp add: wr_reading_def wr_ready_def)

text \<open>
  C27: The send queue is accounted for and bounded.  Whatever the port's halves and its writer task do,
  the counter is exactly the bytes of the queued commands and nothing stays counted once the task is
  over; while a socket does not drain, an open port queues at most one frame limit and one frame; and
  the poll that finds more than the limit queued behind a write that does not finish closes the port:
  every later send is refused, and \<open>recv\<close> reports 4400 at once without waiting for the socket.
\<close>

theorem websocket_backlog_bounded:
  fixes S o' ops
  defines "w \<equiv> wsd_writer (ws_run S o' ops)"
  shows "sk_queued_bytes w = sum_list (map command_bytes (ch_queue (sk_commands w)))
    \<and> (sk_task w = DriveOver \<longrightarrow> sk_queued_bytes w = 0 \<and> \<not> sk_open w)
    \<and> (sk_open w \<and> sk_paused w \<longrightarrow> sk_queued_bytes w \<le> wo_max_frame_bytes o' + frame_cost o')
    \<and> (is_writing (sk_task w) \<and> wo_max_frame_bytes o' < sk_queued_bytes w \<longrightarrow>
         (\<forall>k j took f rx evs. let w' = drive_step S o' k WriteBlocked j took w in
            send_frame S o' f w' = (w', SendClosed)
            \<and> (wr_reading rx w \<longrightarrow>
                 snd (wr_step S o' (rx, w', evs)) =
                   Polled (Some (InClosed (PortClosed (Some 4400) (Some STALLED_QUEUE_REASON)))))))"
proof -
  have inv: "backlog_inv o' w" unfolding w_def by (rule backlog_run)
  have stall: "send_frame S o' f w' = (w', SendClosed)
      \<and> (wr_reading rx w \<longrightarrow> snd (wr_step S o' (rx, w', evs)) =
           Polled (Some (InClosed (PortClosed (Some 4400) (Some STALLED_QUEUE_REASON)))))"
    if wr: "is_writing (sk_task w)" "wo_max_frame_bytes o' < sk_queued_bytes w"
      and w': "w' = drive_step S o' k WriteBlocked j took w" for w' k j took f rx evs
  proof -
    have "\<not> sk_open w' \<and> sk_gave_up w'"
      using wr w' by (auto simp: is_writing_def drive_step_def drive_poll_def Let_def split: drive_task.splits)
    then show ?thesis
      by (cases evs) (auto simp: send_frame_def wr_step_def wr_ready_def wr_reading_def close_PROTOCOL_ERROR_def)
  qed
  show ?thesis using inv stall unfolding backlog_inv_def Let_def by (auto simp: Let_def)
qed

text \<open>A port whose frames are nearly as long as its limit, two of them queued behind one being written.\<close>

definition fat_text :: "byte list" where
  "fat_text = 0x7B # replicate 4000 0x20 @ [0x7D]"

definition fat_serde :: serde_json where
  "fat_serde = \<lparr>to_vec = (\<lambda>f. if f = Ping then Inr fat_text else Inl []),
     from_slice = (\<lambda>bs. Inr Ping), from_slice_value = (\<lambda>bs. None)\<rparr>"

definition narrow_options :: websocket_options where
  "narrow_options = \<lparr>wo_max_frame_bytes = 4096, wo_max_message_bytes = 8192, wo_send_close_frame = True\<rparr>"

definition backlog_ops :: "ws_op list" where
  "backlog_ops = [WsSend Ping, WsDrive 0 WriteBlocked 0 True, WsSend Ping, WsSend Ping]"

lemma fat_chunks: "encode_chunks fat_serde Ping 8192 4096 = Inr [chunk_message 0 1 fat_text]"
proof -
  have len: "length fat_text = 4002" by (simp add: fat_text_def)
  have "encode_frame_bytes fat_serde Ping 4096 = Inr fat_text"
    using len by (simp add: encode_frame_bytes_Inr accepted_frame_defs fat_serde_def)
  moreover have "u32_saturating (max (div_ceil (length fat_text) 8183) 1) = 1"
    by (simp add: len div_ceil_def u32_saturating_def)
  ultimately show ?thesis by (simp add: encode_chunks_Inr Let_def chunk_payload_eq len)
qed

lemma fat_bytes: "total_bytes [chunk_message 0 1 fat_text] = 4011"
  by (simp add: total_bytes_def fat_text_def)

lemma backlog_example:
  "sk_task (wsd_writer (ws_run fat_serde narrow_options backlog_ops)) = DriveWriting [chunk_message 0 1 fat_text] False"
  "sk_queued_bytes (wsd_writer (ws_run fat_serde narrow_options backlog_ops)) = 8022"
  by (simp_all add: ws_run_def backlog_ops_def ws_step_def ws_open_def socket_writer_spawn_def send_frame_def
      narrow_options_def fat_chunks fat_bytes ch_send_def ch_recv_def unbounded_channel_def drive_step_def
      drive_command_def Let_def)

theorem websocket_backlog_bounded_witness:
  "sk_queued_bytes (wsd_writer (ws_run fat_serde narrow_options backlog_ops)) = 8022
   \<and> snd (send_frame fat_serde narrow_options Ping
        (drive_step fat_serde narrow_options 0 WriteBlocked 0 True
          (wsd_writer (ws_run fat_serde narrow_options backlog_ops)))) = SendClosed"
proof -
  have "is_writing (sk_task (wsd_writer (ws_run fat_serde narrow_options backlog_ops)))
      \<and> wo_max_frame_bytes narrow_options < sk_queued_bytes (wsd_writer (ws_run fat_serde narrow_options backlog_ops))"
    by (simp add: backlog_example is_writing_def) (simp add: narrow_options_def)
  with websocket_backlog_bounded [of fat_serde narrow_options backlog_ops] backlog_example(2)
  show ?thesis unfolding Let_def by (metis snd_conv)
qed

section \<open>What travels, in order\<close>

text \<open>The queue as the messages of whole frames, with the close at its end once the port is closed.\<close>

fun queue_holds :: "bool \<Rightarrow> byte list list list \<Rightarrow> write_command list \<Rightarrow> bool" where
  "queue_holds is_open [] [] = True"
| "queue_holds is_open [] (c # cs) = (cs = [] \<and> is_close_command c \<and> \<not> is_open)"
| "queue_holds is_open (ms # mss) [] = False"
| "queue_holds is_open (ms # mss) (c # cs) = ((\<exists>b. c = Chunks ms b) \<and> queue_holds is_open mss cs)"

lemma queue_holds_chunks:
  "queue_holds True mss cs \<Longrightarrow> queue_holds is_open (mss @ [ms]) (cs @ [Chunks ms b])"
  by (induction True mss cs rule: queue_holds.induct) simp_all

lemma queue_holds_close:
  "queue_holds True mss cs \<Longrightarrow> queue_holds False mss (cs @ [CloseCommand code reason])"
  by (induction True mss cs rule: queue_holds.induct) simp_all

lemma queue_holds_closed: "queue_holds is_open mss cs \<Longrightarrow> queue_holds False mss cs"
  by (induction is_open mss cs rule: queue_holds.induct) simp_all

fun unwritten :: "drive_task \<Rightarrow> byte list list" where
  "unwritten (DriveWriting ms _) = ms"
| "unwritten _ = []"

fun giving_up :: "drive_task \<Rightarrow> bool" where
  "giving_up (DriveWriting _ give_up) = give_up"
| "giving_up _ = False"

definition carries :: "serde_json \<Rightarrow> websocket_options \<Rightarrow> frame list \<Rightarrow> byte list list list \<Rightarrow> bool" where
  "carries S o' fs mss =
     list_all2 (\<lambda>f ms. frame_exact f \<and> encode_chunks S f (wo_max_message_bytes o') (wo_max_frame_bytes o') = Inr ms) fs mss"

text \<open>While the task runs: what the socket took and what is left of the write are whole frames, the rest is queued.\<close>

definition stream_holds :: "byte list list list \<Rightarrow> ws_message list \<Rightarrow> byte list list \<Rightarrow> bool \<Rightarrow> write_command list \<Rightarrow> bool" where
  "stream_holds mss wire left is_open queue \<longleftrightarrow>
     (\<exists>ms gone rest. wire = map Binary ms \<and> mss = gone @ rest \<and> ms @ left = concat gone
        \<and> queue_holds is_open rest queue)"

definition stream_live :: "byte list list list \<Rightarrow> socket_writer \<Rightarrow> bool" where
  "stream_live mss w \<longleftrightarrow>
     stream_holds mss (sk_wire w) (unwritten (sk_task w)) (sk_open w) (ch_queue (sk_commands w))
     \<and> sk_gave_up w = giving_up (sk_task w)"

text \<open>
  Once it is over: a prefix of the messages, or, on a stalled socket, whole frames and then the
  farewell; and at most one close frame, which without a stall is behind every message.
\<close>

definition over_holds :: "serde_json \<Rightarrow> websocket_options \<Rightarrow> byte list list list \<Rightarrow> ws_message list \<Rightarrow> bool \<Rightarrow> bool" where
  "over_holds S o' mss wire gave_up \<longleftrightarrow>
     (\<exists>ms close. wire = map Binary ms @ (case close of None \<Rightarrow> [] | Some (c, r) \<Rightarrow> [close_frame_for c r])
        \<and> ((\<exists>n. ms = take n (concat mss))
           \<or> gave_up \<and> (\<exists>i j g gms. farewell_messages S close_PROTOCOL_ERROR (Some STALLED_QUEUE_REASON) o' = Some (g, gms)
                \<and> ms = concat (take i mss) @ take j gms))
        \<and> (close \<noteq> None \<and> \<not> gave_up \<longrightarrow> ms = concat mss))"

definition stream_over :: "serde_json \<Rightarrow> websocket_options \<Rightarrow> byte list list list \<Rightarrow> socket_writer \<Rightarrow> bool" where
  "stream_over S o' mss w = over_holds S o' mss (sk_wire w) (sk_gave_up w)"

text \<open>
  The farewells a side may queue: the close frames of its calls of \<open>close\<close>, of the codec errors its
  receiving half refused, and of a stalled queue.
\<close>

definition is_farewell_for :: "serde_json \<Rightarrow> websocket_options \<Rightarrow> u16 \<Rightarrow> string option \<Rightarrow> frame \<Rightarrow> bool" where
  "is_farewell_for S o' code reason g \<longleftrightarrow> g \<in> fst ` set_option (farewell_messages S code reason o')"

definition is_farewell :: "serde_json \<Rightarrow> websocket_options \<Rightarrow> ws_op list \<Rightarrow> frame \<Rightarrow> bool" where
  "is_farewell S o' ops g \<longleftrightarrow>
     is_farewell_for S o' close_PROTOCOL_ERROR (Some STALLED_QUEUE_REASON) g
     \<or> list_ex (\<lambda>op. case op of WsClose code reason \<Rightarrow> is_farewell_for S o' code reason g
                  | WsRefuse code reason \<Rightarrow> is_farewell_for S o' code reason g | _ \<Rightarrow> False) ops"

definition ws_inv :: "serde_json \<Rightarrow> websocket_options \<Rightarrow> (frame \<Rightarrow> bool) \<Rightarrow> ws_side \<Rightarrow> bool" where
  "ws_inv S o' F s \<longleftrightarrow>
     (\<exists>fw mss. carries S o' (wsd_sent s @ wsd_stalled s @ fw) mss
        \<and> length (wsd_stalled s) \<le> 1 \<and> length fw \<le> 1 \<and> list_all F fw
        \<and> (sk_open (wsd_writer s) \<longrightarrow> wsd_stalled s = [] \<and> fw = [])
        \<and> (if sk_task (wsd_writer s) = DriveOver then stream_over S o' mss (wsd_writer s)
           else stream_live mss (wsd_writer s)))"

lemma farewell_messages_carries:
  "farewell_messages S code reason o' = Some (g, gms) \<Longrightarrow> carries S o' [g] [gms]"
  by (auto simp: farewell_messages_def carries_def frame_exact_def Let_def split: sum.splits)

lemma carries_append: "carries S o' fs mss \<Longrightarrow> carries S o' gs nss \<Longrightarrow> carries S o' (fs @ gs) (mss @ nss)"
  by (simp add: carries_def list_all2_appendI)

subsection \<open>The queueing side\<close>

text \<open>Queueing whole frames, and closing, on a port whose task still runs.\<close>

lemma stream_holds_queue:
  assumes "stream_holds mss wire left True queue"
  shows "stream_holds (mss @ [ms]) wire left is_open (queue @ [Chunks ms b])"
proof -
  obtain us gone rest where "wire = map Binary us" "mss = gone @ rest" "us @ left = concat gone"
    and q: "queue_holds True rest queue"
    using assms unfolding stream_holds_def by blast
  moreover have "queue_holds is_open (rest @ [ms]) (queue @ [Chunks ms b])"
    using q by (rule queue_holds_chunks)
  ultimately show ?thesis
    unfolding stream_holds_def by (metis append.assoc)
qed

lemma stream_holds_close:
  "stream_holds mss wire left True queue \<Longrightarrow> stream_holds mss wire left False (queue @ [CloseCommand code reason])"
  unfolding stream_holds_def by (blast dest: queue_holds_close)

lemma stream_holds_closed: "stream_holds mss wire left is_open queue \<Longrightarrow> stream_holds mss wire left False queue"
  unfolding stream_holds_def by (blast dest: queue_holds_closed)

lemma stream_live_queue:
  assumes "stream_live mss w" and "sk_open w"
  shows "stream_live (mss @ [ms]) (w\<lparr>sk_queued_bytes := n,
    sk_commands := (sk_commands w)\<lparr>ch_queue := ch_queue (sk_commands w) @ [Chunks ms b]\<rparr>\<rparr>)"
  using assms by (simp add: stream_live_def stream_holds_queue)

lemma stream_live_close_command:
  assumes "stream_live mss w" and "sk_open w"
  shows "stream_live mss (w\<lparr>sk_open := False,
    sk_commands := (sk_commands w)\<lparr>ch_queue := ch_queue (sk_commands w) @ [CloseCommand code reason]\<rparr>\<rparr>)"
  using assms by (simp add: stream_live_def stream_holds_close)

lemma stream_live_mark: "stream_live mss w \<Longrightarrow> stream_live mss (w\<lparr>sk_open := False\<rparr>)"
  by (auto simp: stream_live_def intro: stream_holds_closed)

lemma sk_close_live:
  assumes "stream_live mss w" and "sk_open w" and "ch_receiver (sk_commands w)"
  shows "\<exists>fw nss. carries S o' fw nss \<and> length fw \<le> 1 \<and> list_all (is_farewell_for S o' code reason) fw
     \<and> stream_live (mss @ nss) (sk_close S o' code reason frame w) \<and> sk_task (sk_close S o' code reason frame w) = sk_task w
     \<and> \<not> sk_open (sk_close S o' code reason frame w)"
proof (cases "frame \<and> farewell_messages S code reason o' \<noteq> None")
  case False
  then have out: "sk_close S o' code reason frame w = w\<lparr>sk_open := False,
      sk_commands := (sk_commands w)\<lparr>ch_queue := ch_queue (sk_commands w) @ [CloseCommand code reason]\<rparr>\<rparr>"
    using assms(2,3) by (cases "farewell_messages S code reason o'") (auto simp: sk_close_def queue_farewell_def ch_send_def Let_def)
  show ?thesis
    using stream_live_close_command [OF assms(1,2)] unfolding out
    by (intro exI [of _ "[]"]) (simp add: carries_def)
next
  case True
  then obtain g gms where g: "farewell_messages S code reason o' = Some (g, gms)" by auto
  let ?b = "total_bytes gms"
  let ?w = "w\<lparr>sk_queued_bytes := sk_queued_bytes w + ?b,
    sk_commands := (sk_commands w)\<lparr>ch_queue := ch_queue (sk_commands w) @ [Chunks gms ?b]\<rparr>\<rparr>"
  have out: "sk_close S o' code reason frame w = ?w\<lparr>sk_open := False,
      sk_commands := (sk_commands ?w)\<lparr>ch_queue := ch_queue (sk_commands ?w) @ [CloseCommand code reason]\<rparr>\<rparr>"
    using assms(2,3) True g by (auto simp: sk_close_def queue_farewell_def ch_send_def Let_def)
  have "stream_live (mss @ [gms]) (sk_close S o' code reason frame w)"
    unfolding out using stream_live_queue [OF assms(1,2)] assms(2) by (intro stream_live_close_command) simp_all
  moreover have "is_farewell_for S o' code reason g" using g by (simp add: is_farewell_for_def)
  ultimately show ?thesis
    using out farewell_messages_carries [OF g] by (intro exI [of _ "[g]"] exI [of _ "[gms]"]) simp
qed

lemma ws_inv_send:
  assumes "ws_inv S o' F s" and "backlog_inv o' (wsd_writer s)" and "frame_exact f"
    and "\<And>g. is_farewell_for S o' close_PROTOCOL_ERROR (Some STALLED_QUEUE_REASON) g \<Longrightarrow> F g"
  shows "ws_inv S o' F (ws_step S o' (WsSend f) s)"
proof -
  let ?w = "wsd_writer s"
  let ?enc = "encode_chunks S f (wo_max_message_bytes o') (wo_max_frame_bytes o')"
  show ?thesis
  proof (cases "sk_open ?w \<and> is_ok ?enc")
    case False
    then have "fst (send_frame S o' f ?w) = ?w \<and> snd (send_frame S o' f ?w) \<noteq> Sent
        \<and> \<not> (sk_open ?w \<and> snd (send_frame S o' f ?w) = SendClosed)"
      by (cases ?enc) (auto simp: send_frame_def)
    then have "ws_step S o' (WsSend f) s = s" by (auto simp: ws_step_def Let_def case_prod_beta)
    with assms(1) show ?thesis by simp
  next
    case True
    then obtain msgs where msgs: "?enc = Inr msgs" and is_open: "sk_open ?w" by (auto simp: is_ok_iff)
    let ?b = "total_bytes msgs"
    let ?w' = "?w\<lparr>sk_queued_bytes := sk_queued_bytes ?w + ?b,
      sk_commands := (sk_commands ?w)\<lparr>ch_queue := ch_queue (sk_commands ?w) @ [Chunks msgs ?b]\<rparr>\<rparr>"
    have live: "ch_receiver (sk_commands ?w)" "sk_task ?w \<noteq> DriveOver"
      using assms(2) is_open by (auto simp: backlog_inv_def)
    obtain mss where mss: "carries S o' (wsd_sent s) mss" "stream_live mss ?w" and none: "wsd_stalled s = []"
      using assms(1) is_open live(2) by (auto simp: ws_inv_def)
    have one: "carries S o' [f] [msgs]" using msgs assms(3) by (simp add: carries_def)
    have live': "stream_live (mss @ [msgs]) ?w'" using stream_live_queue [OF mss(2) is_open] .
    show ?thesis
    proof (cases "wo_max_frame_bytes o' < sk_queued_bytes ?w \<and> sk_paused ?w")
      case False
      then have "ws_step S o' (WsSend f) s = s\<lparr>wsd_writer := ?w', wsd_sent := wsd_sent s @ [f]\<rparr>"
        using msgs is_open live(1) by (auto simp: ws_step_def send_frame_def ch_send_def Let_def)
      moreover have "carries S o' (wsd_sent s @ [f]) (mss @ [msgs])" using carries_append [OF mss(1) one] .
      ultimately show ?thesis using live' live(2) none
        unfolding ws_inv_def by (intro exI [of _ "[]"] exI [of _ "mss @ [msgs]"]) simp
    next
      case stalled: True
      let ?w2 = "sk_close S o' close_PROTOCOL_ERROR (Some STALLED_QUEUE_REASON) True ?w'"
      have out: "ws_step S o' (WsSend f) s = s\<lparr>wsd_writer := ?w2, wsd_stalled := [f]\<rparr>"
        using stalled msgs is_open live(1) none by (auto simp: ws_step_def send_frame_def ch_send_def Let_def)
      obtain fw nss where c: "carries S o' fw nss" "length fw \<le> 1"
          "list_all (is_farewell_for S o' close_PROTOCOL_ERROR (Some STALLED_QUEUE_REASON)) fw" "stream_live ((mss @ [msgs]) @ nss) ?w2"
          "sk_task ?w2 = sk_task ?w" "\<not> sk_open ?w2"
        using sk_close_live [OF live', where S = S and o' = o' and code = close_PROTOCOL_ERROR
            and reason = "Some STALLED_QUEUE_REASON" and frame = True] is_open live(1) by auto
      have "carries S o' (wsd_sent s @ [f] @ fw) ((mss @ [msgs]) @ nss)"
        using carries_append [OF carries_append [OF mss(1) one] c(1)] by simp
      moreover have "list_all F fw" using c(3) assms(4) by (auto simp: list_all_iff)
      ultimately show ?thesis using c live(2) unfolding out ws_inv_def
        by (intro exI [of _ fw] exI [of _ "(mss @ [msgs]) @ nss"]) simp
    qed
  qed
qed

lemma ws_inv_close:
  assumes "ws_inv S o' F s" and "backlog_inv o' (wsd_writer s)" and "\<And>g. is_farewell_for S o' code reason g \<Longrightarrow> F g"
  shows "ws_inv S o' F (s\<lparr>wsd_writer := sk_close S o' code reason frame (wsd_writer s)\<rparr>)"
proof (cases "sk_open (wsd_writer s)")
  case False
  with assms show ?thesis by (simp add: sk_close_def)
next
  case True
  let ?w = "wsd_writer s"
  have live: "ch_receiver (sk_commands ?w)" "sk_task ?w \<noteq> DriveOver"
    using assms(2) True by (auto simp: backlog_inv_def)
  obtain mss where mss: "carries S o' (wsd_sent s) mss" "stream_live mss ?w" and none: "wsd_stalled s = []"
    using assms(1) True live(2) by (auto simp: ws_inv_def)
  from sk_close_live [OF mss(2) True live(1), of S o' code reason frame] obtain fw nss
    where c: "carries S o' fw nss" "length fw \<le> 1" "list_all (is_farewell_for S o' code reason) fw" "stream_live (mss @ nss) (sk_close S o' code reason frame ?w)"
      "sk_task (sk_close S o' code reason frame ?w) = sk_task ?w" "\<not> sk_open (sk_close S o' code reason frame ?w)"
    by blast
  have "list_all F fw" using c(3) assms(3) by (auto simp: list_all_iff)
  with c carries_append [OF mss(1) c(1)] live(2) none show ?thesis
    unfolding ws_inv_def by (intro exI [of _ fw] exI [of _ "mss @ nss"]) simp
qed

lemma ws_inv_mark:
  assumes "ws_inv S o' F s"
  shows "ws_inv S o' F (s\<lparr>wsd_writer := sk_mark_closed (wsd_writer s)\<rparr>)"
proof -
  let ?w = "wsd_writer s"
  obtain fw mss where c: "carries S o' (wsd_sent s @ wsd_stalled s @ fw) mss" "length (wsd_stalled s) \<le> 1"
      "length fw \<le> 1" "list_all F fw"
    and st: "if sk_task ?w = DriveOver then stream_over S o' mss ?w else stream_live mss ?w"
    using assms unfolding ws_inv_def by blast
  have "if sk_task ?w = DriveOver then stream_over S o' mss (sk_mark_closed ?w) else stream_live mss (sk_mark_closed ?w)"
    using st stream_live_mark by (simp add: sk_mark_closed_def stream_over_def split: if_splits)
  with c show ?thesis unfolding ws_inv_def
    by (intro exI [of _ fw] exI [of _ mss]) (auto simp: sk_mark_closed_def split: if_splits)
qed

subsection \<open>The writer task\<close>

lemma stream_holds_obtain:
  assumes "stream_holds mss wire left is_open queue"
  obtains ms gone rest where "wire = map Binary ms" "mss = gone @ rest" "ms @ left = concat gone"
    "queue_holds is_open rest queue"
  using assms unfolding stream_holds_def by blast

lemma drive_end_fields [simp]:
  "sk_wire (drive_end w) = sk_wire w" "sk_gave_up (drive_end w) = sk_gave_up w"
  "sk_open (drive_end w) = sk_open w" "sk_task (drive_end w) = DriveOver"
  by (simp_all add: drive_end_def release_unwritten_def)

lemma drive_command_stream:
  assumes "stream_live mss w" and "sk_task w = DriveIdle" and "ch_sender (sk_commands w)"
  shows "let w' = drive_command took w in
     sk_open w' = sk_open w \<and> (if sk_task w' = DriveOver then stream_over S o' mss w' else stream_live mss w')"
proof -
  obtain ms gone rest where wire: "sk_wire w = map Binary ms" "mss = gone @ rest" "ms = concat gone"
    and q: "queue_holds (sk_open w) rest (ch_queue (sk_commands w))" and g: "\<not> sk_gave_up w"
    using assms(1,2) by (auto simp: stream_live_def elim: stream_holds_obtain)
  show ?thesis
  proof (cases rest)
    case Nil
    show ?thesis
    proof (cases "ch_queue (sk_commands w)")
      case Nil
      with assms show ?thesis by (simp add: drive_command_def ch_recv_def)
    next
      case (Cons c cs)
      with q Nil obtain code reason where c: "c = CloseCommand code reason" by (cases c) auto
      let ?w' = "drive_command took w"
      have w': "sk_wire ?w' = sk_wire w @ (if took then [close_frame_for code reason] else [])"
        "sk_task ?w' = DriveOver" "sk_open ?w' = sk_open w" "sk_gave_up ?w' = sk_gave_up w"
        using Cons c by (simp_all add: drive_command_def ch_recv_def)
      have all: "ms = concat mss" using wire Nil by simp
      have "stream_over S o' mss ?w'"
        unfolding stream_over_def over_holds_def w' wire(1) using all
        by (intro exI [of _ ms] exI [of _ "if took then Some (code, reason) else None"])
           (auto intro: exI [of _ "length (concat mss)"])
      with w' show ?thesis by (simp add: Let_def)
    qed
  next
    case (Cons r rs)
    with q obtain b cs where cs: "ch_queue (sk_commands w) = Chunks r b # cs" "queue_holds (sk_open w) rs cs"
      by (cases "ch_queue (sk_commands w)") auto
    have "stream_holds mss (map Binary ms) r (sk_open w) cs"
      unfolding stream_holds_def using wire Cons cs(2)
      by (intro exI [of _ ms] exI [of _ "gone @ [r]"] exI [of _ rs]) simp
    with cs(1) wire(1) g show ?thesis
      by (simp add: drive_command_def ch_recv_def stream_live_def Let_def)
  qed
qed

text \<open>What the socket took of a write moves from the task to the wire.\<close>

lemma stream_holds_take:
  assumes "stream_holds mss wire (us @ vs) is_open queue"
  shows "stream_holds mss (wire @ map Binary us) vs is_open queue"
  using assms by (auto elim!: stream_holds_obtain simp: stream_holds_def) (metis map_append append.assoc)

lemma over_holds_lost:
  assumes "stream_holds mss wire (us @ vs) is_open queue"
  shows "over_holds S o' mss (wire @ map Binary us) gave_up"
proof -
  obtain ms gone rest where wire: "wire = map Binary ms" "mss = gone @ rest" "ms @ us @ vs = concat gone"
    using assms by (rule stream_holds_obtain)
  then have "concat mss = (ms @ us) @ vs @ concat rest" by (metis append.assoc concat_append)
  then have "ms @ us = take (length (ms @ us)) (concat mss)" by (metis append_eq_conv_conj)
  then show ?thesis
    unfolding over_holds_def wire(1) by (intro exI [of _ "ms @ us"] exI [of _ None]) (metis map_append option.simps(4) append.right_neutral)
qed

lemma over_holds_stalled:
  assumes "stream_holds mss wire [] is_open queue"
    and "farewell_messages S close_PROTOCOL_ERROR (Some STALLED_QUEUE_REASON) o' = Some (g, gms)"
  shows "over_holds S o' mss (wire @ map Binary (take j gms)
    @ (case close of None \<Rightarrow> [] | Some (c, r) \<Rightarrow> [close_frame_for c r])) True"
proof -
  obtain ms gone rest where wire: "wire = map Binary ms" "mss = gone @ rest" "ms @ [] = concat gone"
    using assms(1) by (rule stream_holds_obtain)
  then have "ms @ take j gms = concat (take (length gone) mss) @ take j gms" by simp
  with assms(2) show ?thesis
    unfolding over_holds_def wire(1)
    by (intro exI [of _ "ms @ take j gms"] exI [of _ close]) (metis map_append append.assoc)
qed

lemma over_holds_silent:
  assumes "stream_holds mss wire [] is_open queue"
  shows "over_holds S o' mss (wire @ (case close of None \<Rightarrow> [] | Some (c, r) \<Rightarrow> [close_frame_for c r])) True"
proof -
  obtain ms gone rest where wire: "wire = map Binary ms" "mss = gone @ rest" "ms @ [] = concat gone"
    using assms(1) by (rule stream_holds_obtain)
  then have "ms = take (length ms) (concat mss)" by simp
  then show ?thesis
    unfolding over_holds_def wire(1) by (intro exI [of _ ms] exI [of _ close]) blast
qed

lemma close_stalled_stream:
  assumes "stream_holds mss (sk_wire w) [] is_open queue"
  shows "over_holds S o' mss (sk_wire (close_stalled_peer S o' j took w)) True"
proof -
  let ?fm = "farewell_messages S close_PROTOCOL_ERROR (Some STALLED_QUEUE_REASON) o'"
  let ?close = "if took then Some (close_PROTOCOL_ERROR, Some STALLED_QUEUE_REASON) else None"
  show ?thesis
  proof (cases "wo_send_close_frame o' \<and> ?fm \<noteq> None")
    case True
    then obtain g gms where "?fm = Some (g, gms)" by auto
    with over_holds_stalled [OF assms this, of j ?close] True show ?thesis
      by (cases took) (simp_all add: close_stalled_peer_def)
  next
    case False
    then have "sk_wire (close_stalled_peer S o' j took w) =
        sk_wire w @ (case ?close of None \<Rightarrow> [] | Some (c, r) \<Rightarrow> [close_frame_for c r])"
      by (cases ?fm) (auto simp: close_stalled_peer_def)
    then show ?thesis using over_holds_silent [OF assms, of S o' ?close] by simp
  qed
qed

lemma drive_poll_stream:
  assumes "stream_live mss w" and "sk_task w = DriveWriting msgs give_up"
  shows "let w' = drive_poll S o' k polled j took msgs give_up w in
     (sk_open w' \<longrightarrow> sk_open w) \<and> (if sk_task w' = DriveOver then stream_over S o' mss w' else stream_live mss w')"
proof -
  have hold: "stream_holds mss (sk_wire w) msgs (sk_open w) (ch_queue (sk_commands w))"
    and g: "sk_gave_up w = give_up"
    using assms by (simp_all add: stream_live_def)
  have part: "stream_holds mss (sk_wire w) (take k msgs @ drop k msgs) (sk_open w) (ch_queue (sk_commands w))"
    using hold by simp
  have all: "stream_holds mss (sk_wire w @ map Binary msgs) [] (sk_open w) (ch_queue (sk_commands w))"
    using hold stream_holds_take [of mss "sk_wire w" msgs "[]"] by simp
  show ?thesis
  proof (cases polled)
    case WriteBlocked
    show ?thesis
      using stream_holds_take [OF part] stream_holds_closed [OF stream_holds_take [OF part]] g WriteBlocked
      by (simp add: drive_poll_def stream_live_def Let_def)
  next
    case WriteDone
    show ?thesis
    proof (cases give_up)
      case False
      with all g WriteDone show ?thesis by (simp add: drive_poll_def stream_live_def Let_def)
    next
      case True
      let ?w = "w\<lparr>sk_wire := sk_wire w @ map Binary msgs, sk_paused := False\<rparr>"
      have "over_holds S o' mss (sk_wire (close_stalled_peer S o' j took ?w)) True"
        using all by (intro close_stalled_stream) simp
      moreover have "sk_gave_up (close_stalled_peer S o' j took ?w)" "sk_open (close_stalled_peer S o' j took ?w) = sk_open w"
        using True g by (simp_all add: close_stalled_peer_def Let_def)
      ultimately show ?thesis
        using True WriteDone by (simp add: drive_poll_def stream_over_def Let_def)
    qed
  next
    case WriteLost
    show ?thesis
      using over_holds_lost [OF part] WriteLost by (simp add: drive_poll_def stream_over_def Let_def)
  qed
qed

lemma ws_inv_drive:
  assumes "ws_inv S o' F s" and "backlog_inv o' (wsd_writer s)"
  shows "ws_inv S o' F (s\<lparr>wsd_writer := drive_step S o' k polled j took (wsd_writer s)\<rparr>)"
proof (cases "sk_task (wsd_writer s) = DriveOver")
  case True
  with assms(1) show ?thesis by (simp add: drive_step_def)
next
  case False
  let ?w = "wsd_writer s"
  let ?w' = "drive_step S o' k polled j took ?w"
  obtain fw mss where c: "carries S o' (wsd_sent s @ wsd_stalled s @ fw) mss" "length (wsd_stalled s) \<le> 1"
      "length fw \<le> 1" "list_all F fw" "sk_open ?w \<longrightarrow> wsd_stalled s = [] \<and> fw = []"
    and live: "stream_live mss ?w"
    using assms(1) False by (auto simp: ws_inv_def)
  have "(sk_open ?w' \<longrightarrow> sk_open ?w) \<and> (if sk_task ?w' = DriveOver then stream_over S o' mss ?w' else stream_live mss ?w')"
  proof (cases "sk_task ?w")
    case DriveIdle
    with drive_command_stream [OF live this, of took S o'] assms(2) show ?thesis
      by (simp add: drive_step_def backlog_inv_def Let_def)
  next
    case (DriveWriting msgs give_up)
    with drive_poll_stream [OF live this, of S o' k polled j took] show ?thesis
      by (simp add: drive_step_def Let_def)
  qed (use False in simp)
  with c show ?thesis unfolding ws_inv_def by (intro exI [of _ fw] exI [of _ mss]) simp
qed

definition ws_exact :: "ws_op list \<Rightarrow> bool" where
  "ws_exact ops = list_all (\<lambda>op. case op of WsSend f \<Rightarrow> frame_exact f | _ \<Rightarrow> True) ops"

lemma ws_inv_open: "ws_inv S o' F ws_open"
  unfolding ws_inv_def
  by (intro exI [of _ "[]"] exI [of _ "[]"])
     (simp add: ws_open_def socket_writer_spawn_def unbounded_channel_def carries_def stream_live_def stream_holds_def)

lemma ws_inv_run:
  assumes "ws_exact ops"
  shows "ws_inv S o' (is_farewell S o' ops) (ws_run S o' ops)"
proof -
  let ?F = "is_farewell S o' ops"
  have "ws_inv S o' ?F (ws_run S o' ops) \<and> backlog_inv o' (wsd_writer (ws_run S o' ops))"
  proof (rule ws_run_induct)
    show "ws_inv S o' ?F ws_open \<and> backlog_inv o' (wsd_writer ws_open)"
      by (simp add: ws_inv_open) (simp add: ws_open_def backlog_spawn)
  next
    fix s op
    assume op: "op \<in> set ops" and inv: "ws_inv S o' ?F s \<and> backlog_inv o' (wsd_writer s)"
    have exact: "frame_exact f" if "op = WsSend f" for f
      using assms op that by (auto simp: ws_exact_def list_all_iff)
    have stall: "?F g" if "is_farewell_for S o' close_PROTOCOL_ERROR (Some STALLED_QUEUE_REASON) g" for g
      using that by (simp add: is_farewell_def)
    have called: "?F g" if "op = WsClose code reason \<or> op = WsRefuse code reason" "is_farewell_for S o' code reason g"
      for code reason g
      using that op by (force simp: is_farewell_def list_ex_iff)
    have "ws_inv S o' ?F (ws_step S o' op s)"
      using inv exact stall called ws_inv_send [of S o' ?F s]
      by (cases op) (simp_all add: ws_inv_close ws_inv_mark ws_inv_drive ws_step_def [of S o' "WsClose _ _"]
          ws_step_def [of S o' "WsRefuse _ _"] ws_step_def [of S o' WsMark] ws_step_def [of S o' "WsDrive _ _ _ _"]
          wtx_close_def Let_def)
    moreover have "backlog_inv o' (wsd_writer (ws_step S o' op s))" using inv by (simp add: backlog_step)
    ultimately show "ws_inv S o' ?F (ws_step S o' op s) \<and> backlog_inv o' (wsd_writer (ws_step S o' op s))" ..
  qed
  then show ?thesis ..
qed

section \<open>The peer's side\<close>

lemma recvs_item:
  "recv s = (s', Polled (Some item)) \<Longrightarrow> snd (recvs recv (Suc n) s) = item # snd (recvs recv n s')"
  by (simp add: case_prod_beta)

lemma recvs_binary:
  assumes "wr_reading rx w" and "cr_pushes S (wr_reassembler rx) ms = (r', xs)" and "list_all is_ok xs"
  shows "snd (recvs (wr_step S o') (length (concat (map delivered_frame xs)) + Suc n)
            (rx, w, map (\<lambda>b. StreamMessage (Binary b)) ms @ evs)) =
         map InFrame (concat (map delivered_frame xs))
         @ snd (recvs (wr_step S o') (Suc n) (rx\<lparr>wr_reassembler := r'\<rparr>, w, evs))"
  using assms
proof (induction ms arbitrary: rx xs)
  case Nil
  then have same: "rx\<lparr>wr_reassembler := r'\<rparr> = rx" by (cases rx) auto
  show ?case by (simp only: same) (use Nil in \<open>simp del: recvs.simps\<close>)
next
  case (Cons m ms)
  obtain r1 x where push: "cr_push S (wr_reassembler rx) m = (r1, x)" by force
  obtain ys where rest: "cr_pushes S r1 ms = (r', ys)" "xs = x # ys"
    using Cons.prems(2) push by (auto split: prod.splits)
  let ?rx = "rx\<lparr>wr_reassembler := r1\<rparr>"
  have reading: "wr_reading ?rx w" using Cons.prems(1) by (simp add: wr_reading_def)
  have IH: "snd (recvs (wr_step S o') (length (concat (map delivered_frame ys)) + Suc n)
        (?rx, w, map (\<lambda>b. StreamMessage (Binary b)) ms @ evs)) =
      map InFrame (concat (map delivered_frame ys))
      @ snd (recvs (wr_step S o') (Suc n) (rx\<lparr>wr_reassembler := r'\<rparr>, w, evs))"
    using Cons.IH [OF reading, of ys] rest Cons.prems(3) by (simp del: recvs.simps add_Suc_right)
  show ?case
  proof (cases x)
    case (Inl e)
    with Cons.prems(3) rest show ?thesis by simp
  next
    case (Inr d)
    show ?thesis
    proof (cases d)
      case None
      have "wr_step S o' (rx, w, map (\<lambda>b. StreamMessage (Binary b)) (m # ms) @ evs) =
          wr_step S o' (?rx, w, map (\<lambda>b. StreamMessage (Binary b)) ms @ evs)"
        using push Inr None wr_ready_reading [OF Cons.prems(1)]
        by (simp add: wr_step_def wr_on_event_def wr_on_message_def)
      with IH rest Inr None show ?thesis by simp
    next
      case (Some f)
      have "wr_step S o' (rx, w, map (\<lambda>b. StreamMessage (Binary b)) (m # ms) @ evs) =
          ((?rx, w, map (\<lambda>b. StreamMessage (Binary b)) ms @ evs), Polled (Some (InFrame f)))"
        using push Inr Some wr_ready_reading [OF Cons.prems(1)]
        by (simp add: wr_step_def wr_on_event_def wr_on_message_def)
      note item = recvs_item [of "wr_step S o'", OF this, of "length (concat (map delivered_frame ys)) + Suc n"]
      have len: "length (concat (map delivered_frame xs)) + Suc n = Suc (length (concat (map delivered_frame ys)) + Suc n)"
        using rest Inr Some by simp
      show ?thesis by (simp only: len item IH) (simp add: rest(2) Inr Some del: recvs.simps)
    qed
  qed
qed

text \<open>What \<open>recv\<close> reports at the end of the stream, with or without a close frame in front of it.\<close>

fun closing_events :: "(u16 \<times> string option) option \<Rightarrow> stream_event list" where
  "closing_events None = [StreamEnd]"
| "closing_events (Some (code, reason)) = [StreamMessage (close_frame_for code reason), StreamEnd]"

fun closing_item :: "(u16 \<times> string option) option \<Rightarrow> port_closure" where
  "closing_item None = PortClosed None None"
| "closing_item (Some (code, reason)) =
     peer_closure (Some (code, clamp_close_reason (case reason of Some r \<Rightarrow> r | None \<Rightarrow> [])))"

lemma recvs_closing:
  assumes "wr_reading rx w"
  shows "snd (recvs (wr_step S o') (Suc n) (rx, w, closing_events close)) = [InClosed (closing_item close)]"
proof -
  have "\<exists>s. wr_step S o' (rx, w, closing_events close) = (s, Polled (Some (InClosed (closing_item close))))"
    using assms
    by (cases close rule: closing_events.cases)
       (auto simp: wr_step_def wr_ready_def wr_reading_def wr_on_event_def wr_on_message_def close_frame_for_def)
  then obtain s where s: "wr_step S o' (rx, w, closing_events close) = (s, Polled (Some (InClosed (closing_item close))))" ..
  then have "wr_ended s" by (rule wrx.closed_ends)
  with s show ?thesis by (simp add: wrx.recvs_ended)
qed

text \<open>A prefix of the messages of whole frames delivers a prefix of the frames.\<close>

lemma pushes_prefix:
  assumes "serde_ok S" and "carries S o' fs mss" and "chunk_receiver (wo_max_frame_bytes o') r"
    and "wo_max_frame_bytes o' \<le> 1024 * (2 ^ 32 - 1)" and "cr_pushes S r (take n (concat mss)) = (r', xs)"
  shows "list_all is_ok xs \<and> prefix (concat (map delivered_frame xs)) fs
    \<and> (take n (concat mss) = concat mss \<longrightarrow> concat (map delivered_frame xs) = fs)"
proof -
  let ?m = "wo_max_frame_bytes o'" and ?mm = "wo_max_message_bytes o'"
  have all2: "list_all2 (\<lambda>f ms. (serde_ok S \<and> frame_exact f \<and> ?m \<le> 1024 * (2 ^ 32 - 1))
      \<and> encode_chunks S f ?mm ?m = Inr ms) fs mss"
    using assms(2) unfolding carries_def by (rule list_all2_mono) (use assms in auto)
  obtain r2 zs where rest: "feed_all (cr_push S) r' (drop n (concat mss)) = (r2, zs)" by force
  have "feed_all (cr_push S) r (take n (concat mss) @ drop n (concat mss)) = (r2, xs @ zs)"
    using assms(5) rest by (simp only: feed_all_append cr_pushes_feed_all) simp
  then have "feed_all (cr_push S) r (concat mss) = (r2, xs @ zs)" by simp
  from chunk_codec.frames_in_order [OF all2 assms(3) this]
  have ok: "list_all is_ok (xs @ zs)" and fs: "concat (map delivered_frame (xs @ zs)) = fs" by simp_all
  have "zs = []" if "take n (concat mss) = concat mss"
  proof -
    have "drop n (concat mss) = []" using that by (metis append_take_drop_id append_self_conv)
    with rest show ?thesis by simp
  qed
  with ok fs show ?thesis by (auto simp: prefix_def)
qed

text \<open>What a wire that keeps the invariant delivers to a peer that reads it to its end.\<close>

lemma over_holds_delivers:
  assumes "serde_ok S" and "carries S o' fs mss" and "over_holds S o' mss wire gave_up"
    and "wo_max_frame_bytes o' \<le> 1024 * (2 ^ 32 - 1)" and "chunk_receiver (wo_max_frame_bytes o') r"
    and "\<And>g. is_farewell_for S o' close_PROTOCOL_ERROR (Some STALLED_QUEUE_REASON) g \<Longrightarrow> F g"
  shows "\<exists>ms close r' xs. wire = map Binary ms @ (case close of None \<Rightarrow> [] | Some (c, x) \<Rightarrow> [close_frame_for c x])
     \<and> cr_pushes S r ms = (r', xs) \<and> list_all is_ok xs
     \<and> (\<exists>i g. prefix (concat (map delivered_frame xs)) (if gave_up then take i fs @ g else fs)
          \<and> length g \<le> 1 \<and> list_all F g)
     \<and> (close \<noteq> None \<and> \<not> gave_up \<longrightarrow> concat (map delivered_frame xs) = fs)"
proof -
  obtain ms close where wire: "wire = map Binary ms @ (case close of None \<Rightarrow> [] | Some (c, x) \<Rightarrow> [close_frame_for c x])"
    and ms: "(\<exists>n. ms = take n (concat mss)) \<or> gave_up \<and> (\<exists>i j g gms.
        farewell_messages S close_PROTOCOL_ERROR (Some STALLED_QUEUE_REASON) o' = Some (g, gms)
        \<and> ms = concat (take i mss) @ take j gms)"
    and whole: "close \<noteq> None \<and> \<not> gave_up \<longrightarrow> ms = concat mss"
    using assms(3) unfolding over_holds_def by blast
  obtain r' xs where push: "cr_pushes S r ms = (r', xs)" by force
  from ms consider (cut) n where "ms = take n (concat mss)"
    | (stalled) i j g gms where "gave_up" "carries S o' [g] [gms]"
        "ms = concat (take i mss) @ take j gms" "is_farewell_for S o' close_PROTOCOL_ERROR (Some STALLED_QUEUE_REASON) g"
    using farewell_messages_carries by (fastforce simp: is_farewell_for_def)
  then show ?thesis
  proof cases
    case cut
    note p = pushes_prefix [OF assms(1,2,5,4) push [unfolded cut]]
    have "\<exists>i g. prefix (concat (map delivered_frame xs)) (if gave_up then take i fs @ g else fs)
        \<and> length g \<le> 1 \<and> list_all F g"
      using p by (intro exI [of _ "length fs"] exI [of _ "[]"]) simp
    moreover have "close \<noteq> None \<and> \<not> gave_up \<longrightarrow> concat (map delivered_frame xs) = fs" using p whole cut by simp
    ultimately show ?thesis using wire push p by blast
  next
    case stalled
    have carr: "carries S o' (take i fs @ [g]) (take i mss @ [gms])"
      using assms(2) stalled(2) by (intro carries_append) (simp_all add: carries_def list_all2_takeI)
    have cut: "ms = take (length (concat (take i mss)) + j) (concat (take i mss @ [gms]))" using stalled(3) by simp
    note p = pushes_prefix [OF assms(1) carr assms(5,4) push [unfolded cut]]
    then have "\<exists>i g. prefix (concat (map delivered_frame xs)) (if gave_up then take i fs @ g else fs)
        \<and> length g \<le> 1 \<and> list_all F g"
      using stalled(1) assms(6) [OF stalled(4)] by (intro exI [of _ i] exI [of _ "[g]"]) simp
    with wire push p stalled(1) show ?thesis by blast
  qed
qed

lemma ws_wire_holds:
  assumes "ws_inv S o' F s" and "backlog_inv o' (wsd_writer s)"
  obtains fw mss where "carries S o' (wsd_sent s @ wsd_stalled s @ fw) mss" and "length (wsd_stalled s) \<le> 1"
    and "length fw \<le> 1" and "list_all F fw"
    and "sk_open (wsd_writer s) \<longrightarrow> wsd_stalled s = [] \<and> fw = [] \<and> \<not> sk_gave_up (wsd_writer s)"
    and "over_holds S o' mss (sk_wire (wsd_writer s)) (sk_gave_up (wsd_writer s))"
proof -
  let ?w = "wsd_writer s"
  obtain fw mss where c: "carries S o' (wsd_sent s @ wsd_stalled s @ fw) mss" "length (wsd_stalled s) \<le> 1"
      "length fw \<le> 1" "list_all F fw" "sk_open ?w \<longrightarrow> wsd_stalled s = [] \<and> fw = []"
    and st: "if sk_task ?w = DriveOver then stream_over S o' mss ?w else stream_live mss ?w"
    using assms(1) unfolding ws_inv_def by blast
  have "over_holds S o' mss (sk_wire ?w) (sk_gave_up ?w)"
    using st over_holds_lost [of mss "sk_wire ?w" "[]" "unwritten (sk_task ?w)" "sk_open ?w" "ch_queue (sk_commands ?w)"]
    by (auto simp: stream_over_def stream_live_def split: if_splits)
  moreover have "sk_open ?w \<longrightarrow> \<not> sk_gave_up ?w"
    using st assms(2) by (cases "sk_task ?w") (auto simp: backlog_inv_def stream_live_def)
  ultimately show ?thesis using c that by blast
qed

text \<open>The frames received, split at the last one reported \<open>Sent\<close> and at the farewells.\<close>

lemma prefix_parts:
  assumes "prefix fs (A @ B @ C)"
  shows "\<exists>a b c. fs = a @ b @ c \<and> prefix a A \<and> prefix b B \<and> prefix c C \<and> (b \<noteq> [] \<longrightarrow> a = A)"
proof -
  from assms consider "prefix fs A" | us where "fs = A @ us" "prefix us B" | vs where "fs = A @ B @ vs" "prefix vs C"
    by (auto simp: prefix_append)
  then show ?thesis
  proof cases
    case 1
    then show ?thesis by - (rule exI [of _ fs], rule exI [of _ "[]"], rule exI [of _ "[]"], simp)
  next
    case 2
    then show ?thesis by - (rule exI [of _ A], rule exI [of _ us], rule exI [of _ "[]"], simp)
  next
    case 3
    then show ?thesis by - (rule exI [of _ A], rule exI [of _ B], rule exI [of _ vs], simp)
  qed
qed

lemma sent_split:
  assumes "\<exists>i g. prefix fs (if gave_up then take i (sent @ stalled @ fw) @ g else sent @ stalled @ fw)
      \<and> length g \<le> 1 \<and> list_all F g"
    and "length fw \<le> 1" and "list_all F fw" and "is_open \<longrightarrow> stalled = [] \<and> fw = [] \<and> \<not> gave_up"
    and "closed \<and> \<not> gave_up \<longrightarrow> fs = sent @ stalled @ fw"
  shows "\<exists>got us vs. fs = got @ us @ vs \<and> prefix got sent \<and> prefix us stalled \<and> (us \<noteq> [] \<longrightarrow> got = sent)
    \<and> length vs \<le> 2 \<and> list_all F vs \<and> (is_open \<longrightarrow> us = [] \<and> vs = [])
    \<and> (closed \<and> \<not> gave_up \<longrightarrow> got = sent \<and> us = stalled)"
proof (cases "closed \<and> \<not> gave_up")
  case True
  with assms show ?thesis by - (rule exI [of _ sent], rule exI [of _ stalled], rule exI [of _ fw], auto)
next
  case False
  obtain i g where p: "prefix fs (if gave_up then take i (sent @ stalled @ fw) @ g else sent @ stalled @ fw)"
    and g: "length g \<le> 1" "list_all F g" using assms(1) by blast
  let ?A = "if gave_up then take i sent else sent" and ?B = "if gave_up then take (i - length sent) stalled else stalled"
    and ?C = "if gave_up then take (i - length sent - length stalled) fw @ g else fw"
  have "prefix fs (?A @ ?B @ ?C)" using p by (simp split: if_splits)
  from prefix_parts [OF this] obtain a b c where abc: "fs = a @ b @ c" "prefix a ?A" "prefix b ?B" "prefix c ?C"
    "b \<noteq> [] \<longrightarrow> a = ?A" by blast
  have "prefix ?A sent" "prefix ?B stalled" by (simp_all add: take_is_prefix)
  then have "prefix a sent" "prefix b stalled" using abc(2,3) prefix_order.trans by blast+
  moreover have "b \<noteq> [] \<longrightarrow> ?A = sent"
    using abc(3) by (cases "length sent \<le> i") auto
  moreover have "length ?C \<le> 2" using assms(2) g(1) by (auto simp: min_def)
  then have "length c \<le> 2" using prefix_length_le [OF abc(4)] by simp
  moreover have "list_all F ?C" using assms(3) g(2) by (auto simp: list_all_iff dest: in_set_takeD)
  then have "list_all F c" using set_mono_prefix [OF abc(4)] by (auto simp: list_all_iff)
  moreover have "is_open \<longrightarrow> b = [] \<and> c = []" using abc(3,4) assms(4) by auto
  moreover have "b \<noteq> [] \<longrightarrow> a = sent" using abc(5) calculation(3) by simp
  ultimately show ?thesis using abc(1) False
    by - (rule exI [of _ a], rule exI [of _ b], rule exI [of _ c], blast)
qed

text \<open>
  C28: The WebSocket transport delivers in order.  Whatever sequence of sends, closes and writer-task
  wake-ups a side goes through and however the socket takes its messages, a peer that reads the stream
  to its end gets a prefix of the frames whose send was reported \<open>Sent\<close>, in order and each once, then
  possibly the one frame whose send met a stalled queue and was reported closed (only behind all of
  them), then at most two farewells, each the close frame of a \<open>close\<close>, of a refused codec error or of the
  stalled queue, then the closure once and nothing after it, and never a codec error.  While the port is
  open nothing but the frames reported \<open>Sent\<close> arrives.  When the close frame was taken and no stall was
  declared, every frame reported \<open>Sent\<close> arrives and the closure carries that close frame's code and
  reason.  This is for a JSON library that does what it documents, frames it reads back exactly (no
  floating-point number, objects in key order, nesting at most 120), a reader whose frame limit is not
  below the sender's, and a limit of at most 1024 (2^32 - 1) bytes, so that a chunk count fits its field.
\<close>

theorem websocket_delivers_in_order:
  fixes S o' ops
  defines "s \<equiv> ws_run S o' ops"
  assumes "serde_ok S" and "ws_exact ops" and "wo_max_frame_bytes o' \<le> 1024 * (2 ^ 32 - 1)"
    and "wo_max_frame_bytes o' \<le> wo_max_frame_bytes p" and "ws_split p = Inr (pw, prx)"
    and "length (wsd_sent s) + 4 \<le> n"
  shows "\<exists>got stalled farewells close.
     snd (recvs (wr_step S p) n (prx, pw, map StreamMessage (sk_wire (wsd_writer s)) @ [StreamEnd])) =
       map InFrame (got @ stalled @ farewells) @ [InClosed (closing_item close)]
     \<and> prefix got (wsd_sent s)
     \<and> prefix stalled (wsd_stalled s) \<and> length (wsd_stalled s) \<le> 1 \<and> (stalled \<noteq> [] \<longrightarrow> got = wsd_sent s)
     \<and> length farewells \<le> 2 \<and> list_all (is_farewell S o' ops) farewells
     \<and> (sk_open (wsd_writer s) \<longrightarrow> stalled = [] \<and> farewells = [])
     \<and> (\<exists>ms. sk_wire (wsd_writer s) = map Binary ms @ (case close of None \<Rightarrow> [] | Some (c, r) \<Rightarrow> [close_frame_for c r]))
     \<and> (close \<noteq> None \<and> \<not> sk_gave_up (wsd_writer s) \<longrightarrow> got = wsd_sent s \<and> stalled = wsd_stalled s)"
proof -
  let ?w = "wsd_writer s" and ?m = "wo_max_frame_bytes o'" and ?F = "is_farewell S o' ops"
  let ?all = "\<lambda>fw. wsd_sent s @ wsd_stalled s @ fw"
  have inv: "ws_inv S o' ?F s" "backlog_inv o' ?w"
    unfolding s_def using assms(3) by (simp_all add: ws_inv_run backlog_run)
  obtain fw mss where c: "carries S o' (?all fw) mss" "length (wsd_stalled s) \<le> 1" "length fw \<le> 1" "list_all ?F fw"
      "sk_open ?w \<longrightarrow> wsd_stalled s = [] \<and> fw = [] \<and> \<not> sk_gave_up ?w" "over_holds S o' mss (sk_wire ?w) (sk_gave_up ?w)"
    using ws_wire_holds [OF inv] .
  have peer: "pw = socket_writer_spawn" "wr_reading prx pw" "chunk_receiver ?m (wr_reassembler prx)"
    using assms(5,6)
    by (auto simp: ws_split_def and_then_Inr reassembler_new_Inr wr_reading_def socket_writer_spawn_def
        chunk_receiver_def idle_def)
  have stall: "?F g" if "is_farewell_for S o' close_PROTOCOL_ERROR (Some STALLED_QUEUE_REASON) g" for g
    using that by (simp add: is_farewell_def)
  obtain ms close r' xs where wire: "sk_wire ?w = map Binary ms @ (case close of None \<Rightarrow> [] | Some (c, x) \<Rightarrow> [close_frame_for c x])"
    and push: "cr_pushes S (wr_reassembler prx) ms = (r', xs)" "list_all is_ok xs"
    and pre: "\<exists>i g. prefix (concat (map delivered_frame xs)) (if sk_gave_up ?w then take i (?all fw) @ g else ?all fw)
        \<and> length g \<le> 1 \<and> list_all ?F g"
    and whole: "close \<noteq> None \<and> \<not> sk_gave_up ?w \<longrightarrow> concat (map delivered_frame xs) = ?all fw"
    using over_holds_delivers [OF assms(2) c(1,6) assms(4) peer(3), of ?F, OF stall] by blast
  let ?fs = "concat (map delivered_frame xs)"
  obtain got us vs where fs: "?fs = got @ us @ vs" "prefix got (wsd_sent s)" "prefix us (wsd_stalled s)"
      "us \<noteq> [] \<longrightarrow> got = wsd_sent s" "length vs \<le> 2" "list_all ?F vs" "sk_open ?w \<longrightarrow> us = [] \<and> vs = []"
      "close \<noteq> None \<and> \<not> sk_gave_up ?w \<longrightarrow> got = wsd_sent s \<and> us = wsd_stalled s"
    using sent_split [OF pre c(3,4,5) whole] by blast
  have evs: "map StreamMessage (sk_wire ?w) @ [StreamEnd] = map (\<lambda>b. StreamMessage (Binary b)) ms @ closing_events close"
    using wire by (cases close rule: closing_events.cases) simp_all
  have "length ?fs \<le> length (wsd_sent s) + 3"
    using prefix_length_le [OF fs(2)] prefix_length_le [OF fs(3)] c(2) fs(1,5) by simp
  then have n: "n = length ?fs + Suc (n - length ?fs - 1)" using assms(7) by simp
  have "snd (recvs (wr_step S p) (length ?fs + Suc (n - length ?fs - 1)) (prx, pw, map (\<lambda>b. StreamMessage (Binary b)) ms @ closing_events close)) =
      map InFrame ?fs @ [InClosed (closing_item close)]"
    using recvs_binary [OF peer(2) push] recvs_closing [of "prx\<lparr>wr_reassembler := r'\<rparr>" pw] peer(2)
    by (simp add: wr_reading_def del: recvs.simps)
  then have "snd (recvs (wr_step S p) n (prx, pw, map StreamMessage (sk_wire ?w) @ [StreamEnd])) =
      map InFrame (got @ us @ vs) @ [InClosed (closing_item close)]"
    unfolding evs fs(1) [symmetric] using n by simp
  with fs(2-8) c(2) wire show ?thesis
    by - (rule exI [of _ got], rule exI [of _ us], rule exI [of _ vs], rule exI [of _ close], blast)
qed

text \<open>Two frames sent, both written, and the port closed in order.\<close>

definition closing_ops :: "ws_op list" where
  "closing_ops = [WsSend Ping, WsSend Ping, WsClose 4000 None, WsDrive 0 WriteDone 0 True, WsDrive 0 WriteDone 0 True,
     WsDrive 0 WriteDone 0 True, WsDrive 0 WriteDone 0 True, WsDrive 0 WriteDone 0 True]"

definition plain_options :: websocket_options where
  "plain_options = \<lparr>wo_max_frame_bytes = 4096, wo_max_message_bytes = 2048, wo_send_close_frame = False\<rparr>"

lemma closing_example:
  "wsd_sent (ws_run liveness_serde plain_options closing_ops) = [Ping, Ping]"
  "\<not> sk_gave_up (wsd_writer (ws_run liveness_serde plain_options closing_ops))"
  "wsd_stalled (ws_run liveness_serde plain_options closing_ops) = []"
  "sk_wire (wsd_writer (ws_run liveness_serde plain_options closing_ops)) =
     [Binary (chunk_message 0 1 ping_text), Binary (chunk_message 0 1 ping_text), close_frame_for 4000 None]"
  by (simp_all add: ws_run_def closing_ops_def ws_step_def ws_open_def socket_writer_spawn_def send_frame_def
      plain_options_def ping_chunks ch_send_def ch_recv_def unbounded_channel_def drive_step_def wtx_close_def
      sk_close_def drive_command_def drive_poll_def drive_end_def release_unwritten_def Let_def)

definition plain_rx :: websocket_rx where
  "plain_rx = \<lparr>wr_reassembler = fresh_reassembler, wr_closure = None, wr_terminal = False\<rparr>"

definition closing_wire :: "ws_message list" where
  "closing_wire = [Binary (chunk_message 0 1 ping_text), Binary (chunk_message 0 1 ping_text), close_frame_for 4000 None]"

lemma closing_wire_close:
  assumes "closing_wire = map Binary ms @ (case close of None \<Rightarrow> [] | Some (c, r) \<Rightarrow> [close_frame_for c r])"
  shows "close \<noteq> None \<and> closing_item close = PortClosed (Some 4000) None"
proof (cases close)
  case None
  with assms have "last closing_wire \<in> set (map Binary ms)"
    by (cases ms rule: rev_cases) (auto simp: closing_wire_def)
  then show ?thesis by (auto simp: closing_wire_def close_frame_for_def)
next
  case (Some cx)
  obtain c x where cx: "cx = (c, x)" by (cases cx)
  with Some assms have "closing_wire = map Binary ms @ [close_frame_for c x]" by simp
  then have "last closing_wire = close_frame_for c x" by (metis last_snoc)
  then have "close_frame_for c x = close_frame_for 4000 None" by (simp add: closing_wire_def)
  with Some cx show ?thesis
    by (simp add: close_frame_for_def peer_closure_def clamp_close_reason_def close_RELEASED_def MAX_CLOSE_CODE_def)
qed

lemma liveness_no_farewell: "\<not> is_farewell liveness_serde o' ops g"
proof -
  have "farewell_messages liveness_serde code reason o' = None" for code reason
    by (auto simp: farewell_messages_def encode_chunks_def encode_frame_bytes_Inr liveness_serde_def Let_def and_then_Inr
        split: sum.split)
  then show ?thesis by (auto simp: is_farewell_def is_farewell_for_def list_ex_iff split: ws_op.splits)
qed

theorem websocket_delivers_in_order_witness:
  "snd (recvs (wr_step liveness_serde plain_options) 6
     (plain_rx, socket_writer_spawn, map StreamMessage closing_wire @ [StreamEnd])) =
   [InFrame Ping, InFrame Ping, InClosed (PortClosed (Some 4000) None)]"
proof -
  let ?s = "ws_run liveness_serde plain_options closing_ops"
  have exact: "ws_exact closing_ops" by (simp add: closing_ops_def ws_exact_def frame_exact_def)
  have limits: "wo_max_frame_bytes plain_options \<le> 1024 * (2 ^ 32 - 1)" by (simp add: plain_options_def)
  have split: "ws_split plain_options = Inr (socket_writer_spawn, plain_rx)"
    by (simp add: ws_split_def plain_options_def fresh_reassembler_new plain_rx_def)
  have n: "length (wsd_sent ?s) + 4 \<le> 6" by (simp add: closing_example)
  have wire: "sk_wire (wsd_writer ?s) = closing_wire" by (simp add: closing_example closing_wire_def)
  obtain got stalled farewells close where r: "snd (recvs (wr_step liveness_serde plain_options) 6
      (plain_rx, socket_writer_spawn, map StreamMessage closing_wire @ [StreamEnd])) =
        map InFrame (got @ stalled @ farewells) @ [InClosed (closing_item close)]"
    and fw: "list_all (is_farewell liveness_serde plain_options closing_ops) farewells"
    and close: "\<exists>ms. closing_wire = map Binary ms @ (case close of None \<Rightarrow> [] | Some (c, r) \<Rightarrow> [close_frame_for c r])"
    and got: "close \<noteq> None \<and> \<not> sk_gave_up (wsd_writer ?s) \<longrightarrow> got = wsd_sent ?s \<and> stalled = wsd_stalled ?s"
    using websocket_delivers_in_order [OF liveness_serde_ok exact limits order_refl split n, unfolded wire] by blast
  from close obtain ms where "closing_wire = map Binary ms @ (case close of None \<Rightarrow> [] | Some (c, r) \<Rightarrow> [close_frame_for c r])" ..
  then have c: "close \<noteq> None \<and> closing_item close = PortClosed (Some 4000) None" by (rule closing_wire_close)
  with got have "got = [Ping, Ping]" "stalled = []" by (simp_all add: closing_example)
  moreover have "farewells = []" using fw by (cases farewells) (simp_all add: liveness_no_farewell)
  ultimately show ?thesis using r c by simp
qed

end
