(* ===== verification/Ssh.thy ===== *)
theory Ssh
  imports Prelude
begin

text \<open>
  The \<open>ssh\<close> argv preset of \<open>transports/ssh.rs\<close> and the exit classifier, with the pieces of
  \<open>transports/spawn.rs\<close> they use (\<open>ExitStatus\<close>, \<open>signal_name\<close>, \<open>last_non_empty_line\<close>).  An \<open>i32\<close> is an
  \<open>int\<close>.

  What the preset is for is stated against a reader of POSIX shell words: the remote login shell gets
  exactly the words asked for, every character of them quoted.
\<close>

section \<open>Standard-library strings\<close>

text \<open>\<open>str::chars()\<close> as the byte sequences of the characters.\<close>

fun utf8_chars :: "string \<Rightarrow> string list" where
  "utf8_chars [] = []"
| "utf8_chars (c # cs) =
     (case utf8_chars cs of
        [] \<Rightarrow> [[c]]
      | ch # chs \<Rightarrow> (case ch of
            d # _ \<Rightarrow> if is_continuation d then (c # ch) # chs else [c] # ch # chs
          | [] \<Rightarrow> [c] # chs))"

text \<open>\<open>char::is_whitespace\<close>: the Unicode \<open>White_Space\<close> characters, in UTF-8.\<close>

definition whitespace_chars :: "string list" where
  "whitespace_chars =
     map (\<lambda>c. [c]) [CHR 0x09, CHR 0x0A, CHR 0x0B, CHR 0x0C, CHR 0x0D, CHR 0x20]
     @ [[CHR 0xC2, CHR 0x85], [CHR 0xC2, CHR 0xA0], [CHR 0xE1, CHR 0x9A, CHR 0x80]]
     @ map (\<lambda>c. [CHR 0xE2, CHR 0x80, c])
         [CHR 0x80, CHR 0x81, CHR 0x82, CHR 0x83, CHR 0x84, CHR 0x85, CHR 0x86, CHR 0x87, CHR 0x88,
          CHR 0x89, CHR 0x8A, CHR 0xA8, CHR 0xA9, CHR 0xAF]
     @ [[CHR 0xE2, CHR 0x81, CHR 0x9F], [CHR 0xE3, CHR 0x80, CHR 0x80]]"

definition is_whitespace :: "string \<Rightarrow> bool" where
  "is_whitespace ch = (ch \<in> set whitespace_chars)"

definition any_whitespace :: "string \<Rightarrow> bool" where
  "any_whitespace s = list_ex is_whitespace (utf8_chars s)"

definition str_trim :: "string \<Rightarrow> string" where
  "str_trim s = concat (rev (dropWhile is_whitespace (rev (dropWhile is_whitespace (utf8_chars s)))))"

definition strip_cr :: "string \<Rightarrow> string" where
  "strip_cr line = (if line \<noteq> [] \<and> last line = CHR 0x0D then butlast line else line)"

text \<open>\<open>str::lines()\<close>: split at newlines, a trailing carriage return dropped, no empty last line.\<close>

definition str_lines :: "string \<Rightarrow> string list" where
  "str_lines s =
     (let parts = split_on CHR 0x0A s
      in map strip_cr (butlast parts) @ (if last parts = [] then [] else [last parts]))"

definition starts_with :: "string \<Rightarrow> string \<Rightarrow> bool" where
  "starts_with p s = (take (length p) s = p)"

definition show_int :: "int \<Rightarrow> string" where
  "show_int i = (if i < 0 then CHR ''-'' # show_nat (nat (- i)) else show_nat (nat i))"

definition debug_strs :: "string list \<Rightarrow> string" where
  "debug_strs ss = ''['' @ concat (case ss of [] \<Rightarrow> [] | s # rest \<Rightarrow> debug_str s # map (\<lambda>t. '', '' @ debug_str t) rest) @ '']''"

section \<open>Exit statuses (spawn.rs)\<close>

record exit_status =
  ex_code :: "int option"
  ex_signal :: "int option"

definition signal_name :: "int \<Rightarrow> string option" where
  "signal_name signal =
     (if signal = 1 then Some ''SIGHUP'' else if signal = 2 then Some ''SIGINT''
      else if signal = 3 then Some ''SIGQUIT'' else if signal = 6 then Some ''SIGABRT''
      else if signal = 9 then Some ''SIGKILL'' else if signal = 13 then Some ''SIGPIPE''
      else if signal = 15 then Some ''SIGTERM'' else None)"

definition exit_status_display :: "exit_status \<Rightarrow> string" where
  "exit_status_display status =
     (case (ex_code status, ex_signal status) of
        (Some code, _) \<Rightarrow> ''exit status '' @ show_int code
      | (None, Some signal) \<Rightarrow>
          (case signal_name signal of
             Some name \<Rightarrow> ''killed by '' @ name
           | None \<Rightarrow> ''killed by signal '' @ show_int signal)
      | (None, None) \<Rightarrow> ''no exit status at all'')"

definition last_non_empty_line :: "string \<Rightarrow> string option" where
  "last_non_empty_line txt = find (\<lambda>line. line \<noteq> []) (map str_trim (rev (str_lines txt)))"

section \<open>The preset (ssh.rs)\<close>

definition DEFAULT_CONNECT_TIMEOUT_SECONDS :: u32 where "DEFAULT_CONNECT_TIMEOUT_SECONDS = 10"
definition PORT_MIN :: u16 where "PORT_MIN = 1"
definition SSH_OWN_FAILURE :: int where "SSH_OWN_FAILURE = 255"
definition COMMAND_NOT_FOUND :: int where "COMMAND_NOT_FOUND = 127"

record ssh_options =
  sa_host :: string
  sa_user :: "string option"
  sa_port :: "u16 option"
  sa_identity_file :: "string option"
  sa_command :: "string list"
  sa_connect_timeout_seconds :: u32

definition ssh_options_new :: "string \<Rightarrow> string list \<Rightarrow> ssh_options" where
  "ssh_options_new host command =
     \<lparr>sa_host = host, sa_user = None, sa_port = None, sa_identity_file = None, sa_command = command,
      sa_connect_timeout_seconds = DEFAULT_CONNECT_TIMEOUT_SECONDS\<rparr>"

definition with_user :: "string \<Rightarrow> ssh_options \<Rightarrow> ssh_options" where
  "with_user user opts = opts\<lparr>sa_user := Some user\<rparr>"

definition with_port :: "u16 \<Rightarrow> ssh_options \<Rightarrow> ssh_options" where
  "with_port port opts = opts\<lparr>sa_port := Some port\<rparr>"

definition with_identity_file :: "string \<Rightarrow> ssh_options \<Rightarrow> ssh_options" where
  "with_identity_file identity_file opts = opts\<lparr>sa_identity_file := Some identity_file\<rparr>"

definition with_connect_timeout_seconds :: "u32 \<Rightarrow> ssh_options \<Rightarrow> ssh_options" where
  "with_connect_timeout_seconds seconds opts = opts\<lparr>sa_connect_timeout_seconds := seconds\<rparr>"

datatype ssh_argv_error =
    SshHost string
  | SshUser string
  | SshPort u16
  | SshConnectTimeoutSeconds u32
  | SshCommand "string list"

definition ssh_reason :: "ssh_argv_error \<Rightarrow> string" where
  "ssh_reason e =
     (case e of SshHost _ \<Rightarrow> ''host'' | SshUser _ \<Rightarrow> ''user'' | SshPort _ \<Rightarrow> ''port''
      | SshConnectTimeoutSeconds _ \<Rightarrow> ''connectTimeoutSeconds'' | SshCommand _ \<Rightarrow> ''command'')"

definition ssh_argv_error_display :: "ssh_argv_error \<Rightarrow> string" where
  "ssh_argv_error_display e =
     (case e of
        SshHost host \<Rightarrow> ''ssh host is '' @ debug_str host
          @ ''; expected a non-empty host name without whitespace and not beginning with '' @ quoted ''-''
      | SshUser user \<Rightarrow> ''ssh user is '' @ debug_str user
          @ ''; expected a non-empty user name without whitespace and not beginning with '' @ quoted ''-''
      | SshPort port \<Rightarrow> ''ssh port is '' @ show_nat (unat port) @ ''; expected a port of at least ''
          @ show_nat (unat PORT_MIN)
      | SshConnectTimeoutSeconds seconds \<Rightarrow> ''ssh connectTimeoutSeconds is '' @ show_nat (unat seconds)
          @ ''; expected an integer of at least 1 second''
      | SshCommand command \<Rightarrow> ''ssh command is '' @ debug_strs command
          @ ''; expected [remotePath, ...remoteArgs] with a non-empty remote path'')"

definition refused_word :: "string \<Rightarrow> bool" where
  "refused_word s \<longleftrightarrow> s = [] \<or> starts_with ''-'' s \<or> any_whitespace s"

definition checked_host :: "string \<Rightarrow> ssh_argv_error + string" where
  "checked_host host = (if refused_word host then Inl (SshHost host) else Inr host)"

definition checked_user :: "string \<Rightarrow> ssh_argv_error + string" where
  "checked_user user = (if refused_word user then Inl (SshUser user) else Inr user)"

definition checked_port :: "u16 \<Rightarrow> ssh_argv_error + u16" where
  "checked_port port = (if port < PORT_MIN then Inl (SshPort port) else Inr port)"

definition checked_timeout :: "u32 \<Rightarrow> ssh_argv_error + u32" where
  "checked_timeout seconds = (if seconds < 1 then Inl (SshConnectTimeoutSeconds seconds) else Inr seconds)"

definition checked_command :: "string list \<Rightarrow> ssh_argv_error + string \<times> string list" where
  "checked_command command =
     (case command of
        remote_path # rest \<Rightarrow> if remote_path \<noteq> [] then Inr (remote_path, rest) else Inl (SshCommand command)
      | [] \<Rightarrow> Inl (SshCommand command))"

text \<open>\<open>value.replace('\'', "'\\''")\<close>: each quote becomes quote, backslash, quote, quote.\<close>

definition quote_char :: "char \<Rightarrow> string" where
  "quote_char c = (if c = CHR 0x27 then [CHR 0x27, CHR 0x5C, CHR 0x27, CHR 0x27] else [c])"

definition single_quote :: "string \<Rightarrow> string" where
  "single_quote value = [CHR 0x27] @ concat (map quote_char value) @ [CHR 0x27]"

definition quote_remote_path :: "string \<Rightarrow> string" where
  "quote_remote_path remote_path =
     (if starts_with ''~/'' remote_path then ''~/'' @ single_quote (drop 2 remote_path)
      else single_quote remote_path)"

text \<open>\<open>Option::map(check).transpose()\<close>.\<close>

definition transpose_checked :: "('a \<Rightarrow> 'e + 'b) \<Rightarrow> 'a option \<Rightarrow> 'e + 'b option" where
  "transpose_checked check x =
     (case x of None \<Rightarrow> Inr None | Some a \<Rightarrow> and_then (check a) (\<lambda>b. Inr (Some b)))"

definition ssh_argv :: "ssh_options \<Rightarrow> ssh_argv_error + string list" where
  "ssh_argv options =
     and_then (checked_host (sa_host options))
     (\<lambda>host. and_then (transpose_checked checked_user (sa_user options))
     (\<lambda>user. and_then (checked_timeout (sa_connect_timeout_seconds options))
     (\<lambda>connect_timeout. and_then (checked_command (sa_command options))
     (\<lambda>(remote_path, remote_args). and_then (transpose_checked checked_port (sa_port options))
     (\<lambda>port. Inr
        ([''ssh'', ''-o'', ''BatchMode=yes'',
          ''-o'', ''ConnectTimeout='' @ show_nat (unat connect_timeout),
          ''-o'', ''ServerAliveInterval=15'', ''-o'', ''ServerAliveCountMax=3'',
          ''-o'', ''StrictHostKeyChecking=yes'', ''-o'', ''ControlMaster=no'', ''-o'', ''ControlPath=none'',
          ''-o'', ''RemoteCommand=none'']
         @ (case sa_identity_file options of
              Some identity_file \<Rightarrow> [''-o'', ''IdentitiesOnly=yes'', ''-i'', identity_file]
            | None \<Rightarrow> [])
         @ (case port of Some p \<Rightarrow> [''-p'', show_nat (unat p)] | None \<Rightarrow> [])
         @ [''-T'', ''--'',
            (case user of Some u \<Rightarrow> u @ ''@'' @ host | None \<Rightarrow> host),
            quote_remote_path remote_path]
         @ map single_quote remote_args))))))"

definition classify_ssh_exit :: "exit_status \<Rightarrow> string \<Rightarrow> string" where
  "classify_ssh_exit status stderr_tail =
     (if ex_code status = Some SSH_OWN_FAILURE then
        let suffix = (case last_non_empty_line stderr_tail of Some detail \<Rightarrow> '': '' @ detail | None \<Rightarrow> [])
        in ''ssh exited 255, its own failure (connection, authentication or host key), not a status from the remote command''
           @ suffix @ ''.''
      else if ex_code status = Some COMMAND_NOT_FOUND then
        ''ssh exited 127: the remote login shell could not find the command; check the remote path and the PATH of a non-interactive shell.''
      else case ex_signal status of
        Some signal \<Rightarrow>
          let name = (case signal_name signal of Some n \<Rightarrow> n | None \<Rightarrow> ''signal '' @ show_int signal)
          in ''ssh was killed by '' @ name @ '' before the remote command reported a status.''
      | None \<Rightarrow>
          (case ex_code status of
             None \<Rightarrow> ''ssh ended without an exit status, so the launcher could not observe how the remote command finished.''
           | Some code \<Rightarrow> ''ssh exited '' @ show_int code @ '', which is the status the remote command returned.''))"

section \<open>What a POSIX shell reads\<close>

text \<open>
  Word splitting of a POSIX shell line, independent of the quoting above.  A word is a list of its
  characters, each marked with whether it was quoted; an unquoted character keeps its meaning to the
  shell (an operator, an expansion, a tilde).  None is an unterminated quote.
\<close>

type_synonym sh_word = "(bool \<times> char) list"

fun sh_flush :: "sh_word option \<Rightarrow> sh_word list" where
  "sh_flush None = []"
| "sh_flush (Some w) = [w]"

fun sh_push :: "sh_word option \<Rightarrow> bool \<times> char \<Rightarrow> sh_word option" where
  "sh_push None x = Some [x]"
| "sh_push (Some w) x = Some (w @ [x])"

fun sh_quoted :: "sh_word option \<Rightarrow> string \<Rightarrow> sh_word list option"
  and sh_plain :: "sh_word option \<Rightarrow> string \<Rightarrow> sh_word list option" where
  "sh_quoted w [] = None"
| "sh_quoted w (c # cs) = (if c = CHR 0x27 then sh_plain w cs else sh_quoted (sh_push w (True, c)) cs)"
| "sh_plain w [] = Some (sh_flush w)"
| "sh_plain w (c # cs) =
     (if c = CHR 0x27 then sh_quoted (Some (case w of None \<Rightarrow> [] | Some v \<Rightarrow> v)) cs
      else if c = CHR 0x5C then
        (case cs of
           [] \<Rightarrow> None
         | d # ds \<Rightarrow> if d = CHR 0x0A then sh_plain w ds else sh_plain (sh_push w (True, d)) ds)
      else if c = CHR 0x20 \<or> c = CHR 0x09 then
        map_option (\<lambda>ws. sh_flush w @ ws) (sh_plain None cs)
      else sh_plain (sh_push w (False, c)) cs)"

definition sh_read :: "string \<Rightarrow> sh_word list option" where
  "sh_read line = sh_plain None line"

definition literal :: "string \<Rightarrow> sh_word" where
  "literal s = map (Pair True) s"

text \<open>A remote path as the shell must see it: literal, except for a leading \<open>~/\<close>.\<close>

definition path_word :: "string \<Rightarrow> sh_word" where
  "path_word p = (if starts_with ''~/'' p then map (Pair False) ''~/'' @ literal (drop 2 p) else literal p)"

section \<open>Quoting laws\<close>

lemma sh_quoted_body:
  "sh_quoted (Some w) (concat (map quote_char s) @ CHR 0x27 # rest) = sh_plain (Some (w @ literal s)) rest"
  by (induction s arbitrary: w) (simp_all add: quote_char_def literal_def)

lemma sh_plain_single_quote:
  "sh_plain w (single_quote s @ rest) = sh_plain (Some ((case w of None \<Rightarrow> [] | Some v \<Rightarrow> v) @ literal s)) rest"
  by (simp add: single_quote_def sh_quoted_body)

lemma sh_plain_path:
  "sh_plain None (quote_remote_path p @ rest) = sh_plain (Some (path_word p)) rest"
  by (simp add: quote_remote_path_def path_word_def sh_plain_single_quote)

lemma sh_plain_args:
  "sh_plain (Some w) (concat (map (\<lambda>a. CHR 0x20 # single_quote a) as)) = Some (w # map literal as)"
proof (induction as arbitrary: w)
  case (Cons a as)
  then show ?case by (simp add: sh_plain_single_quote)
qed simp

lemma join_with_Cons_concat: "join_with d (s # ss) = s @ concat (map (\<lambda>t. d # t) ss)"
  by (induction ss arbitrary: s) simp_all

lemma sh_read_command:
  "sh_read (join_with CHR 0x20 (quote_remote_path p # map single_quote as)) = Some (path_word p # map literal as)"
proof -
  have tail: "concat (map ((#) CHR 0x20) (map single_quote as)) = concat (map (\<lambda>a. CHR 0x20 # single_quote a) as)"
    by (simp add: comp_def)
  show ?thesis
    by (simp only: join_with_Cons_concat tail sh_read_def sh_plain_path sh_plain_args)
qed

section \<open>The destination\<close>

lemma utf8_chars_Cons: "\<exists>ch chs. utf8_chars (c # cs) = (c # ch) # chs"
  by (auto split: list.splits)

lemma utf8_chars_eq_Nil [simp]: "utf8_chars s = [] \<longleftrightarrow> s = []"
  using utf8_chars_Cons [of "hd s" "tl s"] by (cases s) auto

lemma utf8_chars_append:
  assumes "\<not> is_continuation b"
  shows "utf8_chars (a @ b # bs) = utf8_chars a @ utf8_chars (b # bs)"
proof (induction a)
  case (Cons c cs)
  obtain ch chs where head: "utf8_chars (b # bs) = (b # ch) # chs"
    using utf8_chars_Cons by blast
  show ?case
  proof (cases cs)
    case Nil
    with head assms show ?thesis by simp
  next
    case (Cons d ds)
    obtain dh dhs where "utf8_chars cs = (d # dh) # dhs"
      using utf8_chars_Cons Cons by blast
    with Cons.IH show ?thesis by (simp del: utf8_chars.simps(2) add: utf8_chars.simps(2) [of c])
  qed
qed simp

lemma at_sign_plain: "\<not> is_continuation CHR ''@''" "\<not> is_whitespace (CHR ''@'' # ch)"
  by (simp_all add: is_continuation_def is_whitespace_def whitespace_chars_def)

lemma any_whitespace_at:
  "any_whitespace (u @ ''@'' @ h) \<Longrightarrow> any_whitespace u \<or> any_whitespace h"
proof -
  assume ws: "any_whitespace (u @ ''@'' @ h)"
  have "list_ex is_whitespace (utf8_chars (CHR ''@'' # h)) \<Longrightarrow> any_whitespace h"
    by (auto simp: any_whitespace_def at_sign_plain split: list.splits if_splits)
  with ws show ?thesis
    by (auto simp: any_whitespace_def utf8_chars_append [OF at_sign_plain(1)] simp del: utf8_chars.simps(2))
qed

definition destination :: "string option \<Rightarrow> string \<Rightarrow> string" where
  "destination user host = (case user of Some u \<Rightarrow> u @ ''@'' @ host | None \<Rightarrow> host)"

lemma destination_not_refused:
  assumes "\<not> refused_word host" "\<forall>u. user = Some u \<longrightarrow> \<not> refused_word u"
  shows "\<not> refused_word (destination user host)"
proof (cases user)
  case (Some u)
  with assms have u: "u \<noteq> []" "\<not> starts_with ''-'' u" "\<not> any_whitespace u"
    and h: "\<not> any_whitespace host" by (auto simp: refused_word_def)
  have "\<not> starts_with ''-'' (u @ ''@'' @ host)"
    using u(1,2) by (cases u) (auto simp: starts_with_def)
  with Some u h any_whitespace_at [of u host] show ?thesis
    by (auto simp: refused_word_def destination_def)
qed (use assms in \<open>simp add: destination_def\<close>)

section \<open>The preset's promise\<close>

lemma transpose_checked_Inr:
  "transpose_checked check x = Inr y \<longleftrightarrow>
     (case x of None \<Rightarrow> y = None | Some a \<Rightarrow> (\<exists>b. check a = Inr b \<and> y = Some b))"
  by (auto simp: transpose_checked_def and_then_Inr split: option.splits)

lemma checked_Inr:
  "checked_host h = Inr h' \<longleftrightarrow> h' = h \<and> \<not> refused_word h"
  "checked_user u = Inr u' \<longleftrightarrow> u' = u \<and> \<not> refused_word u"
  "checked_timeout s = Inr s' \<longleftrightarrow> s' = s \<and> 0 < unat s"
  "checked_port n = Inr n' \<longleftrightarrow> n' = n \<and> 0 < unat n"
  "checked_command c = Inr (p, as) \<longleftrightarrow> c = p # as \<and> p \<noteq> []"
  by (auto simp: checked_host_def checked_user_def checked_timeout_def checked_port_def
      checked_command_def PORT_MIN_def unat_gt_0 word_less_1 split: list.splits)

text \<open>The options in front of the destination.\<close>

definition ssh_flags :: "ssh_options \<Rightarrow> string list" where
  "ssh_flags opts =
     [''ssh'', ''-o'', ''BatchMode=yes'',
      ''-o'', ''ConnectTimeout='' @ show_nat (unat (sa_connect_timeout_seconds opts)),
      ''-o'', ''ServerAliveInterval=15'', ''-o'', ''ServerAliveCountMax=3'',
      ''-o'', ''StrictHostKeyChecking=yes'', ''-o'', ''ControlMaster=no'', ''-o'', ''ControlPath=none'',
      ''-o'', ''RemoteCommand=none'']
     @ (case sa_identity_file opts of Some f \<Rightarrow> [''-o'', ''IdentitiesOnly=yes'', ''-i'', f] | None \<Rightarrow> [])
     @ (case sa_port opts of Some p \<Rightarrow> [''-p'', show_nat (unat p)] | None \<Rightarrow> [])
     @ [''-T'']"

lemma ssh_argv_Inr:
  "ssh_argv opts = Inr argv \<longleftrightarrow>
     (\<exists>p as. sa_command opts = p # as \<and> p \<noteq> []
        \<and> \<not> refused_word (sa_host opts) \<and> (\<forall>u. sa_user opts = Some u \<longrightarrow> \<not> refused_word u)
        \<and> 0 < unat (sa_connect_timeout_seconds opts) \<and> (\<forall>n. sa_port opts = Some n \<longrightarrow> 0 < unat n)
        \<and> argv = ssh_flags opts @ [''--'', destination (sa_user opts) (sa_host opts)]
                   @ quote_remote_path p # map single_quote as)"
  by (cases "sa_user opts"; cases "sa_port opts")
     (auto simp: ssh_argv_def and_then_Inr checked_Inr transpose_checked_Inr ssh_flags_def destination_def)

text \<open>What a refusal says about the options.\<close>

definition ssh_refusal_names :: "ssh_options \<Rightarrow> ssh_argv_error \<Rightarrow> bool" where
  "ssh_refusal_names opts e =
     (case e of
        SshHost h \<Rightarrow> h = sa_host opts \<and> refused_word h
      | SshUser u \<Rightarrow> sa_user opts = Some u \<and> refused_word u
      | SshConnectTimeoutSeconds s \<Rightarrow> s = sa_connect_timeout_seconds opts \<and> s = 0
      | SshCommand c \<Rightarrow> c = sa_command opts \<and> (case c of [] \<Rightarrow> True | p # _ \<Rightarrow> p = [])
      | SshPort n \<Rightarrow> sa_port opts = Some n \<and> n = 0)"

lemma checked_Inl:
  "checked_host h = Inl e \<longleftrightarrow> e = SshHost h \<and> refused_word h"
  "checked_user u = Inl e \<longleftrightarrow> e = SshUser u \<and> refused_word u"
  "checked_timeout s = Inl e \<longleftrightarrow> e = SshConnectTimeoutSeconds s \<and> s = 0"
  "checked_port n = Inl e \<longleftrightarrow> e = SshPort n \<and> n = 0"
  "checked_command c = Inl e \<longleftrightarrow> e = SshCommand c \<and> (case c of [] \<Rightarrow> True | p # _ \<Rightarrow> p = [])"
  by (auto simp: checked_host_def checked_user_def checked_timeout_def checked_port_def
      checked_command_def PORT_MIN_def word_less_1 split: list.splits)

lemma ssh_argv_Inl: "ssh_argv opts = Inl e \<Longrightarrow> ssh_refusal_names opts e"
  by (auto simp: ssh_argv_def and_then_Inl checked_Inl transpose_checked_def ssh_refusal_names_def
      split: option.splits)

lemma ssh_argv_remote_words:
  assumes "ssh_argv opts = Inr argv"
  shows "\<exists>p as dest remote. sa_command opts = p # as
           \<and> argv = ssh_flags opts @ [''--'', dest] @ remote
           \<and> dest = destination (sa_user opts) (sa_host opts) \<and> \<not> refused_word dest
           \<and> sh_read (join_with CHR 0x20 remote) = Some (path_word p # map literal as)"
proof -
  obtain p as where c: "sa_command opts = p # as"
    and ok: "\<not> refused_word (sa_host opts)" "\<forall>u. sa_user opts = Some u \<longrightarrow> \<not> refused_word u"
    and argv: "argv = ssh_flags opts @ [''--'', destination (sa_user opts) (sa_host opts)]
                 @ quote_remote_path p # map single_quote as"
    using assms unfolding ssh_argv_Inr by blast
  show ?thesis
    using c argv destination_not_refused [OF ok] sh_read_command [of p as] by auto
qed

text \<open>
  C25: The \<open>ssh\<close> preset launches what it was asked for and nothing else.  It accepts exactly the
  options with a usable host, user, timeout, port and remote path, and a refusal names the field that
  is at fault.  The argv it builds is the fixed options, then \<open>--\<close>, then a destination that cannot be
  read as an option or split at whitespace, and then words which, joined with spaces as \<open>ssh\<close> joins
  them, a POSIX shell reads back as exactly the command asked for, every character quoted except a
  leading \<open>~/\<close> of the path.
\<close>

theorem ssh_argv_runs_exactly:
  "(is_ok (ssh_argv opts) \<longleftrightarrow>
      sa_command opts \<noteq> [] \<and> hd (sa_command opts) \<noteq> [] \<and> \<not> refused_word (sa_host opts)
      \<and> pred_option (\<lambda>u. \<not> refused_word u) (sa_user opts)
      \<and> sa_connect_timeout_seconds opts \<noteq> 0 \<and> sa_port opts \<noteq> Some 0)
   \<and> (case ssh_argv opts of
        Inl e \<Rightarrow> ssh_refusal_names opts e
      | Inr argv \<Rightarrow> \<exists>p as dest remote. sa_command opts = p # as
          \<and> argv = ssh_flags opts @ [''--'', dest] @ remote
          \<and> dest = destination (sa_user opts) (sa_host opts) \<and> \<not> refused_word dest
          \<and> sh_read (join_with CHR 0x20 remote) = Some (path_word p # map literal as))"
proof
  have "is_ok (ssh_argv opts) \<longleftrightarrow> (\<exists>argv. ssh_argv opts = Inr argv)"
    by (cases "ssh_argv opts") (simp_all add: is_ok_def)
  then show "is_ok (ssh_argv opts) \<longleftrightarrow>
      sa_command opts \<noteq> [] \<and> hd (sa_command opts) \<noteq> [] \<and> \<not> refused_word (sa_host opts)
      \<and> pred_option (\<lambda>u. \<not> refused_word u) (sa_user opts)
      \<and> sa_connect_timeout_seconds opts \<noteq> 0 \<and> sa_port opts \<noteq> Some 0"
    unfolding ssh_argv_Inr
    by (cases "sa_command opts"; cases "sa_user opts"; cases "sa_port opts")
       (auto simp: unat_gt_0)
qed (use ssh_argv_Inl ssh_argv_remote_words in \<open>simp split: sum.split\<close>)

end
