(* ===== verification/Spawn.thy ===== *)
theory Spawn
  imports Ssh Ndjson_Port
begin

text \<open>
  The spawn launcher (\<open>transports/spawn.rs\<close>): the environment a child inherits, the tail of its stderr,
  the task that reaps it, the termination sequence, and the port and handle a launch gives.

  The operating system is the environment: whether the child starts, what it writes and when it exits
  are arguments.  A path is its text, an \<open>OsString\<close> that is not UTF-8 is None, \<open>upper\<close> stands for
  \<open>str::to_uppercase\<close> (Unicode's tables), an \<open>io::ErrorKind\<close> is a number, and a stderr reader is named
  by a number.
\<close>

section \<open>The environment of a child\<close>

definition DEFAULT_STDERR_TAIL_BYTES :: nat where "DEFAULT_STDERR_TAIL_BYTES = 16 * 1024"
definition DEFAULT_TERMINATE_GRACE :: duration where "DEFAULT_TERMINATE_GRACE = from_secs 2"
definition DEFAULT_KILL_GRACE :: duration where "DEFAULT_KILL_GRACE = from_secs 2"
definition DEFAULT_EXIT_GRACE :: duration where "DEFAULT_EXIT_GRACE = from_secs 2"
definition DEFAULT_START_ERROR_GRACE :: duration where "DEFAULT_START_ERROR_GRACE = from_millis 250"

definition ENV_ALLOWLIST :: "string list" where
  "ENV_ALLOWLIST = [''PATH'', ''HOME'', ''USERPROFILE'', ''SYSTEMROOT'', ''TEMP'', ''TMP'', ''TMPDIR'', ''LANG'',
     ''TERM'', ''SHELL'', ''XDG_RUNTIME_DIR'']"

definition LOCALE_PREFIX :: string where "LOCALE_PREFIX = ''LC_''"
definition SECRET_SUFFIXES :: "string list" where "SECRET_SUFFIXES = [''_TOKEN'', ''_SECRET'', ''_KEY'']"
definition SECRET_SUBSTRING :: string where "SECRET_SUBSTRING = ''PASSWORD''"

definition ends_with :: "string \<Rightarrow> string \<Rightarrow> bool" where
  "ends_with p s = (length p \<le> length s \<and> drop (length s - length p) s = p)"

fun contains_str :: "string \<Rightarrow> string \<Rightarrow> bool" where
  "contains_str p [] = (p = [])"
| "contains_str p (c # cs) = (starts_with p (c # cs) \<or> contains_str p cs)"

definition is_secret_shaped :: "string \<Rightarrow> bool" where
  "is_secret_shaped upper =
     (list_ex (\<lambda>suffix. ends_with suffix upper) SECRET_SUFFIXES \<or> contains_str SECRET_SUBSTRING upper)"

type_synonym env = "(string, string) bmap"

text \<open>The loop over the source, and \<open>BTreeMap::extend\<close>.\<close>

definition keep_var :: "(string \<Rightarrow> string) \<Rightarrow> string \<times> string \<Rightarrow> env \<Rightarrow> env" where
  "keep_var upper var kept =
     (case var of (name, value) \<Rightarrow>
        let up = upper name in
        if \<not> List.member ENV_ALLOWLIST up \<and> \<not> starts_with LOCALE_PREFIX up then kept
        else if is_secret_shaped up then kept
        else bm_insert name value kept)"

definition bm_extend :: "(string \<times> string) list \<Rightarrow> env \<Rightarrow> env" where
  "bm_extend extra m = fold (\<lambda>(name, value). bm_insert name value) extra m"

definition sanitized_env_from :: "(string \<Rightarrow> string) \<Rightarrow> (string \<times> string) list \<Rightarrow> (string \<times> string) list \<Rightarrow> env" where
  "sanitized_env_from upper source extra = bm_extend extra (fold (keep_var upper) source [])"

definition utf8_vars :: "(string option \<times> string option) list \<Rightarrow> (string \<times> string) list" where
  "utf8_vars source =
     List.map_filter (\<lambda>(name, value). case (name, value) of (Some n, Some v) \<Rightarrow> Some (n, v) | _ \<Rightarrow> None) source"

text \<open>\<open>vars_os\<close> is this process's own environment.\<close>

definition sanitized_env :: "(string \<Rightarrow> string) \<Rightarrow> (string option \<times> string option) list \<Rightarrow> (string \<times> string) list \<Rightarrow> env" where
  "sanitized_env upper vars_os extra = sanitized_env_from upper (utf8_vars vars_os) extra"

section \<open>Options\<close>

record spawn_options =
  so_argv :: "string list"
  so_cwd :: "string option"
  so_env :: "env option"
  so_max_frame_bytes :: "nat option"
  so_stderr_tail_bytes :: nat
  so_terminate_grace :: duration
  so_kill_grace :: duration
  so_exit_grace :: duration
  so_on_stderr :: "nat option"
  so_windows_hide :: bool

definition spawn_options_new :: "string list \<Rightarrow> spawn_options" where
  "spawn_options_new argv =
     \<lparr>so_argv = argv, so_cwd = None, so_env = None, so_max_frame_bytes = None,
      so_stderr_tail_bytes = DEFAULT_STDERR_TAIL_BYTES, so_terminate_grace = DEFAULT_TERMINATE_GRACE,
      so_kill_grace = DEFAULT_KILL_GRACE, so_exit_grace = DEFAULT_EXIT_GRACE, so_on_stderr = None,
      so_windows_hide = True\<rparr>"

definition so_with_cwd :: "string \<Rightarrow> spawn_options \<Rightarrow> spawn_options" where
  "so_with_cwd cwd opts = opts\<lparr>so_cwd := Some cwd\<rparr>"

definition so_with_env :: "env \<Rightarrow> spawn_options \<Rightarrow> spawn_options" where
  "so_with_env e opts = opts\<lparr>so_env := Some e\<rparr>"

definition so_with_max_frame_bytes :: "nat \<Rightarrow> spawn_options \<Rightarrow> string + spawn_options" where
  "so_with_max_frame_bytes max_frame_bytes opts =
     and_then (check_max_frame_bytes max_frame_bytes) (\<lambda>m. Inr (opts\<lparr>so_max_frame_bytes := Some m\<rparr>))"

definition so_with_exit_grace :: "duration \<Rightarrow> spawn_options \<Rightarrow> spawn_options" where
  "so_with_exit_grace exit_grace opts = opts\<lparr>so_exit_grace := exit_grace\<rparr>"

definition so_with_on_stderr :: "nat \<Rightarrow> spawn_options \<Rightarrow> spawn_options" where
  "so_with_on_stderr reader opts = opts\<lparr>so_on_stderr := Some reader\<rparr>"

definition spawn_argv_error_display :: "string list \<Rightarrow> string" where
  "spawn_argv_error_display argv =
     ''spawn argv is '' @ debug_strs argv @ ''; expected [command, ...args] with a non-empty command''"

text \<open>What \<open>start\<close> hands the operating system.\<close>

record os_command =
  oc_program :: string
  oc_args :: "string list"
  oc_env :: env
  oc_cwd :: "string option"

definition start_command :: "(string \<Rightarrow> string) \<Rightarrow> (string option \<times> string option) list \<Rightarrow> string \<Rightarrow> spawn_options \<Rightarrow> os_command" where
  "start_command upper vars_os command opts =
     \<lparr>oc_program = command, oc_args = drop 1 (so_argv opts),
      oc_env = (case so_env opts of Some e \<Rightarrow> bm_extend e [] | None \<Rightarrow> bm_extend (sanitized_env upper vars_os []) []),
      oc_cwd = so_cwd opts\<rparr>"

section \<open>The tail of stderr\<close>

record bounded_tail =
  bt_bytes :: "byte list"
  bt_limit :: nat

definition bounded_tail_new :: "nat \<Rightarrow> bounded_tail" where
  "bounded_tail_new limit = \<lparr>bt_bytes = [], bt_limit = max limit 1\<rparr>"

definition bt_append :: "byte list \<Rightarrow> bounded_tail \<Rightarrow> bounded_tail" where
  "bt_append chunk t =
     (let bytes = bt_bytes t @ chunk in
      if length bytes > bt_limit t then t\<lparr>bt_bytes := drop (length bytes - bt_limit t) bytes\<rparr>
      else t\<lparr>bt_bytes := bytes\<rparr>)"

definition bt_text :: "bounded_tail \<Rightarrow> string" where
  "bt_text t = from_utf8_lossy (bt_bytes t)"

definition append_line :: "string \<Rightarrow> bounded_tail \<Rightarrow> bounded_tail" where
  "append_line txt t = bt_append (bytes_of ([CHR 0x0A] @ txt @ [CHR 0x0A])) t"

text \<open>\<open>drain_stderr\<close>: until a read gives nothing or fails; the reader sees every chunk.\<close>

fun drain_stderr :: "read_event list \<Rightarrow> bounded_tail \<Rightarrow> bounded_tail \<times> byte list list" where
  "drain_stderr [] t = (t, [])"
| "drain_stderr (ReadFailed _ # evs) t = (t, [])"
| "drain_stderr (ReadBytes bytes # evs) t =
     (if bytes = [] then (t, [])
      else case drain_stderr evs (bt_append bytes t) of (t', seen) \<Rightarrow> (t', bytes # seen))"

section \<open>Reaping and signalling\<close>

datatype kill_request = Terminate | Kill

definition exit_status_default :: exit_status where
  "exit_status_default = \<lparr>ex_code = None, ex_signal = None\<rparr>"

text \<open>The POSIX signals \<open>deliver\<close> sends for a request; a pid beyond \<open>i32\<close> is not signalled gently.\<close>

definition terminate_gently :: "u32 \<Rightarrow> int list" where
  "terminate_gently pid = (if unat pid < 2 ^ 31 then [15] else [])"

definition deliver :: "u32 \<Rightarrow> kill_request \<Rightarrow> int list" where
  "deliver pid request = (case request of Kill \<Rightarrow> [9] | Terminate \<Rightarrow> terminate_gently pid)"

text \<open>What the reaping task wakes for: the child's exit (None when waiting failed), a request, or no askers left.\<close>

datatype reap_event = ChildExited "exit_status option" | KillAsked kill_request | AskersGone

fun wait_only :: "reap_event list \<Rightarrow> exit_status option" where
  "wait_only [] = None"
| "wait_only (ChildExited st # evs) = Some (case st of Some s \<Rightarrow> s | None \<Rightarrow> exit_status_default)"
| "wait_only (_ # evs) = wait_only evs"

fun reap :: "u32 \<Rightarrow> reap_event list \<Rightarrow> int list \<times> exit_status option" where
  "reap pid [] = ([], None)"
| "reap pid (ChildExited st # evs) = ([], Some (case st of Some s \<Rightarrow> s | None \<Rightarrow> exit_status_default))"
| "reap pid (KillAsked request # evs) = (case reap pid evs of (signals, exit) \<Rightarrow> (deliver pid request @ signals, exit))"
| "reap pid (AskersGone # evs) = ([], wait_only evs)"

section \<open>The termination sequence\<close>

text \<open>
  The exit watch over time: when the child's exit lands, or the sender is lost, if ever.  What the
  child does may depend on the requests sent and when.
\<close>

datatype exit_watch = ExitAt duration exit_status | SenderLost duration | NoExit

type_synonym child = "(kill_request \<times> duration) list \<Rightarrow> exit_watch"

text \<open>\<open>settled_within\<close> from \<open>now\<close>: the status if one lands in the grace, and when the call returns.\<close>

definition settled_within :: "exit_watch \<Rightarrow> duration \<Rightarrow> duration \<Rightarrow> exit_status option \<times> duration" where
  "settled_within watch now grace =
     (case watch of
        ExitAt at status \<Rightarrow> if at \<le> now + grace then (Some status, max now at) else (None, now + grace)
      | SenderLost at \<Rightarrow> if at \<le> now + grace then (None, max now at) else (None, now + grace)
      | NoExit \<Rightarrow> (None, now + grace))"

datatype termination_outcome = TermPending | TermExited exit_status | TermGaveUp

text \<open>\<open>tm_live\<close> is whether there is a child to signal and an exit to wait for.\<close>

record terminator =
  tm_live :: bool
  tm_terminate_grace :: duration
  tm_kill_grace :: duration
  tm_exit_grace :: duration
  tm_started :: bool
  tm_outcome :: termination_outcome

definition terminator_new :: "duration \<Rightarrow> duration \<Rightarrow> duration \<Rightarrow> terminator" where
  "terminator_new terminate_grace kill_grace exit_grace =
     \<lparr>tm_live = True, tm_terminate_grace = terminate_grace, tm_kill_grace = kill_grace,
      tm_exit_grace = exit_grace, tm_started = False, tm_outcome = TermPending\<rparr>"

definition terminator_unspawned :: terminator where
  "terminator_unspawned =
     \<lparr>tm_live = False, tm_terminate_grace = 0, tm_kill_grace = 0, tm_exit_grace = 0, tm_started = True,
      tm_outcome = TermExited exit_status_default\<rparr>"

text \<open>The flag is whether the call spawned the escalation.\<close>

definition term_start :: "terminator \<Rightarrow> terminator \<times> bool" where
  "term_start t = (if tm_started t then (t, False) else (t\<lparr>tm_started := True\<rparr>, True))"

text \<open>\<open>escalate\<close> from \<open>now\<close>: its result, when it returns, and the requests it sent.\<close>

definition escalate :: "terminator \<Rightarrow> child \<Rightarrow> duration \<Rightarrow> exit_status option \<times> duration \<times> (kill_request \<times> duration) list" where
  "escalate t child now =
     (if \<not> tm_live t then (Some exit_status_default, now, [])
      else case settled_within (child []) now (tm_terminate_grace t) of
        (Some status, at) \<Rightarrow> (Some status, at, [])
      | (None, at) \<Rightarrow>
          let asked = [(Terminate, at)] in
          case settled_within (child asked) at (tm_kill_grace t) of
            (Some status, at) \<Rightarrow> (Some status, at, asked)
          | (None, at) \<Rightarrow>
              let made = asked @ [(Kill, at)] in
              case settled_within (child made) at (tm_exit_grace t) of
                (exit, at) \<Rightarrow> (exit, at, made))"

definition term_finish :: "exit_status option \<Rightarrow> terminator \<Rightarrow> terminator" where
  "term_finish result t =
     t\<lparr>tm_outcome := (case result of Some status \<Rightarrow> TermExited status | None \<Rightarrow> TermGaveUp)\<rparr>"

definition term_outcome :: "terminator \<Rightarrow> exit_status option poll" where
  "term_outcome t =
     (case tm_outcome t of
        TermExited status \<Rightarrow> Polled (Some status)
      | TermGaveUp \<Rightarrow> Polled None
      | TermPending \<Rightarrow> Pending)"

section \<open>A launch\<close>

datatype port_kind = LivePort ndjson_port | UnspawnedPort string

record launch =
  la_pid :: "u32 option"
  la_exit :: "exit_status option"
  la_tail :: bounded_tail
  la_spawn_error :: "nat option"
  la_kills :: "kill_request list"
  la_terminator :: terminator
  la_port :: port_kind

definition spawn_port_unspawned :: "string \<Rightarrow> port_kind" where
  "spawn_port_unspawned why = UnspawnedPort (if why = [] then ''the child process never started'' else why)"

text \<open>
  \<open>spawn_port\<close>, given what the operating system answered \<open>start\<close>: the error's text and kind, or the
  pid.  The outer \<open>Inl\<close> is a panic, the inner one the refused argv.
\<close>

definition spawn_port :: "(string \<times> nat) + u32 \<Rightarrow> spawn_options \<Rightarrow> string + (string list + launch)" where
  "spawn_port started opts =
     and_then (case so_max_frame_bytes opts of Some m \<Rightarrow> check_max_frame_bytes m | None \<Rightarrow> Inr 0)
     (\<lambda>_.
      if so_argv opts = [] \<or> hd (so_argv opts) = [] then Inr (Inl (so_argv opts))
      else
        let tail = bounded_tail_new (so_stderr_tail_bytes opts) in
        case started of
          Inl (error, kind) \<Rightarrow>
            let tail = append_line error tail
            in Inr (Inr \<lparr>la_pid = None, la_exit = Some exit_status_default, la_tail = tail,
                 la_spawn_error = Some kind, la_kills = [], la_terminator = terminator_unspawned,
                 la_port = spawn_port_unspawned (str_trim (bt_text tail))\<rparr>)
        | Inr pid \<Rightarrow>
            and_then (case so_max_frame_bytes opts of
                        Some limit \<Rightarrow> np_with_max_frame_bytes limit ndjson_port_new
                      | None \<Rightarrow> Inr ndjson_port_new)
              (\<lambda>port. Inr (Inr \<lparr>la_pid = Some pid, la_exit = None, la_tail = tail, la_spawn_error = None, la_kills = [],
                 la_terminator = terminator_new (so_terminate_grace opts) (so_kill_grace opts) (so_exit_grace opts),
                 la_port = LivePort port\<rparr>)))"

definition lp_stderr_tail :: "launch \<Rightarrow> string" where
  "lp_stderr_tail l = bt_text (la_tail l)"

definition lp_exited :: "launch \<Rightarrow> exit_status poll" where
  "lp_exited l = (case la_exit l of Some status \<Rightarrow> Polled status | None \<Rightarrow> Pending)"

record spawn_start_error =
  sse_exit :: "exit_status option"
  sse_spawn_error :: "nat option"
  sse_stderr_line :: string

definition lp_start_error :: "exit_watch \<Rightarrow> duration \<Rightarrow> duration option \<Rightarrow> launch \<Rightarrow> spawn_start_error" where
  "lp_start_error watch now grace l =
     \<lparr>sse_exit = fst (settled_within watch now (case grace of Some g \<Rightarrow> g | None \<Rightarrow> DEFAULT_START_ERROR_GRACE)),
      sse_spawn_error = la_spawn_error l,
      sse_stderr_line = (case last_non_empty_line (lp_stderr_tail l) of Some line \<Rightarrow> line | None \<Rightarrow> [])\<rparr>"

text \<open>\<open>terminate\<close>: the call that starts the sequence, and a poll of what it waits for.\<close>

definition lp_terminate_start :: "launch \<Rightarrow> launch" where
  "lp_terminate_start l = l\<lparr>la_terminator := fst (term_start (la_terminator l))\<rparr>"

definition lp_terminate_poll :: "launch \<Rightarrow> exit_status option poll" where
  "lp_terminate_poll l =
     (case term_outcome (la_terminator l) of
        Polled (Some status) \<Rightarrow> Polled (Some status)
      | Polled None \<Rightarrow> Polled (la_exit l)
      | Pending \<Rightarrow> Pending)"

definition lp_kill :: "launch \<Rightarrow> launch" where
  "lp_kill l = l\<lparr>la_kills := la_kills l @ [Kill]\<rparr>"

section \<open>The port's halves\<close>

definition spawn_max_frame_bytes :: "port_kind \<Rightarrow> nat option" where
  "spawn_max_frame_bytes kind =
     (case kind of LivePort port \<Rightarrow> Some (np_max_frame_bytes port) | UnspawnedPort _ \<Rightarrow> None)"

record spawn_tx =
  st_inner :: "nat option"
  st_terminator :: terminator

record spawn_rx =
  sr_inner :: "nx_state option"
  sr_closure :: "string option"
  sr_terminator :: terminator

text \<open>\<open>split\<close>: the live sending half is its frame limit, the live receiving half what it will read.\<close>

definition spawn_split :: "launch \<Rightarrow> read_event list \<Rightarrow> string + spawn_tx \<times> spawn_rx" where
  "spawn_split l reads =
     (let t = la_terminator l in
      case la_port l of
        LivePort port \<Rightarrow>
          and_then (np_split port)
            (\<lambda>rx. Inr (\<lparr>st_inner = Some (np_max_frame_bytes port), st_terminator = t\<rparr>,
                       \<lparr>sr_inner = Some (rx, np_writer port, reads), sr_closure = None, sr_terminator = t\<rparr>))
      | UnspawnedPort why \<Rightarrow>
          Inr (\<lparr>st_inner = None, st_terminator = t\<rparr>,
               \<lparr>sr_inner = None, sr_closure = Some why, sr_terminator = t\<rparr>))"

definition stx_send :: "serde_json \<Rightarrow> spawn_tx \<Rightarrow> frame \<Rightarrow> write_result \<Rightarrow> shared_writer \<Rightarrow> shared_writer \<times> send_outcome" where
  "stx_send S tx frame res w =
     (case st_inner tx of Some m \<Rightarrow> ntx_send S m frame res w | None \<Rightarrow> (w, SendClosed))"

definition stx_close :: "serde_json \<Rightarrow> spawn_tx \<Rightarrow> u16 \<Rightarrow> string option \<Rightarrow> write_result \<Rightarrow> shared_writer \<Rightarrow> shared_writer \<times> terminator" where
  "stx_close S tx code reason res w =
     (case st_inner tx of Some m \<Rightarrow> sw_end S w code reason m res | None \<Rightarrow> w, fst (term_start (st_terminator tx)))"

definition srx_recv :: "serde_json \<Rightarrow> write_result \<Rightarrow> spawn_rx \<Rightarrow> spawn_rx \<times> inbound option poll" where
  "srx_recv S res rx =
     (case sr_inner rx of
        None \<Rightarrow> (rx\<lparr>sr_closure := None\<rparr>,
                 Polled (map_option (\<lambda>why. InClosed (PortClosed None (Some why))) (sr_closure rx)))
      | Some inner \<Rightarrow>
          (case nx_step S res inner of
             (inner', item) \<Rightarrow>
               let rx = rx\<lparr>sr_inner := Some inner'\<rparr>
               in (case item of
                     Polled (Some (InClosed _)) \<Rightarrow> rx\<lparr>sr_terminator := fst (term_start (sr_terminator rx))\<rparr>
                   | _ \<Rightarrow> rx, item)))"

end
