(* ===== verification/Spawn_Laws.thy ===== *)
theory Spawn_Laws
  imports Spawn
begin

text \<open>
  Laws of the spawn launcher: what a child may inherit, what is kept of its stderr, that the
  termination sequence is bounded and escalates in order and once, and that a launch which never
  became a process closes cleanly.
\<close>

section \<open>The environment\<close>

definition inheritable :: "(string \<Rightarrow> string) \<Rightarrow> string \<Rightarrow> bool" where
  "inheritable upper name \<longleftrightarrow>
     (upper name \<in> set ENV_ALLOWLIST \<or> starts_with LOCALE_PREFIX (upper name)) \<and> \<not> is_secret_shaped (upper name)"

lemma keep_var_get:
  "bm_get (keep_var upper (name, value) kept) =
     (if inheritable upper name then (bm_get kept)(name \<mapsto> value) else bm_get kept)"
  by (simp add: keep_var_def inheritable_def Let_def)

lemma keep_vars_get:
  "bm_get (fold (keep_var upper) source kept) =
     bm_get kept ++ map_of (rev (filter (\<lambda>(name, _). inheritable upper name) source))"
proof (induction source arbitrary: kept)
  case (Cons var source)
  then show ?case by (cases var) (auto simp: keep_var_get map_add_def fun_eq_iff split: option.splits)
qed simp

lemma bm_extend_get: "bm_get (bm_extend extra m) = bm_get m ++ map_of (rev extra)"
  unfolding bm_extend_def
proof (induction extra arbitrary: m)
  case (Cons var extra)
  then show ?case by (cases var) (auto simp: map_add_def fun_eq_iff split: option.splits)
qed simp

lemma keep_vars_wf: "bm_wf kept \<Longrightarrow> bm_wf (fold (keep_var upper) source kept)"
  by (induction source arbitrary: kept) (auto simp: keep_var_def Let_def)

lemma bm_extend_wf: "bm_wf m \<Longrightarrow> bm_wf (bm_extend extra m)"
  unfolding bm_extend_def by (induction extra arbitrary: m) auto

lemma inherited_get:
  "map_of (rev (filter (\<lambda>(name, _). inheritable upper name) source)) name =
     (if inheritable upper name then map_of (rev source) name else None)"
  by (induction source rule: rev_induct) (auto split: prod.splits)

lemma sanitized_env_get:
  "bm_get (sanitized_env upper vars_os extra) name =
     (case map_of (rev extra) name of
        Some value \<Rightarrow> Some value
      | None \<Rightarrow> if inheritable upper name then map_of (rev (utf8_vars vars_os)) name else None)"
  by (simp add: sanitized_env_def sanitized_env_from_def bm_extend_get keep_vars_get map_add_def inherited_get
      split: option.split)

lemma sanitized_env_wf: "bm_wf (sanitized_env upper vars_os extra)"
  by (simp add: sanitized_env_def sanitized_env_from_def bm_extend_wf keep_vars_wf)

lemma map_of_rev_distinct: "distinct (map fst xs) \<Longrightarrow> map_of (rev xs) = map_of xs"
  by (rule map_of_eqI) (auto simp: map_of_eq_Some_iff rev_map [symmetric])

lemma extend_copy: "bm_wf e \<Longrightarrow> bm_get (bm_extend e []) = bm_get e"
  by (auto simp: fun_eq_iff bm_extend_get bm_get_def bm_wf_def map_add_def map_of_rev_distinct strict_sorted_iff
      split: option.split)

text \<open>
  C21: The environment of the command \<open>start\<close> launches is exactly what the options allow.  Without an
  \<open>env\<close> a name has this process's value when its upper-case form is on the allowlist or a locale
  variable and is not shaped like a secret, and is absent otherwise; a variable whose name or value is
  not UTF-8 is never passed.  With an \<open>env\<close> the child has that map and nothing of this process beside
  it; when the map is \<open>sanitized_env\<close> of the caller's extras a name has the caller's last value, or else
  the inherited one.  So a secret-shaped name reaches the child only if it is in the caller's own map.
\<close>

theorem child_env_exact:
  "(so_env opts = None \<longrightarrow>
      bm_get (oc_env (start_command upper vars_os command opts)) name =
        (if inheritable upper name then map_of (rev (utf8_vars vars_os)) name else None))
   \<and> (\<forall>e. so_env opts = Some e \<and> bm_wf e \<longrightarrow>
        bm_get (oc_env (start_command upper vars_os command opts)) name = bm_get e name)
   \<and> (so_env opts = Some (sanitized_env upper vars_os extra) \<longrightarrow>
        bm_get (oc_env (start_command upper vars_os command opts)) name =
          (case map_of (rev extra) name of
             Some value \<Rightarrow> Some value
           | None \<Rightarrow> if inheritable upper name then map_of (rev (utf8_vars vars_os)) name else None))
   \<and> (is_secret_shaped (upper name) \<and> (\<forall>e. so_env opts = Some e \<longrightarrow> bm_wf e \<and> bm_get e name = None) \<longrightarrow>
        bm_get (oc_env (start_command upper vars_os command opts)) name = None)"
  by (cases "so_env opts")
     (auto simp: start_command_def extend_copy sanitized_env_wf sanitized_env_get inheritable_def split: option.split)

text \<open>An upper-casing that is right on ASCII, for the example.\<close>

definition ascii_upper :: "string \<Rightarrow> string" where
  "ascii_upper s = map (\<lambda>c. if CHR ''a'' \<le> c \<and> c \<le> CHR ''z'' then char_of ((of_char c :: nat) - 32) else c) s"

definition example_vars :: "(string option \<times> string option) list" where
  "example_vars = [(Some ''Path'', Some ''/bin''), (Some ''LC_API_KEY'', Some ''shh''), (None, Some ''x'')]"

theorem child_env_exact_witness:
  "bm_get (oc_env (start_command ascii_upper example_vars ''cat'' (spawn_options_new [''cat'']))) ''LC_API_KEY'' = None
   \<and> bm_get (oc_env (start_command ascii_upper example_vars ''cat'' (spawn_options_new [''cat'']))) ''Path'' = Some ''/bin''
   \<and> bm_get (oc_env (start_command ascii_upper example_vars ''cat''
         (so_with_env (sanitized_env ascii_upper example_vars [(''EDITOR'', ''vi'')]) (spawn_options_new [''cat''])))) ''EDITOR''
       = Some ''vi''"
proof -
  have none: "so_env (spawn_options_new [''cat'']) = None" by (simp add: spawn_options_new_def)
  have some: "so_env (so_with_env e (spawn_options_new [''cat''])) = Some e" for e by (simp add: so_with_env_def)
  have secret: "is_secret_shaped (ascii_upper ''LC_API_KEY'')" by code_simp
  have path: "inheritable ascii_upper ''Path''" "map_of (rev (utf8_vars example_vars)) ''Path'' = Some ''/bin''"
    by code_simp+
  have "bm_get (oc_env (start_command ascii_upper example_vars ''cat'' (spawn_options_new [''cat'']))) ''LC_API_KEY'' = None"
    using child_env_exact [of "spawn_options_new [''cat'']" ascii_upper example_vars "''cat''" "''LC_API_KEY''"] none secret
    by (metis option.distinct(1))
  moreover have "bm_get (oc_env (start_command ascii_upper example_vars ''cat'' (spawn_options_new [''cat'']))) ''Path'' = Some ''/bin''"
    using child_env_exact [of "spawn_options_new [''cat'']" ascii_upper example_vars "''cat''" "''Path''"] none path by simp
  moreover have "map_of (rev [(''EDITOR'', ''vi'')]) ''EDITOR'' = Some ''vi''" by simp
  ultimately show ?thesis
    using child_env_exact [of "so_with_env (sanitized_env ascii_upper example_vars [(''EDITOR'', ''vi'')]) (spawn_options_new [''cat''])"
        ascii_upper example_vars "''cat''" "''EDITOR''" "[(''EDITOR'', ''vi'')]"] some
    by (metis option.simps(5))
qed

section \<open>The tail\<close>

lemma bt_append_last:
  "bt_bytes t = drop (length whole - bt_limit t) whole \<Longrightarrow>
     bt_bytes (bt_append chunk t) = drop (length (whole @ chunk) - bt_limit t) (whole @ chunk)
     \<and> bt_limit (bt_append chunk t) = bt_limit t"
  by (cases "length whole \<le> bt_limit t"; cases "chunk = []") (auto simp: bt_append_def Let_def add.commute)

text \<open>However stderr arrives, the tail is exactly its last bytes, at most the limit of them, and a reader saw all of it.\<close>

theorem stderr_tail_is_last_bytes:
  "drain_stderr evs (bounded_tail_new limit) = (t, seen) \<Longrightarrow>
     bt_bytes t = drop (length (concat seen) - max limit 1) (concat seen) \<and> length (bt_bytes t) \<le> max limit 1"
proof -
  have gen: "drain_stderr evs t0 = (t, seen) \<Longrightarrow> bt_bytes t0 = drop (length whole - bt_limit t0) whole \<Longrightarrow>
      bt_bytes t = drop (length (whole @ concat seen) - bt_limit t0) (whole @ concat seen)" for t0 whole
  proof (induction evs t0 arbitrary: whole seen rule: drain_stderr.induct)
    case (3 bytes evs t0)
    show ?case
    proof (cases "bytes = []")
      case True
      with 3 show ?thesis by simp
    next
      case False
      obtain rest where rest: "drain_stderr evs (bt_append bytes t0) = (t, rest)" "seen = bytes # rest"
        using 3(2) False by (auto split: prod.splits)
      from "3.IH" [OF False rest(1), of "whole @ bytes"] bt_append_last [OF 3(3), of bytes] rest(2)
      show ?thesis by simp
    qed
  qed auto
  assume "drain_stderr evs (bounded_tail_new limit) = (t, seen)"
  from gen [OF this, of "[]"] show ?thesis by (simp add: bounded_tail_new_def)
qed

section \<open>Termination\<close>

lemma settled_within_time:
  "settled_within watch now grace = (exit, at) \<Longrightarrow> now \<le> at \<and> at \<le> now + grace"
  by (auto simp: settled_within_def split: exit_watch.splits if_splits)

text \<open>A watch on which nothing but an exit can settle: the reaping task always reports before it ends.\<close>

definition never_lost :: "exit_watch \<Rightarrow> bool" where
  "never_lost watch = (case watch of SenderLost _ \<Rightarrow> False | _ \<Rightarrow> True)"

lemma settled_within_None:
  "settled_within watch now grace = (None, at) \<Longrightarrow> never_lost watch \<Longrightarrow> at = now + grace"
  by (auto simp: settled_within_def never_lost_def split: exit_watch.splits if_splits)

text \<open>
  C20: The termination sequence escalates in order and is bounded, whatever the child does.  It returns
  within the three graces; it asks at most once, and only after a whole grace in which the child did not
  leave on its own, and kills at most once, a whole grace after asking; it gives up only when both were
  sent and the exit did not land in the last grace; and a child that leaves within a grace of the kill
  is reported with its status.
\<close>

theorem termination_bounded:
  assumes "escalate t child now = (exit, at, sent)" and "tm_live t" and "\<forall>asked. never_lost (child asked)"
  shows "at \<le> now + tm_terminate_grace t + tm_kill_grace t + tm_exit_grace t
    \<and> (let asked = now + tm_terminate_grace t; killed = asked + tm_kill_grace t in
         sent \<in> {[], [(Terminate, asked)], [(Terminate, asked), (Kill, killed)]}
         \<and> (exit = None \<longrightarrow> sent = [(Terminate, asked), (Kill, killed)] \<and> at = killed + tm_exit_grace t)
         \<and> (\<forall>left status. child [(Terminate, asked), (Kill, killed)] = ExitAt left status \<and> left \<le> killed + tm_exit_grace t \<longrightarrow>
              exit \<noteq> None)
         \<and> (\<forall>left status. child [] = ExitAt left status \<and> left \<le> asked \<longrightarrow> exit = Some status \<and> sent = []))"
proof -
  let ?asked = "now + tm_terminate_grace t"
  let ?killed = "?asked + tm_kill_grace t"
  obtain e1 a1 where s1: "settled_within (child []) now (tm_terminate_grace t) = (e1, a1)" by force
  show ?thesis
  proof (cases e1)
    case (Some status)
    with s1 assms(1,2) have "exit = Some status" "at = a1" "sent = []" by (simp_all add: escalate_def)
    with settled_within_time [OF s1] s1 Some show ?thesis
      by (auto simp: Let_def settled_within_def split: if_splits)
  next
    case None
    then have a1: "a1 = ?asked" using settled_within_None s1 assms(3) by blast
    obtain e2 a2 where s2: "settled_within (child [(Terminate, ?asked)]) ?asked (tm_kill_grace t) = (e2, a2)" by force
    have early: "\<forall>left status. \<not> (child [] = ExitAt left status \<and> left \<le> ?asked)"
      using s1 None by (auto simp: settled_within_def)
    show ?thesis
    proof (cases e2)
      case (Some status)
      with s1 None a1 s2 assms(1,2) have "exit = Some status" "at = a2" "sent = [(Terminate, ?asked)]"
        by (simp_all add: escalate_def)
      with settled_within_time [OF s2] early show ?thesis by (auto simp: Let_def)
    next
      case none2: None
      then have a2: "a2 = ?killed" using settled_within_None s2 assms(3) by blast
      obtain e3 a3 where s3: "settled_within (child [(Terminate, ?asked), (Kill, ?killed)]) ?killed (tm_exit_grace t) = (e3, a3)"
        by force
      have r: "exit = e3" "at = a3" "sent = [(Terminate, ?asked), (Kill, ?killed)]"
        using s1 None a1 s2 none2 a2 s3 assms(1,2) by (simp_all add: escalate_def)
      have "e3 = None \<longrightarrow> a3 = ?killed + tm_exit_grace t" using settled_within_None s3 assms(3) by blast
      moreover have "\<forall>left status. child [(Terminate, ?asked), (Kill, ?killed)] = ExitAt left status
          \<and> left \<le> ?killed + tm_exit_grace t \<longrightarrow> e3 \<noteq> None"
        using s3 by (auto simp: settled_within_def)
      ultimately show ?thesis using r settled_within_time [OF s3] early by (auto simp: Let_def)
    qed
  qed
qed

text \<open>A child that ignores the end of its stdin and the request to leave, and dies when killed.\<close>

definition stubborn_child :: child where
  "stubborn_child asked =
     (if map fst asked = [Terminate, Kill] then ExitAt (snd (last asked) + 1) \<lparr>ex_code = None, ex_signal = Some 9\<rparr> else NoExit)"

theorem termination_bounded_witness:
  "escalate (terminator_new 5 7 3) stubborn_child 100 =
     (Some \<lparr>ex_code = None, ex_signal = Some 9\<rparr>, 113, [(Terminate, 105), (Kill, 112)]) \<and> (113 :: nat) \<le> 100 + 5 + 7 + 3"
proof -
  have run: "escalate (terminator_new 5 7 3) stubborn_child 100 =
      (Some \<lparr>ex_code = None, ex_signal = Some 9\<rparr>, 113, [(Terminate, 105), (Kill, 112)])"
    by (simp add: escalate_def terminator_new_def settled_within_def stubborn_child_def Let_def)
  have "\<forall>asked. never_lost (stubborn_child asked)" by (simp add: stubborn_child_def never_lost_def)
  from termination_bounded [OF run _ this] run show ?thesis by (simp add: terminator_new_def)
qed

text \<open>
  The sequence runs once, however many of the port's halves and the handle start it, and a launch
  that never became a process has nothing to run.
\<close>

definition starts :: "nat \<Rightarrow> terminator \<Rightarrow> terminator \<times> bool list" where
  "starts n t = ((\<lambda>(t, spawned). case term_start t of (t', b) \<Rightarrow> (t', spawned @ [b])) ^^ n) (t, [])"

lemma terminator_starts_once:
  "length (filter id (snd (starts n t))) = (if tm_started t \<or> n = 0 then 0 else 1)
   \<and> (fst (starts n t)) = (if n = 0 then t else t\<lparr>tm_started := True\<rparr>)"
proof (induction n)
  case 0
  then show ?case by (simp add: starts_def)
next
  case (Suc n)
  obtain t' bs where s: "starts n t = (t', bs)" by force
  have step: "starts (Suc n) t = (case term_start t' of (t'', b) \<Rightarrow> (t'', bs @ [b]))"
    using s by (simp add: starts_def)
  show ?case
    using Suc s step by (cases "n = 0"; cases "tm_started t") (auto simp: term_start_def split: if_splits)
qed

text \<open>No signal is sent once the child has been reaped, when its pid may belong to another process.\<close>

lemma reap_signals_before_exit:
  "reap pid (evs @ ChildExited st # later) = reap pid (evs @ [ChildExited st])"
proof -
  have wait: "wait_only (es @ ChildExited st # later) = wait_only (es @ [ChildExited st])" for es
    by (induction es rule: wait_only.induct) simp_all
  show ?thesis by (induction pid evs rule: reap.induct) (simp_all add: wait)
qed

section \<open>The port\<close>

definition sr_ended :: "spawn_rx \<Rightarrow> bool" where
  "sr_ended rx = (case sr_inner rx of None \<Rightarrow> sr_closure rx = None | Some inner \<Rightarrow> nx_ended inner)"

interpretation srx: port_receiver "srx_recv S res" sr_ended for S res
proof unfold_locales
  fix s s' :: spawn_rx and c
  assume r: "srx_recv S res s = (s', Polled (Some (InClosed c)))"
  show "sr_ended s'"
  proof (cases "sr_inner s")
    case None
    with r show ?thesis by (auto simp: srx_recv_def sr_ended_def)
  next
    case (Some inner)
    obtain inner' item where step: "nx_step S res inner = (inner', item)" by (cases "nx_step S res inner")
    with r Some have "item = Polled (Some (InClosed c))" "sr_inner s' = Some inner'"
      by (auto simp: srx_recv_def Let_def split: poll.splits option.splits inbound.splits)
    with step nrx.closed_ends show ?thesis by (simp add: sr_ended_def)
  qed
next
  fix s :: spawn_rx
  assume e: "sr_ended s"
  show "srx_recv S res s = (s, Polled None)"
  proof (cases "sr_inner s")
    case None
    with e show ?thesis by (cases s) (simp add: srx_recv_def sr_ended_def)
  next
    case (Some inner)
    with e have "nx_step S res inner = (inner, Polled None)" by (simp add: sr_ended_def nrx.ended_none)
    with Some show ?thesis by (cases s) (simp add: srx_recv_def)
  qed
qed

text \<open>
  C22: A command that never became a process still gives a port and a handle that say so and never
  wait.  Its sends are refused, its \<open>recv\<close> reports one closure with the launcher's words and then
  nothing, terminating it returns at once with the empty status and spawns no escalation, and the
  error report names the kind of failure.
\<close>

theorem unspawned_launch_closes:
  assumes "spawn_port (Inl (error, kind)) opts = Inr (Inr l)" and "spawn_split l reads = Inr (tx, rx)"
  shows "stx_send S tx frame wres w = (w, SendClosed)
    \<and> (\<exists>why. why \<noteq> [] \<and> snd (recvs (srx_recv S res) (Suc n) rx) = [InClosed (PortClosed None (Some why))])
    \<and> lp_exited l = Polled exit_status_default
    \<and> lp_terminate_poll (lp_terminate_start l) = Polled (Some exit_status_default)
    \<and> \<not> snd (term_start (la_terminator l))
    \<and> sse_spawn_error (lp_start_error watch now grace l) = Some kind
    \<and> spawn_max_frame_bytes (la_port l) = None \<and> la_pid l = None"
proof -
  let ?tail = "append_line error (bounded_tail_new (so_stderr_tail_bytes opts))"
  have l: "l = \<lparr>la_pid = None, la_exit = Some exit_status_default, la_tail = ?tail, la_spawn_error = Some kind,
      la_kills = [], la_terminator = terminator_unspawned, la_port = spawn_port_unspawned (str_trim (bt_text ?tail))\<rparr>"
    using assms(1) by (auto simp: spawn_port_def and_then_Inr Let_def split: if_splits)
  obtain why where why: "spawn_port_unspawned (str_trim (bt_text ?tail)) = UnspawnedPort why" "why \<noteq> []"
    by (auto simp: spawn_port_unspawned_def)
  have halves: "st_inner tx = None" "sr_inner rx = None" "sr_closure rx = Some why"
    using assms(2) l why(1) by (auto simp: spawn_split_def Let_def)
  have step: "srx_recv S res rx = (rx\<lparr>sr_closure := None\<rparr>, Polled (Some (InClosed (PortClosed None (Some why)))))"
    using halves by (simp add: srx_recv_def)
  then have "sr_ended (rx\<lparr>sr_closure := None\<rparr>)" by (rule srx.closed_ends)
  with step have "snd (recvs (srx_recv S res) (Suc n) rx) = [InClosed (PortClosed None (Some why))]"
    by (simp add: srx.recvs_ended)
  with why(2) halves l why(1) show ?thesis
    by (auto simp: stx_send_def lp_exited_def lp_terminate_poll_def lp_terminate_start_def term_start_def
        terminator_unspawned_def term_outcome_def lp_start_error_def spawn_max_frame_bytes_def)
qed

text \<open>A command the operating system could not find.\<close>

definition missing_command :: "string + (string list + launch)" where
  "missing_command = spawn_port (Inl (''No such file'', 2)) (spawn_options_new [''mango-runtime''])"

theorem unspawned_launch_closes_witness:
  "\<exists>l. missing_command = Inr (Inr l) \<and> lp_exited l = Polled exit_status_default
     \<and> sse_spawn_error (lp_start_error NoExit 0 None l) = Some 2"
proof -
  obtain l where l: "spawn_port (Inl (''No such file'', 2)) (spawn_options_new [''mango-runtime'']) = Inr (Inr l)"
    by (simp add: spawn_port_def spawn_options_new_def Let_def)
  then obtain why where "la_port l = UnspawnedPort why"
    by (auto simp: spawn_port_def spawn_options_new_def spawn_port_unspawned_def Let_def)
  then obtain tx rx where "spawn_split l [] = Inr (tx, rx)" by (simp add: spawn_split_def Let_def)
  from unspawned_launch_closes [OF l this, of liveness_serde Ping Wrote shared_writer_new Wrote 0 NoExit 0 None] l
  show ?thesis by (simp add: missing_command_def)
qed

end
