(* ===== verification/Deadline.thy ===== *)
theory Deadline
  imports Port
begin

text \<open>
  The bound every dialling transport connects under (\<open>transports/deadline.rs\<close>).  An attempt is user
  code: one wake-up of the waiting task says how long it has waited, whether the token is cancelled,
  and what a poll of the attempt would give.
\<close>

record connect_deadline =
  cd_timeout :: "duration option"
  cd_cancel :: bool

definition connect_deadline_default :: connect_deadline where
  "connect_deadline_default = \<lparr>cd_timeout = None, cd_cancel = False\<rparr>"

definition cd_with_timeout :: "duration \<Rightarrow> connect_deadline \<Rightarrow> connect_deadline" where
  "cd_with_timeout timeout d = d\<lparr>cd_timeout := Some timeout\<rparr>"

definition cd_with_cancel :: "connect_deadline \<Rightarrow> connect_deadline" where
  "cd_with_cancel d = d\<lparr>cd_cancel := True\<rparr>"

datatype connect_error =
    ConnectCancelled string
  | ConnectTimedOut string duration
  | ConnectIo string
  | ConnectRefused string string

text \<open>\<open>show_duration\<close> is \<open>Duration\<close>'s \<open>Debug\<close>; an \<open>io::Error\<close> is its text.\<close>

definition connect_error_display :: "(duration \<Rightarrow> string) \<Rightarrow> connect_error \<Rightarrow> string" where
  "connect_error_display show_duration e =
     (case e of
        ConnectCancelled target \<Rightarrow> ''The connection to '' @ target @ '' was cancelled.''
      | ConnectTimedOut target timeout \<Rightarrow>
          ''The connection to '' @ target @ '' timed out after '' @ show_duration timeout
          @ ''; expected the peer to accept it.''
      | ConnectIo error \<Rightarrow> error
      | ConnectRefused target why \<Rightarrow> ''The connection to '' @ target @ '' was refused: '' @ why)"

definition connect_error_source :: "connect_error \<Rightarrow> string option" where
  "connect_error_source e = (case e of ConnectIo error \<Rightarrow> Some error | _ \<Rightarrow> None)"

record 'a wake =
  wk_waited :: duration
  wk_cancelled :: bool
  wk_attempt :: "(connect_error + 'a) poll"

definition dl_cancelled :: "connect_deadline \<Rightarrow> 'a wake \<Rightarrow> bool" where
  "dl_cancelled d k = (cd_cancel d \<and> wk_cancelled k)"

definition dl_elapsed :: "connect_deadline \<Rightarrow> 'a wake \<Rightarrow> bool" where
  "dl_elapsed d k = (case cd_timeout d of Some timeout \<Rightarrow> timeout \<le> wk_waited k | None \<Rightarrow> False)"

text \<open>The biased \<open>select!\<close> at each wake-up; \<open>polls\<close> counts the polls of the attempt.\<close>

fun connect_within :: "string \<Rightarrow> connect_deadline \<Rightarrow> nat \<Rightarrow> 'a wake list \<Rightarrow> nat \<times> (connect_error + 'a) poll" where
  "connect_within target d polls [] = (polls, Pending)"
| "connect_within target d polls (k # ks) =
     (if dl_cancelled d k then (polls, Polled (Inl (ConnectCancelled target)))
      else if dl_elapsed d k then
        (polls, Polled (Inl (ConnectTimedOut target (case cd_timeout d of Some t \<Rightarrow> t | None \<Rightarrow> 0))))
      else case wk_attempt k of
        Polled outcome \<Rightarrow> (Suc polls, Polled outcome)
      | Pending \<Rightarrow> connect_within target d (Suc polls) ks)"

text \<open>Nothing is ready at a wake-up.\<close>

definition dl_waits :: "connect_deadline \<Rightarrow> 'a wake \<Rightarrow> bool" where
  "dl_waits d k = (\<not> dl_cancelled d k \<and> \<not> dl_elapsed d k \<and> wk_attempt k = Pending)"

lemma connect_within_waits:
  "list_all (dl_waits d) ks \<Longrightarrow>
     connect_within target d polls (ks @ js) = connect_within target d (polls + length ks) js"
  by (induction ks arbitrary: polls) (simp_all add: dl_waits_def)

text \<open>
  The first wake-up that settles a connection attempt decides it: cancellation before the timeout,
  the timeout before the attempt's own outcome.  The attempt is polled at every earlier wake-up and
  not again once it is abandoned, so with a token that is cancelled from the start it is never polled.
\<close>

theorem connect_within_settles:
  assumes "list_all (dl_waits d) ks" and "\<not> dl_waits d k"
  shows "connect_within target d 0 (ks @ k # later) =
    (if dl_cancelled d k then (length ks, Polled (Inl (ConnectCancelled target)))
     else if dl_elapsed d k then (length ks, Polled (Inl (ConnectTimedOut target (the (cd_timeout d)))))
     else (Suc (length ks), wk_attempt k))"
  using assms
  by (auto simp: connect_within_waits dl_waits_def dl_elapsed_def split: option.splits poll.splits)

end
