(* ===== verification/Ipc.thy ===== *)
theory Ipc
  imports Spawn Deadline
begin

text \<open>
  The local socket (\<open>transports/ipc.rs\<close>, \<open>ipc/unix.rs\<close>, \<open>ipc/windows.rs\<close>).

  The file system is a record: names (paths as text) to inodes, and for every inode its kind, its mode,
  whether it belongs to the user of this process and whether a listener answers on it.  Other processes act between any two system calls of \<open>listen_ipc\<close>,
  so the call is a program counter with one own step per system call; a step's flag says whether that
  call fails (or, for the probe, cannot judge).
\<close>

section \<open>Names and identities\<close>

definition ipc_name_error_display :: "string \<Rightarrow> string" where
  "ipc_name_error_display name =
     ''ipc name is '' @ debug_str name @ ''; expected one non-empty path segment without '' @ quoted ''/'' @ '', ''
     @ quoted [CHR 0x5C] @ '' or '' @ quoted ''..''"

record peer_user =
  pu_uid :: u32
  pu_gid :: u32

record peer_identity =
  pi_process_id :: "u32 option"
  pi_user :: "peer_user option"

definition peer_identity_default :: peer_identity where
  "peer_identity_default = \<lparr>pi_process_id = None, pi_user = None\<rparr>"

definition peer_identity_display :: "peer_identity \<Rightarrow> string" where
  "peer_identity_display i =
     (case (pi_user i, pi_process_id i) of
        (Some user, Some pid) \<Rightarrow>
          ''uid '' @ show_nat (unat (pu_uid user)) @ '' gid '' @ show_nat (unat (pu_gid user))
          @ '' in process '' @ show_nat (unat pid)
      | (Some user, None) \<Rightarrow> ''uid '' @ show_nat (unat (pu_uid user)) @ '' gid '' @ show_nat (unat (pu_gid user))
      | (None, Some pid) \<Rightarrow> ''process '' @ show_nat (unat pid)
      | (None, None) \<Rightarrow> ''a peer the operating system did not identify'')"

text \<open>\<open>identity_of\<close>: the credentials are the pid (an \<open>i32\<close>), uid and gid, when there are any.\<close>

definition identity_of :: "(int option \<times> u32 \<times> u32) option \<Rightarrow> peer_identity" where
  "identity_of credentials =
     (case credentials of
        None \<Rightarrow> peer_identity_default
      | Some (pid, uid, gid) \<Rightarrow>
          \<lparr>pi_process_id = Option.bind pid (\<lambda>p. if 0 \<le> p \<and> p < 2 ^ 32 then Some (of_int p) else None),
           pi_user = Some \<lparr>pu_uid = uid, pu_gid = gid\<rparr>\<rparr>)"

text \<open>\<open>Path::join\<close> with one relative segment.\<close>

definition path_join :: "string \<Rightarrow> string \<Rightarrow> string" where
  "path_join directory name =
     (if directory = [] then name
      else if last directory = CHR ''/'' then directory @ name
      else directory @ ''/'' @ name)"

definition address_for_unix :: "string option \<Rightarrow> string \<Rightarrow> string \<Rightarrow> string" where
  "address_for_unix xdg_runtime_dir temp_dir name =
     (let directory = (case xdg_runtime_dir of Some d \<Rightarrow> if d \<noteq> [] then d else temp_dir | None \<Rightarrow> temp_dir)
      in path_join directory (name @ ''.sock''))"

definition address_for_windows :: "string \<Rightarrow> string" where
  "address_for_windows name = [CHR 0x5C, CHR 0x5C, CHR ''.'', CHR 0x5C] @ ''pipe'' @ [CHR 0x5C] @ name"

definition ipc_path :: "(string \<Rightarrow> string) \<Rightarrow> string \<Rightarrow> string + string" where
  "ipc_path address_for name =
     (if name = [] \<or> CHR ''/'' \<in> set name \<or> CHR 0x5C \<in> set name \<or> contains_str ''..'' name then Inl name
      else Inr (address_for name))"

section \<open>The file system\<close>

datatype file_kind = SocketFile | DirectoryFile | OtherFile

record fs =
  fs_names :: "(string, nat) hmap"
  fs_kind :: "nat \<Rightarrow> file_kind"
  fs_mode :: "nat \<Rightarrow> nat"
  fs_owned :: "nat \<Rightarrow> bool"
  fs_live :: "nat \<Rightarrow> bool"
  fs_next :: nat

definition fs_create :: "string \<Rightarrow> file_kind \<Rightarrow> nat \<Rightarrow> bool \<Rightarrow> fs \<Rightarrow> fs" where
  "fs_create path kind mode live f =
     (let i = fs_next f
      in \<lparr>fs_names = hm_insert path i (fs_names f), fs_kind = (fs_kind f)(i := kind),
          fs_mode = (fs_mode f)(i := mode), fs_owned = (fs_owned f)(i := True), fs_live = (fs_live f)(i := live), fs_next = Suc i\<rparr>)"

definition fs_unlink :: "string \<Rightarrow> fs \<Rightarrow> fs" where
  "fs_unlink path f = f\<lparr>fs_names := hm_remove path (fs_names f)\<rparr>"

definition fs_name :: "string \<Rightarrow> nat \<Rightarrow> fs \<Rightarrow> fs" where
  "fs_name path i f = f\<lparr>fs_names := hm_insert path i (fs_names f)\<rparr>"

text \<open>\<open>remove_file\<close> refuses a directory and a missing name; \<open>remove_dir\<close> whatever is not an empty directory.\<close>

definition is_directory :: "string \<Rightarrow> fs \<Rightarrow> bool" where
  "is_directory path f = (case hm_get (fs_names f) path of Some i \<Rightarrow> fs_kind f i = DirectoryFile | None \<Rightarrow> False)"

definition remove_file :: "bool \<Rightarrow> string \<Rightarrow> fs \<Rightarrow> fs" where
  "remove_file fails path f = (if fails \<or> is_directory path f then f else fs_unlink path f)"

definition dir_empty :: "string \<Rightarrow> fs \<Rightarrow> bool" where
  "dir_empty directory f = list_all (\<lambda>(p, _). \<not> starts_with (directory @ ''/'') p) (fs_names f)"

definition remove_dir :: "bool \<Rightarrow> string \<Rightarrow> fs \<Rightarrow> fs" where
  "remove_dir fails path f = (if fails \<or> \<not> is_directory path f \<or> \<not> dir_empty path f then f else fs_unlink path f)"

section \<open>Listening\<close>

definition SOCKET_MODE :: nat where "SOCKET_MODE = 6 * 64"
definition STAGING_DIRECTORY_MODE :: nat where "STAGING_DIRECTORY_MODE = 7 * 64"
definition PROBE_TIMEOUT :: duration where "PROBE_TIMEOUT = from_secs 1"

record staging =
  sg_directory :: string
  sg_socket :: string

text \<open>\<open>Path::parent\<close>, on the reversed text: trailing separators and \<open>/.\<close> are not components.\<close>

fun trim_components :: "string \<Rightarrow> string" where
  "trim_components [] = []"
| "trim_components [c] = [c]"
| "trim_components (c # d # cs) =
     (if c = CHR ''/'' then trim_components (d # cs)
      else if c = CHR ''.'' \<and> d = CHR ''/'' then trim_components (d # cs)
      else c # d # cs)"

definition path_parent :: "string \<Rightarrow> string option" where
  "path_parent path =
     (let r = trim_components (rev path)
      in if r = [] \<or> r = ''/'' then None
         else Some (rev (trim_components (dropWhile (\<lambda>c. c \<noteq> CHR ''/'') r))))"

definition staging_path :: "string \<Rightarrow> nat \<Rightarrow> u64 \<Rightarrow> staging" where
  "staging_path path pid attempt =
     (let beside = (case path_parent path of Some b \<Rightarrow> b | None \<Rightarrow> ''.'');
          directory = path_join beside (''.m'' @ show_nat pid @ ''-'' @ show_nat (unat attempt))
      in \<lparr>sg_directory = directory, sg_socket = path_join directory ''s''\<rparr>)"

datatype io_error_kind = NotFound | AlreadyExists | AddrInUse | OtherError

text \<open>The system calls of \<open>listen_ipc\<close>, in order, with what the call has learnt so far.\<close>

datatype listen_pc =
    Metadata
  | ProbeDial nat
  | Recheck nat
  | RemoveStale nat
  | StageCheck
  | StageUnlink
  | StageRmdir
  | StageMkdir
  | StageBind
  | Restrict
  | ReadInode
  | HardLink nat
  | RenameOver nat
  | DiscardCheck "io_error_kind + nat"
  | DiscardUnlink "io_error_kind + nat"
  | DiscardRmdir "io_error_kind + nat"
  | Listened "io_error_kind + nat"

text \<open>\<open>ls_bound\<close> is the socket the listener holds, from the bind on.\<close>

record listen_state =
  ls_pc :: listen_pc
  ls_bound :: "nat option"
  ls_fs :: fs

text \<open>A failure once staging has begun: the listener, if there is one, is dropped.\<close>

definition stage_failed :: "io_error_kind \<Rightarrow> listen_state \<Rightarrow> listen_state" where
  "stage_failed kind s =
     s\<lparr>ls_pc := DiscardCheck (Inl kind), ls_bound := None,
       ls_fs := (case ls_bound s of
                   Some i \<Rightarrow> (ls_fs s)\<lparr>fs_live := (fs_live (ls_fs s))(i := False)\<rparr>
                 | None \<Rightarrow> ls_fs s)\<rparr>"

definition probe_stale :: "string \<Rightarrow> fs \<Rightarrow> bool" where
  "probe_stale path f = (case hm_get (fs_names f) path of Some i \<Rightarrow> \<not> fs_live f i | None \<Rightarrow> True)"

text \<open>\<open>remove_stale_socket\<close>: what is at the address, and the \<open>probe\<close> of it.\<close>

definition remove_stale_socket_step :: "string \<Rightarrow> bool \<Rightarrow> listen_state \<Rightarrow> listen_state" where
  "remove_stale_socket_step path fails s =
     (let f = ls_fs s; at = hm_get (fs_names f) in
      case ls_pc s of
        Metadata \<Rightarrow>
          if fails then s\<lparr>ls_pc := Listened (Inl OtherError)\<rparr>
          else (case at path of
                  None \<Rightarrow> s\<lparr>ls_pc := StageCheck\<rparr>
                | Some i \<Rightarrow> if fs_kind f i \<noteq> SocketFile then s\<lparr>ls_pc := Listened (Inl AlreadyExists)\<rparr>
                            else s\<lparr>ls_pc := ProbeDial i\<rparr>)
      | ProbeDial i \<Rightarrow>
          if fails \<or> \<not> probe_stale path f then s\<lparr>ls_pc := Listened (Inl AddrInUse)\<rparr> else s\<lparr>ls_pc := Recheck i\<rparr>
      | _ \<Rightarrow> s)"

text \<open>\<open>remove_if_still\<close>.\<close>

definition remove_if_still_step :: "string \<Rightarrow> bool \<Rightarrow> listen_state \<Rightarrow> listen_state" where
  "remove_if_still_step path fails s =
     (let f = ls_fs s; at = hm_get (fs_names f) in
      case ls_pc s of
        Recheck i \<Rightarrow>
          if \<not> fails \<and> at path = Some i then s\<lparr>ls_pc := RemoveStale i\<rparr> else s\<lparr>ls_pc := StageCheck\<rparr>
      | RemoveStale i \<Rightarrow>
          if fails \<or> is_directory path f then s\<lparr>ls_pc := Listened (Inl OtherError)\<rparr>
          else if at path = None then s\<lparr>ls_pc := Listened (Inl NotFound)\<rparr>
          else s\<lparr>ls_pc := StageCheck, ls_fs := remove_file False path f\<rparr>
      | _ \<Rightarrow> s)"

text \<open>\<open>stage\<close>, its \<open>discard\<close> and \<open>restrict\<close> included; \<open>umask_mode\<close> is the mode \<open>bind\<close> gives a socket.\<close>

definition stage_step :: "staging \<Rightarrow> nat \<Rightarrow> bool \<Rightarrow> listen_state \<Rightarrow> listen_state" where
  "stage_step sg umask_mode fails s =
     (let f = ls_fs s; at = hm_get (fs_names f) in
      case ls_pc s of
        StageCheck \<Rightarrow>
          if \<not> fails \<and> is_directory (sg_directory sg) f then s\<lparr>ls_pc := StageUnlink\<rparr> else s\<lparr>ls_pc := StageMkdir\<rparr>
      | StageUnlink \<Rightarrow>
          s\<lparr>ls_pc := StageRmdir, ls_fs := remove_file fails (sg_socket sg) f\<rparr>
      | StageRmdir \<Rightarrow>
          s\<lparr>ls_pc := StageMkdir,
            ls_fs := remove_dir fails (sg_directory sg) f\<rparr>
      | StageMkdir \<Rightarrow>
          if fails then stage_failed OtherError s
          else if at (sg_directory sg) \<noteq> None then stage_failed AlreadyExists s
          else s\<lparr>ls_pc := StageBind,
                 ls_fs := fs_create (sg_directory sg) DirectoryFile STAGING_DIRECTORY_MODE False f\<rparr>
      | StageBind \<Rightarrow>
          if fails then stage_failed OtherError s
          else if \<not> is_directory (sg_directory sg) f then stage_failed NotFound s
          else if at (sg_socket sg) \<noteq> None then stage_failed AddrInUse s
          else s\<lparr>ls_pc := Restrict, ls_bound := Some (fs_next f),
                 ls_fs := fs_create (sg_socket sg) SocketFile umask_mode True f\<rparr>
      | Restrict \<Rightarrow>
          (case at (sg_socket sg) of
             Some i \<Rightarrow> if fails then stage_failed OtherError s
                       else s\<lparr>ls_pc := ReadInode, ls_fs := f\<lparr>fs_mode := (fs_mode f)(i := SOCKET_MODE)\<rparr>\<rparr>
           | None \<Rightarrow> stage_failed NotFound s)
      | _ \<Rightarrow> s)"

text \<open>\<open>publish\<close>.\<close>

definition publish_step :: "string \<Rightarrow> staging \<Rightarrow> bool \<Rightarrow> listen_state \<Rightarrow> listen_state" where
  "publish_step path sg fails s =
     (let f = ls_fs s; at = hm_get (fs_names f) in
      case ls_pc s of
        HardLink i \<Rightarrow>
          (case at (sg_socket sg) of
             Some j \<Rightarrow>
               if fails then s\<lparr>ls_pc := RenameOver i\<rparr>
               else if at path \<noteq> None then stage_failed AlreadyExists s
               else s\<lparr>ls_pc := DiscardCheck (Inr i), ls_fs := fs_name path j f\<rparr>
           | None \<Rightarrow> s\<lparr>ls_pc := RenameOver i\<rparr>)
      | RenameOver i \<Rightarrow>
          (case at (sg_socket sg) of
             Some j \<Rightarrow>
               if fails \<or> is_directory path f then stage_failed OtherError s
               else s\<lparr>ls_pc := DiscardCheck (Inr i), ls_fs := fs_unlink (sg_socket sg) (fs_name path j f)\<rparr>
           | None \<Rightarrow> stage_failed NotFound s)
      | _ \<Rightarrow> s)"

text \<open>\<open>discard\<close>, with the outcome the call is to return.\<close>

definition discard_step :: "staging \<Rightarrow> bool \<Rightarrow> listen_state \<Rightarrow> listen_state" where
  "discard_step sg fails s =
     (let f = ls_fs s in
      case ls_pc s of
        DiscardCheck r \<Rightarrow>
          if \<not> fails \<and> is_directory (sg_directory sg) f then s\<lparr>ls_pc := DiscardUnlink r\<rparr> else s\<lparr>ls_pc := Listened r\<rparr>
      | DiscardUnlink r \<Rightarrow>
          s\<lparr>ls_pc := DiscardRmdir r, ls_fs := remove_file fails (sg_socket sg) f\<rparr>
      | DiscardRmdir r \<Rightarrow>
          s\<lparr>ls_pc := Listened r,
            ls_fs := remove_dir fails (sg_directory sg) f\<rparr>
      | _ \<Rightarrow> s)"

text \<open>\<open>stage_and_publish\<close>: the inode is read between the two.\<close>

definition stage_and_publish_step :: "string \<Rightarrow> staging \<Rightarrow> nat \<Rightarrow> bool \<Rightarrow> listen_state \<Rightarrow> listen_state" where
  "stage_and_publish_step path sg umask_mode fails s =
     (case ls_pc s of
        ReadInode \<Rightarrow>
          (case hm_get (fs_names (ls_fs s)) (sg_socket sg) of
             Some i \<Rightarrow> if fails then stage_failed OtherError s else s\<lparr>ls_pc := HardLink i\<rparr>
           | None \<Rightarrow> stage_failed NotFound s)
      | HardLink _ \<Rightarrow> publish_step path sg fails s
      | RenameOver _ \<Rightarrow> publish_step path sg fails s
      | _ \<Rightarrow> stage_step sg umask_mode fails s)"

text \<open>One system call of \<open>listen_ipc\<close>.\<close>

definition listen_own :: "string \<Rightarrow> staging \<Rightarrow> nat \<Rightarrow> bool \<Rightarrow> listen_state \<Rightarrow> listen_state" where
  "listen_own path sg umask_mode fails s =
     (case ls_pc s of
        Metadata \<Rightarrow> remove_stale_socket_step path fails s
      | ProbeDial _ \<Rightarrow> remove_stale_socket_step path fails s
      | Recheck _ \<Rightarrow> remove_if_still_step path fails s
      | RemoveStale _ \<Rightarrow> remove_if_still_step path fails s
      | DiscardCheck _ \<Rightarrow> discard_step sg fails s
      | DiscardUnlink _ \<Rightarrow> discard_step sg fails s
      | DiscardRmdir _ \<Rightarrow> discard_step sg fails s
      | Listened _ \<Rightarrow> s
      | _ \<Rightarrow> stage_and_publish_step path sg umask_mode fails s)"

lemmas listen_steps = listen_own_def remove_stale_socket_step_def remove_if_still_step_def stage_step_def
  publish_step_def discard_step_def stage_and_publish_step_def

definition listen_start :: "fs \<Rightarrow> listen_state" where
  "listen_start f = \<lparr>ls_pc = Metadata, ls_bound = None, ls_fs = f\<rparr>"

text \<open>The whole call with nothing in between: one flag per system call.\<close>

definition listen_calls :: "string \<Rightarrow> staging \<Rightarrow> nat \<Rightarrow> bool list \<Rightarrow> fs \<Rightarrow> listen_state" where
  "listen_calls path sg umask_mode faults f =
     foldl (\<lambda>s fails. listen_own path sg umask_mode fails s) (listen_start f) faults"

section \<open>The listener\<close>

text \<open>
  The ports a listener accepted live in a store: whether a half still holds the writer, and the writer.
  A \<open>PortCloser\<close> is a weak reference to one of them.
\<close>

record port_cell =
  cell_alive :: bool
  cell_writer :: shared_writer

record port_closer =
  pcl_port :: nat
  pcl_max_frame_bytes :: nat

definition closer_is_open :: "(nat \<Rightarrow> port_cell) \<Rightarrow> port_closer \<Rightarrow> bool" where
  "closer_is_open store c = cell_alive (store (pcl_port c))"

record ipc_listener =
  il_path :: string
  il_inode :: nat
  il_max_frame_bytes :: "nat option"
  il_accepted :: "port_closer list"

definition ipc_listener_new :: "string \<Rightarrow> nat \<Rightarrow> ipc_listener" where
  "ipc_listener_new path inode =
     \<lparr>il_path = path, il_inode = inode, il_max_frame_bytes = None, il_accepted = []\<rparr>"

definition il_with_max_frame_bytes :: "nat \<Rightarrow> ipc_listener \<Rightarrow> string + ipc_listener" where
  "il_with_max_frame_bytes max_frame_bytes l =
     and_then (check_max_frame_bytes max_frame_bytes) (\<lambda>m. Inr (l\<lparr>il_max_frame_bytes := Some m\<rparr>))"

definition socket_port :: "nat option \<Rightarrow> string + ndjson_port" where
  "socket_port max_frame_bytes =
     (case max_frame_bytes of
        Some limit \<Rightarrow> np_with_max_frame_bytes limit ndjson_port_new
      | None \<Rightarrow> Inr ndjson_port_new)"

text \<open>\<open>accept\<close>: the socket's own error, or a connection that takes the store's place \<open>n\<close>.\<close>

definition il_accept :: "string + nat \<times> (int option \<times> u32 \<times> u32) option \<Rightarrow> (nat \<Rightarrow> port_cell) \<Rightarrow> ipc_listener
    \<Rightarrow> string + (nat \<Rightarrow> port_cell) \<times> ipc_listener \<times> (string + ndjson_port \<times> peer_identity)" where
  "il_accept arrival store l =
     (case arrival of
        Inl error \<Rightarrow> Inr (store, l, Inl error)
      | Inr (n, credentials) \<Rightarrow>
          and_then (socket_port (il_max_frame_bytes l)) (\<lambda>port.
            let store = store(n := \<lparr>cell_alive = True, cell_writer = np_writer port\<rparr>);
                l = l\<lparr>il_accepted := filter (closer_is_open store) (il_accepted l)
                                    @ [\<lparr>pcl_port = n, pcl_max_frame_bytes = np_max_frame_bytes port\<rparr>]\<rparr>
            in Inr (store, l, Inr (port, identity_of credentials))))"

text \<open>\<open>tell_accepted\<close>: what each handle does with the farewell is \<open>res\<close>; the closes run side by side, each on a writer of its own.\<close>

definition tell_accepted :: "serde_json \<Rightarrow> (nat \<Rightarrow> write_result) \<Rightarrow> port_closer list \<Rightarrow> u16 \<Rightarrow> string
    \<Rightarrow> (nat \<Rightarrow> port_cell) \<Rightarrow> nat \<Rightarrow> port_cell" where
  "tell_accepted S res accepted code reason store =
     foldl (\<lambda>store c. store(pcl_port c := (store (pcl_port c))\<lparr>cell_writer :=
              port_closer_close S (cell_alive (store (pcl_port c))) (cell_writer (store (pcl_port c)))
                (pcl_max_frame_bytes c) code (Some reason) (res (pcl_port c))\<rparr>)) store accepted"

definition il_tell :: "serde_json \<Rightarrow> (nat \<Rightarrow> write_result) \<Rightarrow> ipc_listener \<Rightarrow> (nat \<Rightarrow> port_cell) \<Rightarrow> nat \<Rightarrow> port_cell" where
  "il_tell S res l = tell_accepted S res (il_accepted l) close_RELEASED ''listener closing''"

text \<open>The rest of \<open>close\<close>, one system call at a time.\<close>

datatype close_pc = DropListener | CloseMetadata | CloseRemove | CloseDone

definition close_own :: "ipc_listener \<Rightarrow> bool \<Rightarrow> close_pc \<times> fs \<Rightarrow> close_pc \<times> fs" where
  "close_own l fails s =
     (case s of (pc, f) \<Rightarrow>
      case pc of
        DropListener \<Rightarrow> (CloseMetadata, f\<lparr>fs_live := (fs_live f)(il_inode l := False)\<rparr>)
      | CloseMetadata \<Rightarrow>
          if \<not> fails \<and> hm_get (fs_names f) (il_path l) = Some (il_inode l) then (CloseRemove, f) else (CloseDone, f)
      | CloseRemove \<Rightarrow> (CloseDone, remove_file fails (il_path l) f)
      | CloseDone \<Rightarrow> (CloseDone, f))"

section \<open>Connecting\<close>

text \<open>An attempt's own error is an \<open>io::Error\<close>.\<close>

definition io_wake :: "duration \<times> bool \<times> (string + 'a) poll \<Rightarrow> 'a wake" where
  "io_wake k = (case k of (waited, cancelled, p) \<Rightarrow>
     \<lparr>wk_waited = waited, wk_cancelled = cancelled,
      wk_attempt = (case p of Pending \<Rightarrow> Pending | Polled (Inl e) \<Rightarrow> Polled (Inl (ConnectIo e))
                             | Polled (Inr x) \<Rightarrow> Polled (Inr x))\<rparr>)"

definition connect_ipc_unix :: "string \<Rightarrow> connect_deadline \<Rightarrow> (duration \<times> bool \<times> (string + unit) poll) list
    \<Rightarrow> string + (connect_error + ndjson_port) poll" where
  "connect_ipc_unix path d ks =
     (case snd (connect_within path d 0 (map io_wake ks)) of
        Pending \<Rightarrow> Inr Pending
      | Polled (Inl e) \<Rightarrow> Inr (Polled (Inl e))
      | Polled (Inr _) \<Rightarrow> and_then (socket_port None) (\<lambda>port. Inr (Polled (Inr port))))"

section \<open>Named pipes\<close>

definition ERROR_PIPE_BUSY :: int where "ERROR_PIPE_BUSY = 231"
definition BUSY_RETRY :: duration where "BUSY_RETRY = from_millis 20"

text \<open>The instance a client arrives on; \<open>wp_client\<close> is the client connected to it.\<close>

record pipe_instance =
  wp_id :: nat
  wp_client :: "nat option"

record win_listener =
  wl_idle :: pipe_instance
  wl_path :: string
  wl_max_frame_bytes :: "nat option"
  wl_accepted :: "port_closer list"

text \<open>\<open>created\<close> is what \<open>create_owner_only_instance\<close> gives.\<close>

definition listen_ipc_windows :: "string \<Rightarrow> string + nat \<Rightarrow> string + win_listener" where
  "listen_ipc_windows path created =
     and_then created (\<lambda>i. Inr \<lparr>wl_idle = \<lparr>wp_id = i, wp_client = None\<rparr>, wl_path = path,
                                 wl_max_frame_bytes = None, wl_accepted = []\<rparr>)"

definition wl_with_max_frame_bytes :: "nat \<Rightarrow> win_listener \<Rightarrow> string + win_listener" where
  "wl_with_max_frame_bytes max_frame_bytes l =
     and_then (check_max_frame_bytes max_frame_bytes) (\<lambda>m. Inr (l\<lparr>wl_max_frame_bytes := Some m\<rparr>))"

text \<open>
  \<open>arrived\<close> is the client \<open>connect\<close> saw, \<open>disconnects\<close> whether \<open>disconnect\<close> works, \<open>pid\<close> what
  \<open>client_process_id\<close> answers; the connected instance's number is the port's place in the store.
\<close>

definition wl_accept :: "string + nat \<Rightarrow> string + nat \<Rightarrow> bool \<Rightarrow> u32 option \<Rightarrow> (nat \<Rightarrow> port_cell) \<Rightarrow> win_listener
    \<Rightarrow> string + (nat \<Rightarrow> port_cell) \<times> win_listener \<times> (string + ndjson_port \<times> peer_identity)" where
  "wl_accept arrived created disconnects pid store l =
     (case arrived of
        Inl error \<Rightarrow> Inr (store, l, Inl error)
      | Inr client \<Rightarrow>
          let idle = (wl_idle l)\<lparr>wp_client := Some client\<rparr> in
          case created of
            Inl error \<Rightarrow>
              Inr (store, l\<lparr>wl_idle := (if disconnects then idle\<lparr>wp_client := None\<rparr> else idle)\<rparr>, Inl error)
          | Inr next \<Rightarrow>
              and_then (socket_port (wl_max_frame_bytes l)) (\<lambda>port.
                let store = store(wp_id idle := \<lparr>cell_alive = True, cell_writer = np_writer port\<rparr>);
                    l = l\<lparr>wl_idle := \<lparr>wp_id = next, wp_client = None\<rparr>,
                          wl_accepted := filter (closer_is_open store) (wl_accepted l)
                            @ [\<lparr>pcl_port = wp_id idle, pcl_max_frame_bytes = np_max_frame_bytes port\<rparr>]\<rparr>
                in Inr (store, l, Inr (port, \<lparr>pi_process_id = pid, pi_user = None\<rparr>))))"

definition wl_close :: "serde_json \<Rightarrow> (nat \<Rightarrow> write_result) \<Rightarrow> win_listener \<Rightarrow> (nat \<Rightarrow> port_cell) \<Rightarrow> nat \<Rightarrow> port_cell" where
  "wl_close S res l = tell_accepted S res (wl_accepted l) close_RELEASED ''listener closing''"

text \<open>\<open>open\<close> at a wake-up: the client, or an error with its raw code; a busy pipe is tried again later.\<close>

definition pipe_wake :: "duration \<times> bool \<times> ((int option \<times> string) + unit) poll \<Rightarrow> unit wake" where
  "pipe_wake k = (case k of (waited, cancelled, p) \<Rightarrow>
     \<lparr>wk_waited = waited, wk_cancelled = cancelled,
      wk_attempt = (case p of
                      Pending \<Rightarrow> Pending
                    | Polled (Inr x) \<Rightarrow> Polled (Inr x)
                    | Polled (Inl (code, e)) \<Rightarrow>
                        if code = Some ERROR_PIPE_BUSY then Pending else Polled (Inl (ConnectIo e)))\<rparr>)"

definition connect_ipc_windows :: "string \<Rightarrow> connect_deadline \<Rightarrow> (duration \<times> bool \<times> ((int option \<times> string) + unit) poll) list
    \<Rightarrow> (connect_error + ndjson_port) poll" where
  "connect_ipc_windows path d ks =
     (case snd (connect_within path d 0 (map pipe_wake ks)) of
        Pending \<Rightarrow> Pending
      | Polled (Inl e) \<Rightarrow> Polled (Inl e)
      | Polled (Inr _) \<Rightarrow> Polled (Inr ndjson_port_new))"

end
