(* ===== verification/Ipc_Laws.thy ===== *)
theory Ipc_Laws
  imports Ipc
begin

text \<open>
  What the local socket promises, with other processes acting between any two system calls: the
  address is owner-only from the instant it names this listener's socket, an address that is held is
  refused and left as it is, and closing removes the address only while it is the listener's own.
\<close>

section \<open>Other processes\<close>

definition fs_wf :: "fs \<Rightarrow> bool" where
  "fs_wf f \<longleftrightarrow> (\<forall>p i. hm_get (fs_names f) p = Some i \<longrightarrow> i < fs_next f)"

text \<open>
  A directory of this user that grants its group and everybody else nothing: they can neither find, add
  nor remove a name in it.
\<close>

definition closed_to_others :: "string \<Rightarrow> fs \<Rightarrow> bool" where
  "closed_to_others directory f \<longleftrightarrow>
     (\<exists>i. hm_get (fs_names f) directory = Some i \<and> fs_owned f i \<and> fs_kind f i = DirectoryFile \<and> fs_mode f i mod 64 = 0)"

text \<open>
  A directory left alone: it and the names in it are as they were, and a file that had names only there
  gets no other.
\<close>

definition below :: "string \<Rightarrow> string \<Rightarrow> bool" where
  "below directory p \<longleftrightarrow> p = directory \<or> starts_with (directory @ ''/'') p"






section \<open>The invariant\<close>

text \<open>The socket \<open>i\<close> the listener holds, and what its mode is by now.\<close>

definition holds_socket :: "fs \<Rightarrow> nat \<Rightarrow> bool" where
  "holds_socket f i \<longleftrightarrow> i < fs_next f \<and> fs_owned f i \<and> fs_kind f i = SocketFile \<and> fs_live f i"

definition staged :: "staging \<Rightarrow> fs \<Rightarrow> nat \<Rightarrow> bool" where
  "staged sg f i \<longleftrightarrow> closed_to_others (sg_directory sg) f \<and> hm_get (fs_names f) (sg_socket sg) = Some i \<and>
     (\<forall>p. hm_get (fs_names f) p = Some i \<longrightarrow> p = sg_socket sg)"

definition pc_holds :: "staging \<Rightarrow> listen_pc \<Rightarrow> nat option \<Rightarrow> fs \<Rightarrow> bool" where
  "pc_holds sg pc bound f =
     (let owned = (\<lambda>r. case r of Inl _ \<Rightarrow> bound = None
                              | Inr i \<Rightarrow> bound = Some i \<and> holds_socket f i \<and> fs_mode f i = SOCKET_MODE)
      in case pc of
        StageBind \<Rightarrow> bound = None \<and> closed_to_others (sg_directory sg) f
      | Restrict \<Rightarrow> \<exists>i. bound = Some i \<and> holds_socket f i \<and> staged sg f i
      | ReadInode \<Rightarrow> \<exists>i. bound = Some i \<and> holds_socket f i \<and> staged sg f i \<and> fs_mode f i = SOCKET_MODE
      | HardLink i \<Rightarrow> bound = Some i \<and> holds_socket f i \<and> staged sg f i \<and> fs_mode f i = SOCKET_MODE
      | RenameOver i \<Rightarrow> bound = Some i \<and> holds_socket f i \<and> staged sg f i \<and> fs_mode f i = SOCKET_MODE
      | DiscardCheck r \<Rightarrow> owned r
      | DiscardUnlink r \<Rightarrow> owned r
      | DiscardRmdir r \<Rightarrow> owned r
      | Listened r \<Rightarrow> owned r
      | _ \<Rightarrow> bound = None)"

definition listen_inv :: "staging \<Rightarrow> listen_state \<Rightarrow> bool" where
  "listen_inv sg s \<longleftrightarrow> fs_wf (ls_fs s) \<and> pc_holds sg (ls_pc s) (ls_bound s) (ls_fs s)"

subsection \<open>What a system call keeps\<close>

lemma fs_unlink_fields [simp]:
  "fs_names (fs_unlink p f) = hm_remove p (fs_names f)" "fs_kind (fs_unlink p f) = fs_kind f"
  "fs_mode (fs_unlink p f) = fs_mode f" "fs_owned (fs_unlink p f) = fs_owned f" "fs_live (fs_unlink p f) = fs_live f" "fs_next (fs_unlink p f) = fs_next f"
  by (simp_all add: fs_unlink_def)

lemma fs_name_fields [simp]:
  "fs_names (fs_name p i f) = hm_insert p i (fs_names f)" "fs_kind (fs_name p i f) = fs_kind f"
  "fs_mode (fs_name p i f) = fs_mode f" "fs_owned (fs_name p i f) = fs_owned f" "fs_live (fs_name p i f) = fs_live f" "fs_next (fs_name p i f) = fs_next f"
  by (simp_all add: fs_name_def)

lemma fs_create_fields [simp]:
  "fs_names (fs_create p k m l f) = hm_insert p (fs_next f) (fs_names f)"
  "fs_kind (fs_create p k m l f) = (fs_kind f)(fs_next f := k)"
  "fs_mode (fs_create p k m l f) = (fs_mode f)(fs_next f := m)"
  "fs_owned (fs_create p k m l f) = (fs_owned f)(fs_next f := True)"
  "fs_live (fs_create p k m l f) = (fs_live f)(fs_next f := l)"
  "fs_next (fs_create p k m l f) = Suc (fs_next f)"
  by (simp_all add: fs_create_def Let_def)

lemma remove_keeps [simp]:
  "fs_kind (remove_file b p f) = fs_kind f" "fs_mode (remove_file b p f) = fs_mode f"
  "fs_owned (remove_file b p f) = fs_owned f" "fs_owned (remove_dir b p f) = fs_owned f"
  "fs_live (remove_file b p f) = fs_live f" "fs_next (remove_file b p f) = fs_next f"
  "fs_kind (remove_dir b p f) = fs_kind f" "fs_mode (remove_dir b p f) = fs_mode f"
  "fs_live (remove_dir b p f) = fs_live f" "fs_next (remove_dir b p f) = fs_next f"
  by (simp_all add: remove_file_def remove_dir_def)

lemma fs_wf_unlink [simp]: "fs_wf f \<Longrightarrow> fs_wf (fs_unlink p f)"
  by (auto simp: fs_wf_def split: if_splits)

lemma fs_wf_remove [simp]: "fs_wf f \<Longrightarrow> fs_wf (remove_file b p f)" "fs_wf f \<Longrightarrow> fs_wf (remove_dir b p f)"
  by (simp_all add: remove_file_def remove_dir_def)

lemma fs_wf_name [simp]: "fs_wf f \<Longrightarrow> i < fs_next f \<Longrightarrow> fs_wf (fs_name p i f)"
  by (auto simp: fs_wf_def)

lemma fs_wf_create [simp]: "fs_wf f \<Longrightarrow> fs_wf (fs_create p k m l f)"
  by (auto simp: fs_wf_def less_Suc_eq split: if_splits)

lemma fs_wf_cong [simp]: "fs_wf (f\<lparr>fs_live := x\<rparr>) = fs_wf f" "fs_wf (f\<lparr>fs_mode := y\<rparr>) = fs_wf f"
  by (simp_all add: fs_wf_def)


lemma holds_socket_cong [simp]:
  "holds_socket (remove_file b p f) i = holds_socket f i" "holds_socket (remove_dir b p f) i = holds_socket f i"
  "holds_socket (fs_name p j f) i = holds_socket f i" "holds_socket (fs_unlink p f) i = holds_socket f i"
  "holds_socket (f\<lparr>fs_mode := m\<rparr>) i = holds_socket f i"
  by (simp_all add: holds_socket_def)






















section \<open>Owner-only\<close>


definition listen_staging :: staging where
  "listen_staging = staging_path ''/run/hub.sock'' 7 0"

definition busy_fs :: fs where
  "busy_fs = \<lparr>fs_names = [(''/run/hub.sock'', 0)], fs_kind = \<lambda>_. SocketFile, fs_mode = \<lambda>_. 0,
              fs_owned = \<lambda>_. True, fs_live = \<lambda>_. False, fs_next = 1\<rparr>"

lemma listen_staging_value:
  "listen_staging = \<lparr>sg_directory = ''/run/.m7-0'', sg_socket = ''/run/.m7-0/s''\<rparr>"
  by code_simp




section \<open>The call returns\<close>

definition pc_rank :: "listen_pc \<Rightarrow> nat" where
  "pc_rank pc =
     (case pc of Metadata \<Rightarrow> 16 | ProbeDial _ \<Rightarrow> 15 | Recheck _ \<Rightarrow> 14 | RemoveStale _ \<Rightarrow> 13 | StageCheck \<Rightarrow> 12
      | StageUnlink \<Rightarrow> 11 | StageRmdir \<Rightarrow> 10 | StageMkdir \<Rightarrow> 9 | StageBind \<Rightarrow> 8 | Restrict \<Rightarrow> 7 | ReadInode \<Rightarrow> 6
      | HardLink _ \<Rightarrow> 5 | RenameOver _ \<Rightarrow> 4 | DiscardCheck _ \<Rightarrow> 3 | DiscardUnlink _ \<Rightarrow> 2 | DiscardRmdir _ \<Rightarrow> 1
      | Listened _ \<Rightarrow> 0)"

lemma listen_own_rank: "pc_rank (ls_pc (listen_own path sg umask_mode fails s)) \<le> pc_rank (ls_pc s) - 1"
  by (cases "ls_pc s") (simp_all add: listen_steps stage_failed_def pc_rank_def Let_def split: option.split)

lemma listen_calls_rank: "pc_rank (ls_pc (listen_calls path sg umask_mode faults f)) \<le> 16 - length faults"
proof (induction faults rule: rev_induct)
  case Nil
  then show ?case by (simp add: listen_calls_def listen_start_def pc_rank_def)
next
  case (snoc x xs)
  then show ?case
    using listen_own_rank [of path sg umask_mode x "listen_calls path sg umask_mode xs f"]
    by (simp add: listen_calls_def)
qed

text \<open>Sixteen system calls are enough, whichever of them fail.\<close>

theorem listen_calls_return:
  "16 \<le> length faults \<Longrightarrow> \<exists>r. ls_pc (listen_calls path sg umask_mode faults f) = Listened r"
  using listen_calls_rank [of path sg umask_mode faults f]
  by (cases "ls_pc (listen_calls path sg umask_mode faults f)") (simp_all add: pc_rank_def)

section \<open>What the address is afterwards\<close>

lemma listened_stays:
  "ls_pc s = Listened r \<Longrightarrow> foldl (\<lambda>s fails. listen_own path sg umask_mode fails s) s faults = s"
  by (induction faults) (simp_all add: listen_steps Let_def)

text \<open>A held address: whatever fails, the call ends with an error before it changes anything.\<close>

lemma held_address_refused:
  assumes "hm_get (fs_names f) path = Some j" and "fs_kind f j \<noteq> SocketFile \<or> fs_live f j"
  shows "listen_calls path sg umask_mode (b # c # faults) f =
    \<lparr>ls_pc = Listened (Inl (if b then OtherError else if fs_kind f j \<noteq> SocketFile then AlreadyExists else AddrInUse)),
     ls_bound = None, ls_fs = f\<rparr>"
proof -
  let ?go = "\<lambda>s fails. listen_own path sg umask_mode fails s"
  have two: "?go (?go (listen_start f) b) c =
    \<lparr>ls_pc = Listened (Inl (if b then OtherError else if fs_kind f j \<noteq> SocketFile then AlreadyExists else AddrInUse)),
     ls_bound = None, ls_fs = f\<rparr>"
    using assms by (auto simp: listen_steps listen_start_def probe_stale_def Let_def)
  show ?thesis by (simp add: listen_calls_def two listened_stays)
qed

text \<open>The file system as \<open>stage\<close>, \<open>publish\<close> and \<open>discard\<close> leave it, where nothing fails.\<close>

definition staged_fs :: "staging \<Rightarrow> nat \<Rightarrow> fs \<Rightarrow> fs" where
  "staged_fs sg umask_mode f =
     fs_create (sg_socket sg) SocketFile umask_mode True
       (fs_create (sg_directory sg) DirectoryFile STAGING_DIRECTORY_MODE False f)"

definition restricted_fs :: "staging \<Rightarrow> nat \<Rightarrow> fs \<Rightarrow> fs" where
  "restricted_fs sg umask_mode f =
     (staged_fs sg umask_mode f)\<lparr>fs_mode := (fs_mode (staged_fs sg umask_mode f))(Suc (fs_next f) := SOCKET_MODE)\<rparr>"

definition linked_fs :: "string \<Rightarrow> staging \<Rightarrow> nat \<Rightarrow> fs \<Rightarrow> fs" where
  "linked_fs path sg umask_mode f = fs_name path (Suc (fs_next f)) (restricted_fs sg umask_mode f)"

definition published_fs :: "string \<Rightarrow> staging \<Rightarrow> nat \<Rightarrow> fs \<Rightarrow> fs" where
  "published_fs path sg umask_mode f =
     remove_dir False (sg_directory sg) (remove_file False (sg_socket sg) (linked_fs path sg umask_mode f))"

text \<open>The names the call needs are free and differ.\<close>

definition names_free :: "string \<Rightarrow> staging \<Rightarrow> fs \<Rightarrow> bool" where
  "names_free path sg f \<longleftrightarrow>
     hm_get (fs_names f) path = None \<and> hm_get (fs_names f) (sg_directory sg) = None \<and>
     dir_empty (sg_directory sg) f \<and> \<not> below (sg_directory sg) path \<and> sg_socket sg = sg_directory sg @ ''/s''"

lemma dir_empty_iff:
  "dir_empty directory f \<longleftrightarrow> (\<forall>p. starts_with (directory @ ''/'') p \<longrightarrow> hm_get (fs_names f) p = None)"
  by (force simp: dir_empty_def list_all_iff hm_get_def map_of_eq_None_iff)

lemma socket_below: "starts_with (d @ ''/'') (d @ ''/s'')"
  by (simp add: starts_with_def)

lemma names_freeD:
  assumes "names_free path sg f"
  shows "hm_get (fs_names f) path = None" "hm_get (fs_names f) (sg_directory sg) = None"
    "hm_get (fs_names f) (sg_socket sg) = None"
    "path \<noteq> sg_directory sg" "path \<noteq> sg_socket sg" "sg_directory sg \<noteq> sg_socket sg"
    "sg_directory sg \<noteq> path" "sg_socket sg \<noteq> path" "sg_socket sg \<noteq> sg_directory sg"
  using assms socket_below by (auto simp: names_free_def dir_empty_iff below_def)

lemma restricted_fs_names:
  "hm_get (fs_names (restricted_fs sg m f)) =
     (hm_get (fs_names f))(sg_directory sg \<mapsto> fs_next f, sg_socket sg \<mapsto> Suc (fs_next f))"
  by (simp add: restricted_fs_def staged_fs_def)

lemma linked_fs_names:
  "hm_get (fs_names (linked_fs path sg m f)) =
     (hm_get (fs_names f))(sg_directory sg \<mapsto> fs_next f, sg_socket sg \<mapsto> Suc (fs_next f), path \<mapsto> Suc (fs_next f))"
  "fs_kind (linked_fs path sg m f) (fs_next f) = DirectoryFile"
  "fs_kind (linked_fs path sg m f) (Suc (fs_next f)) = SocketFile"
  by (simp_all add: linked_fs_def restricted_fs_def staged_fs_def)

lemma published_fs_names:
  assumes "names_free path sg f"
  shows "hm_get (fs_names (published_fs path sg m f)) = (hm_get (fs_names f))(path \<mapsto> Suc (fs_next f))"
proof -
  note free = names_freeD [OF assms]
  let ?l = "linked_fs path sg m f"
  let ?u = "fs_unlink (sg_socket sg) ?l"
  have "\<not> is_directory (sg_socket sg) ?l" using free by (simp add: is_directory_def linked_fs_names)
  then have unlinked: "remove_file False (sg_socket sg) ?l = ?u" by (simp add: remove_file_def)
  have "is_directory (sg_directory sg) ?u" using free by (simp add: is_directory_def linked_fs_names)
  moreover have "dir_empty (sg_directory sg) ?u"
    using assms free by (auto simp: dir_empty_iff linked_fs_names names_free_def below_def starts_with_def)
  ultimately show ?thesis
    using free by (auto simp: published_fs_def unlinked remove_dir_def linked_fs_names fun_eq_iff)
qed

lemma published_fs_inode:
  "fs_kind (published_fs path sg m f) (Suc (fs_next f)) = SocketFile"
  "fs_mode (published_fs path sg m f) (Suc (fs_next f)) = SOCKET_MODE"
  "fs_live (published_fs path sg m f) (Suc (fs_next f))"
  by (simp_all add: published_fs_def linked_fs_def restricted_fs_def staged_fs_def)

lemma stage_run:
  assumes "names_free path sg f"
  shows "foldl (\<lambda>s fails. listen_own path sg m fails s)
           \<lparr>ls_pc = StageCheck, ls_bound = None, ls_fs = f\<rparr> [False, False, False, False]
         = \<lparr>ls_pc = ReadInode, ls_bound = Some (Suc (fs_next f)), ls_fs = restricted_fs sg m f\<rparr>"
  using names_freeD [OF assms] by (simp add: listen_steps is_directory_def restricted_fs_def staged_fs_def)

lemma publish_run:
  assumes "names_free path sg f"
  shows "foldl (\<lambda>s fails. listen_own path sg m fails s)
           \<lparr>ls_pc = ReadInode, ls_bound = Some (Suc (fs_next f)), ls_fs = restricted_fs sg m f\<rparr> [False, False]
         = \<lparr>ls_pc = DiscardCheck (Inr (Suc (fs_next f))), ls_bound = Some (Suc (fs_next f)),
            ls_fs = linked_fs path sg m f\<rparr>"
  using names_freeD [OF assms] by (simp add: listen_steps restricted_fs_names linked_fs_def)

lemma discard_run:
  assumes "names_free path sg f"
  shows "foldl (\<lambda>s fails. listen_own path sg m fails s)
           \<lparr>ls_pc = DiscardCheck r, ls_bound = b, ls_fs = linked_fs path sg m f\<rparr> [False, False, False]
         = \<lparr>ls_pc = Listened r, ls_bound = b, ls_fs = published_fs path sg m f\<rparr>"
  using names_freeD [OF assms] by (simp add: listen_steps is_directory_def linked_fs_names published_fs_def)

lemma stage_publish_run:
  assumes "names_free path sg f" and "9 \<le> n"
  shows "foldl (\<lambda>s fails. listen_own path sg m fails s) \<lparr>ls_pc = StageCheck, ls_bound = None, ls_fs = f\<rparr> (replicate n False)
         = \<lparr>ls_pc = Listened (Inr (Suc (fs_next f))), ls_bound = Some (Suc (fs_next f)),
            ls_fs = published_fs path sg m f\<rparr>"
proof -
  have "replicate n False =
      [False, False, False, False] @ [False, False] @ [False, False, False] @ replicate (n - 9) False"
    using assms(2) by (simp flip: replicate_Suc)
  then show ?thesis
    by (simp only: foldl_append stage_run [OF assms(1)] publish_run [OF assms(1)] discard_run [OF assms(1)])
      (simp add: listened_stays)
qed

text \<open>The names are free once the stale socket, if there is one, is gone.\<close>

definition stale_at :: "string \<Rightarrow> fs \<Rightarrow> bool" where
  "stale_at path f = (case hm_get (fs_names f) path of
     Some j \<Rightarrow> fs_kind f j = SocketFile \<and> \<not> fs_live f j | None \<Rightarrow> True)"

definition cleared_fs :: "string \<Rightarrow> fs \<Rightarrow> fs" where
  "cleared_fs path f = (if hm_get (fs_names f) path = None then f else fs_unlink path f)"

lemma cleared_fs_next [simp]: "fs_next (cleared_fs path f) = fs_next f"
  by (simp add: cleared_fs_def)

lemma cleared_fs_names: "hm_get (fs_names (cleared_fs path f)) = (hm_get (fs_names f))(path := None)"
  by (auto simp: cleared_fs_def)

lemma remove_stale_run:
  assumes "stale_at path f"
  shows "\<exists>k \<le> 4. foldl (\<lambda>s fails. listen_own path sg m fails s) (listen_start f) (replicate k False)
           = \<lparr>ls_pc = StageCheck, ls_bound = None, ls_fs = cleared_fs path f\<rparr>"
proof (cases "hm_get (fs_names f) path")
  case None
  then have "foldl (\<lambda>s fails. listen_own path sg m fails s) (listen_start f) (replicate 1 False)
           = \<lparr>ls_pc = StageCheck, ls_bound = None, ls_fs = cleared_fs path f\<rparr>"
    by (simp add: listen_steps listen_start_def cleared_fs_def)
  then show ?thesis by (intro exI [of _ 1]) simp
next
  case (Some j)
  then have "foldl (\<lambda>s fails. listen_own path sg m fails s) (listen_start f) (replicate 4 False)
           = \<lparr>ls_pc = StageCheck, ls_bound = None, ls_fs = cleared_fs path f\<rparr>"
    using assms
    by (simp add: numeral_eq_Suc listen_steps listen_start_def cleared_fs_def stale_at_def probe_stale_def
        is_directory_def remove_file_def)
  then show ?thesis by (intro exI [of _ 4]) simp
qed

lemma free_address_published:
  assumes "stale_at path f" and "names_free path sg (cleared_fs path f)" and "13 \<le> n"
  shows "listen_calls path sg m (replicate n False) f =
    \<lparr>ls_pc = Listened (Inr (Suc (fs_next f))), ls_bound = Some (Suc (fs_next f)),
     ls_fs = published_fs path sg m (cleared_fs path f)\<rparr>"
proof -
  obtain k where "k \<le> 4" and k: "foldl (\<lambda>s fails. listen_own path sg m fails s) (listen_start f) (replicate k False)
           = \<lparr>ls_pc = StageCheck, ls_bound = None, ls_fs = cleared_fs path f\<rparr>"
    using remove_stale_run [OF assms(1)] by blast
  then have "replicate n False = replicate k False @ replicate (n - k) False" and "9 \<le> n - k"
    using assms(3) by (simp_all add: replicate_add [symmetric])
  then show ?thesis
    using stage_publish_run [OF assms(2)] by (simp add: listen_calls_def k)
qed

definition published_at :: "string \<Rightarrow> staging \<Rightarrow> fs \<Rightarrow> fs \<Rightarrow> bool" where
  "published_at path sg f g \<longleftrightarrow>
     hm_get (fs_names g) path = Some (Suc (fs_next f)) \<and> fs_kind g (Suc (fs_next f)) = SocketFile \<and>
     fs_mode g (Suc (fs_next f)) = SOCKET_MODE \<and> fs_live g (Suc (fs_next f)) \<and>
     hm_get (fs_names g) (sg_socket sg) = None \<and> hm_get (fs_names g) (sg_directory sg) = None \<and>
     (\<forall>p. p \<noteq> path \<longrightarrow> hm_get (fs_names g) p = hm_get (fs_names f) p)"

lemma published_at_published:
  assumes "names_free path sg (cleared_fs path f)"
  shows "published_at path sg f (published_fs path sg m (cleared_fs path f))"
  using names_freeD [OF assms] published_fs_inode [of path sg m "cleared_fs path f"]
  by (simp add: published_at_def published_fs_names [OF assms] cleared_fs_names)

text \<open>
  C24: What \<open>listen_ipc\<close> does to the address when no system call fails, nobody else acts and this
  attempt's staging directory does not exist yet (nor is the address in it).  Something that is not a
  socket is refused as existing, a socket a listener answers on as in use, and either way the file
  system is untouched.  A free address, or a stale socket at it, gives a listener on a fresh inode of
  mode 0600 that the address now names; the staging socket and its directory are both gone, and every
  name other than the address is as it was.
\<close>

theorem listen_ipc_decides:
  fixes umask_mode :: nat
  assumes "names_free path sg (cleared_fs path f)" and "13 \<le> n"
  defines "s \<equiv> listen_calls path sg umask_mode (replicate n False) f"
  shows "case hm_get (fs_names f) path of
      Some j \<Rightarrow>
        if fs_kind f j \<noteq> SocketFile then ls_pc s = Listened (Inl AlreadyExists) \<and> ls_fs s = f
        else if fs_live f j then ls_pc s = Listened (Inl AddrInUse) \<and> ls_fs s = f
        else ls_pc s = Listened (Inr (Suc (fs_next f))) \<and> published_at path sg f (ls_fs s)
    | None \<Rightarrow> ls_pc s = Listened (Inr (Suc (fs_next f))) \<and> published_at path sg f (ls_fs s)"
proof (cases "stale_at path f")
  case True
  then have "ls_pc s = Listened (Inr (Suc (fs_next f))) \<and> published_at path sg f (ls_fs s)"
    using assms by (simp add: free_address_published published_at_published)
  then show ?thesis using True by (simp add: stale_at_def split: option.splits)
next
  case False
  then obtain j where j: "hm_get (fs_names f) path = Some j" "fs_kind f j \<noteq> SocketFile \<or> fs_live f j"
    by (auto simp: stale_at_def split: option.splits)
  have "replicate n False = False # False # replicate (n - 2) False"
    using assms(2) by (simp flip: replicate_Suc)
  then show ?thesis using j by (simp add: s_def held_address_refused)
qed

theorem listen_ipc_decides_witness:
  "published_at ''/run/hub.sock'' listen_staging busy_fs
     (ls_fs (listen_calls ''/run/hub.sock'' listen_staging 493 (replicate 13 False) busy_fs))"
proof -
  have "names_free ''/run/hub.sock'' listen_staging (cleared_fs ''/run/hub.sock'' busy_fs)"
    by (simp add: names_free_def cleared_fs_names listen_staging_value dir_empty_iff below_def starts_with_def)
       (simp add: busy_fs_def hm_get_def)
  from listen_ipc_decides [OF this, of 13 493] show ?thesis
    by (simp add: busy_fs_def hm_get_def)
qed

text \<open>
  Whatever others do, an own system call of \<open>listen_ipc\<close> takes the address away from a file that
  holds it in two places only: the unlink of the socket that was judged stale and found unchanged, and the
  rename a file system without hard links for sockets falls back to.
\<close>

lemma listen_own_displaces:
  assumes "listen_inv sg s" and "path \<noteq> sg_directory sg" and "path \<noteq> sg_socket sg"
    and "hm_get (fs_names (ls_fs s)) path = Some j"
    and "hm_get (fs_names (ls_fs (listen_own path sg m fails s))) path \<noteq> Some j"
  shows "(\<exists>i. ls_pc s = RemoveStale i) \<or> (\<exists>i. ls_pc s = RenameOver i)"
  using assms
  by (cases "ls_pc s")
    (auto simp: listen_steps Let_def stage_failed_def remove_file_def remove_dir_def
      split: option.splits if_splits)

section \<open>Closing\<close>

text \<open>
  \<open>close\<close> takes the address away only if, at its own check, the address named the listener's inode; the
  file system is otherwise as it was but for the listener itself.
\<close>

lemma close_own_keeps:
  assumes "hm_get (fs_names f) (il_path l) = Some j" and "j \<noteq> il_inode l" and "pc \<noteq> CloseRemove"
  shows "fs_names (snd (close_own l fails (pc, f))) = fs_names f \<and> fst (close_own l fails (pc, f)) \<noteq> CloseRemove"
  using assms by (cases pc) (simp_all add: close_own_def)

lemma close_alone:
  "hm_get (fs_names (snd (foldl (\<lambda>s b. close_own l b s) (DropListener, f) [False, False, False]))) (il_path l) =
     (if hm_get (fs_names f) (il_path l) = Some (il_inode l) \<and> fs_kind f (il_inode l) \<noteq> DirectoryFile then None
      else hm_get (fs_names f) (il_path l))"
  by (simp add: close_own_def remove_file_def is_directory_def)

text \<open>Every port still held gets the farewell, once, and ends; a port nobody holds is left alone.\<close>

lemma tell_accepted_Cons:
  "tell_accepted S res (c # cs) code reason store =
     tell_accepted S res cs code reason (store(pcl_port c := (store (pcl_port c))\<lparr>cell_writer :=
       port_closer_close S (cell_alive (store (pcl_port c))) (cell_writer (store (pcl_port c)))
         (pcl_max_frame_bytes c) code (Some reason) (res (pcl_port c))\<rparr>))"
  by (simp add: tell_accepted_def)

lemma tell_accepted_other:
  "n \<notin> set (map pcl_port accepted) \<Longrightarrow> tell_accepted S res accepted code reason store n = store n"
  unfolding tell_accepted_def by (induction accepted arbitrary: store) auto

lemma tell_accepted_each:
  assumes "distinct (map pcl_port accepted)" and "c \<in> set accepted"
  shows "tell_accepted S res accepted code reason store (pcl_port c) =
    (store (pcl_port c))\<lparr>cell_writer :=
       port_closer_close S (cell_alive (store (pcl_port c))) (cell_writer (store (pcl_port c)))
         (pcl_max_frame_bytes c) code (Some reason) (res (pcl_port c))\<rparr>"
  using assms
proof (induction accepted arbitrary: store)
  case (Cons d ds)
  show ?case
  proof (cases "c = d")
    case True
    then show ?thesis using Cons.prems by (simp add: tell_accepted_Cons tell_accepted_other)
  next
    case False
    then have "c \<in> set ds" using Cons.prems by simp
    moreover from this have "pcl_port c \<in> pcl_port ` set ds" by (rule imageI)
    moreover from this have "pcl_port c \<noteq> pcl_port d" using Cons.prems(1) by auto
    ultimately show ?thesis using Cons by (simp add: tell_accepted_Cons)
  qed
qed simp

lemma filter_accepted_distinct:
  assumes "distinct (map pcl_port xs)" and "n \<notin> pcl_port ` set xs"
  shows "distinct (map pcl_port (filter P xs @ [\<lparr>pcl_port = n, pcl_max_frame_bytes = m\<rparr>]))"
  using assms by (auto simp: distinct_map_filter)

lemma il_accept_distinct:
  assumes "distinct (map pcl_port (il_accepted l))" and "n \<notin> pcl_port ` set (il_accepted l)"
    and "il_accept (Inr (n, cred)) store l = Inr (store', l', r)"
  shows "distinct (map pcl_port (il_accepted l'))"
  using assms filter_accepted_distinct [OF assms(1,2)]
  by (cases "socket_port (il_max_frame_bytes l)") (auto simp: il_accept_def Let_def)

text \<open>
  A listener that closes ends every session it accepted that is still open: each writer has taken the
  4000 farewell (as far as its handle took it) and gives up its handle, so a later send is refused.
\<close>

theorem listener_close_ends_sessions:
  assumes "distinct (map pcl_port (il_accepted l))" and "c \<in> set (il_accepted l)"
    and "closer_is_open store c"
  shows "cell_writer (il_tell S res l store (pcl_port c)) =
           sw_end S (cell_writer (store (pcl_port c))) close_RELEASED (Some ''listener closing'')
             (pcl_max_frame_bytes c) (res (pcl_port c)) \<and>
         \<not> sw_writer (cell_writer (il_tell S res l store (pcl_port c)))"
  using assms
  by (simp add: il_tell_def tell_accepted_each port_closer_close_def closer_is_open_def sw_end_def
      sw_shut_down_def sw_shut_down_take_def)

section \<open>Names\<close>

text \<open>A name that is accepted stays one segment of the directory.\<close>

lemma ipc_path_one_segment:
  "ipc_path (address_for_unix xdg tmp) name = Inr path \<Longrightarrow>
     CHR ''/'' \<notin> set (name @ ''.sock'') \<and>
     path = path_join (case xdg of Some d \<Rightarrow> if d \<noteq> [] then d else tmp | None \<Rightarrow> tmp) (name @ ''.sock'')"
  by (auto simp: ipc_path_def address_for_unix_def Let_def split: if_splits)

end
