(* ===== verification/Upgrade.thy ===== *)
theory Upgrade
  imports Websocket Deadline Ssh
begin

text \<open>
  The two ends of a WebSocket upgrade: the dialler (\<open>transports/websocket/client.rs\<close>) and the acceptor
  (\<open>transports/websocket/server.rs\<close>).

  The HTTP types are a third party's.  A request an acceptor sees is, for each lower-case header name,
  its values in order, each as what \<open>HeaderValue::to_str\<close> gives for it (None when it is not text).  A
  dialler's request is a table of headers; \<open>http\<close> below holds what parses a URL, a header name and a
  header value.  The upgrade itself (tungstenite, TLS) answers with its outcome.
\<close>

section \<open>The acceptor\<close>

type_synonym http_headers = "string \<Rightarrow> string option list"

definition SEC_WEBSOCKET_PROTOCOL :: string where "SEC_WEBSOCKET_PROTOCOL = ''sec-websocket-protocol''"
definition AUTHORIZATION :: string where "AUTHORIZATION = ''authorization''"
definition ORIGIN :: string where "ORIGIN = ''origin''"

definition first_header :: "http_headers \<Rightarrow> string \<Rightarrow> string option option" where
  "first_header headers name = (case headers name of [] \<Rightarrow> None | v # _ \<Rightarrow> Some v)"

record accept_options =
  ao_socket :: websocket_options
  ao_allowed_origins :: "string list"

definition accept_options_from :: "websocket_options \<Rightarrow> accept_options" where
  "accept_options_from socket = \<lparr>ao_socket = socket, ao_allowed_origins = []\<rparr>"

definition with_allowed_origins :: "string list \<Rightarrow> accept_options \<Rightarrow> accept_options" where
  "with_allowed_origins origins opts = opts\<lparr>ao_allowed_origins := origins\<rparr>"

definition is_origin_allowed :: "string option \<Rightarrow> string list \<Rightarrow> bool" where
  "is_origin_allowed origin allowed =
     (case origin of None \<Rightarrow> True | Some value \<Rightarrow> list_ex (\<lambda>entry. entry = value) allowed)"

datatype accept_error =
    AcceptHandshake string
  | AcceptSubprotocol
  | AcceptUnauthorized u16
  | AcceptOrigin string

definition accept_error_display :: "accept_error \<Rightarrow> string" where
  "accept_error_display e =
     (case e of
        AcceptHandshake why \<Rightarrow> ''the upgrade failed: '' @ why
      | AcceptSubprotocol \<Rightarrow>
          ''the dialler did not offer the '' @ debug_str WEBSOCKET_SUBPROTOCOL
          @ '' subprotocol; the socket was closed with '' @ show_nat (unat close_PROTOCOL_ERROR)
      | AcceptUnauthorized code \<Rightarrow>
          ''the credential was refused; the socket was closed with '' @ show_nat (unat code) @ '' and no hello was sent''
      | AcceptOrigin origin \<Rightarrow>
          ''the upgrade carried origin '' @ debug_str origin
          @ '', which this acceptor does not allow-list; the socket was closed with ''
          @ show_nat (unat close_FORBIDDEN) @ '' and no hello was sent'')"

record upgrade =
  up_offered_subprotocol :: bool
  up_bearer :: "string option"
  up_origin :: "string option"
  up_origin_undecodable :: bool

definition ascii_lower :: "char \<Rightarrow> char" where
  "ascii_lower c = (if CHR ''A'' \<le> c \<and> c \<le> CHR ''Z'' then char_of ((of_char c :: nat) + 32) else c)"

definition eq_ignore_ascii_case :: "string \<Rightarrow> string \<Rightarrow> bool" where
  "eq_ignore_ascii_case a b = (map ascii_lower a = map ascii_lower b)"

fun split_once :: "char \<Rightarrow> string \<Rightarrow> (string \<times> string) option" where
  "split_once d [] = None"
| "split_once d (c # cs) =
     (if c = d then Some ([], cs) else map_option (\<lambda>(a, b). (c # a, b)) (split_once d cs))"

definition bearer_token :: "string \<Rightarrow> string option" where
  "bearer_token authorization =
     (case split_once CHR 0x20 authorization of
        None \<Rightarrow> None
      | Some (scheme, token) \<Rightarrow>
          if \<not> eq_ignore_ascii_case scheme ''Bearer'' then None
          else let token = str_trim token in if token \<noteq> [] then Some token else None)"

definition upgrade_read :: "http_headers \<Rightarrow> upgrade" where
  "upgrade_read headers =
     (let offered = list_ex (\<lambda>offered. str_trim offered = WEBSOCKET_SUBPROTOCOL)
            (concat (map (split_on CHR 0x2C) (List.map_filter id (headers SEC_WEBSOCKET_PROTOCOL))));
          bearer = Option.bind (Option.bind (first_header headers AUTHORIZATION) id) bearer_token;
          origin_header = first_header headers ORIGIN;
          origin = Option.bind origin_header id
      in \<lparr>up_offered_subprotocol = offered, up_bearer = bearer, up_origin = origin,
          up_origin_undecodable = (origin_header \<noteq> None \<and> origin = None)\<rparr>)"

text \<open>The subprotocol the acceptor's response selects.\<close>

definition selected_subprotocol :: "upgrade \<Rightarrow> string option" where
  "selected_subprotocol up = (if up_offered_subprotocol up then Some WEBSOCKET_SUBPROTOCOL else None)"

text \<open>
  \<open>accept_websocket\<close>: the close frame sent, if any, and the error or the port.  \<open>handshake\<close> is how the
  upgrade went; \<open>authorize\<close> is the application's, Some code to refuse.
\<close>

definition accept_websocket :: "string + http_headers \<Rightarrow> accept_options \<Rightarrow> (upgrade \<Rightarrow> u16 option) \<Rightarrow> (u16 \<times> string) option \<times> (accept_error + websocket_options)" where
  "accept_websocket handshake opts authorize =
     (case handshake of
        Inl error \<Rightarrow> (None, Inl (AcceptHandshake error))
      | Inr headers \<Rightarrow>
          let up = upgrade_read headers in
          if \<not> up_offered_subprotocol up then
            (Some (close_PROTOCOL_ERROR, ''subprotocol not offered''), Inl AcceptSubprotocol)
          else if up_origin_undecodable up \<or> \<not> is_origin_allowed (up_origin up) (ao_allowed_origins opts) then
            let origin = (if up_origin_undecodable up then ''<undecodable>''
                          else case up_origin up of Some value \<Rightarrow> value | None \<Rightarrow> [])
            in (Some (close_FORBIDDEN, ''origin not allowed''), Inl (AcceptOrigin origin))
          else case authorize up of
            Some code \<Rightarrow> (Some (code, ''credential refused''), Inl (AcceptUnauthorized code))
          | None \<Rightarrow> (None, Inr (ao_socket opts)))"

section \<open>The dialler\<close>

record connect_options =
  co_bearer :: "string option"
  co_headers :: "(string \<times> string) list"
  co_websocket :: websocket_options

definition connect_options_default :: connect_options where
  "connect_options_default = \<lparr>co_bearer = None, co_headers = [], co_websocket = websocket_options_default\<rparr>"

definition with_bearer :: "string \<Rightarrow> connect_options \<Rightarrow> connect_options" where
  "with_bearer token opts = opts\<lparr>co_bearer := Some token\<rparr>"

definition with_header :: "string \<Rightarrow> string \<Rightarrow> connect_options \<Rightarrow> connect_options" where
  "with_header name value opts = opts\<lparr>co_headers := co_headers opts @ [(name, value)]\<rparr>"

definition with_websocket :: "websocket_options \<Rightarrow> connect_options \<Rightarrow> connect_options" where
  "with_websocket socket opts = opts\<lparr>co_websocket := socket\<rparr>"

type_synonym header_table = "(string, string) hmap"

text \<open>
  The parts of the HTTP crates the dialler calls: a URL as a request's first headers and its scheme,
  or an error's text; a header name in its normal form; whether text is a header value.
\<close>

record http =
  ht_request :: "string \<Rightarrow> string + header_table \<times> string option"
  ht_name :: "string \<Rightarrow> string option"
  ht_value :: "string \<Rightarrow> bool"

fun add_headers :: "http \<Rightarrow> string \<Rightarrow> (string \<times> string) list \<Rightarrow> header_table \<Rightarrow> connect_error + header_table" where
  "add_headers H url [] headers = Inr headers"
| "add_headers H url ((name, value) # rest) headers =
     (case ht_name H name of
        None \<Rightarrow> Inl (ConnectRefused url (debug_str name @ '' is not a header name''))
      | Some n \<Rightarrow>
          if \<not> ht_value H value then
            Inl (ConnectRefused url (''the value of '' @ debug_str n @ '' is not a header value''))
          else add_headers H url rest (hm_insert n value headers))"

definition build_request :: "http \<Rightarrow> string \<Rightarrow> connect_options \<Rightarrow> connect_error + header_table \<times> string option" where
  "build_request H url opts =
     (case ht_request H url of
        Inl error \<Rightarrow> Inl (ConnectRefused url (error @ ''; expected a ws:// or wss:// URL''))
      | Inr (headers, scheme) \<Rightarrow>
          let headers = hm_insert SEC_WEBSOCKET_PROTOCOL WEBSOCKET_SUBPROTOCOL headers in
          and_then
            (case co_bearer opts of
               None \<Rightarrow> Inr headers
             | Some token \<Rightarrow>
                 if ht_value H (''Bearer '' @ token) then Inr (hm_insert AUTHORIZATION (''Bearer '' @ token) headers)
                 else Inl (ConnectRefused url ''the bearer token is not a header value; expected visible ASCII''))
          (\<lambda>headers. and_then (add_headers H url (co_headers opts) headers)
          (\<lambda>headers. Inr (headers, scheme))))"

text \<open>How a handshake fails: of the operating system, or otherwise, each with its text.\<close>

datatype handshake_failure = HandshakeIo string | HandshakeOther string

definition handshake_error :: "string \<Rightarrow> handshake_failure \<Rightarrow> connect_error" where
  "handshake_error url failure =
     (case failure of HandshakeIo error \<Rightarrow> ConnectIo error | HandshakeOther error \<Rightarrow> ConnectRefused url error)"

definition debug_option :: "string option \<Rightarrow> string" where
  "debug_option x = (case x of None \<Rightarrow> ''None'' | Some s \<Rightarrow> ''Some('' @ debug_str s @ '')'')"

text \<open>
  \<open>connect_websocket\<close>: \<open>tls\<close> is the error of building a TLS connector, if it cannot be; the attempt
  gives the subprotocol the acceptor selected.
\<close>

definition dial_wake :: "string \<Rightarrow> duration \<times> bool \<times> (handshake_failure + string option) poll \<Rightarrow> string option wake" where
  "dial_wake url k =
     (case k of (waited, cancelled, attempt) \<Rightarrow>
        \<lparr>wk_waited = waited, wk_cancelled = cancelled,
         wk_attempt = (case attempt of Pending \<Rightarrow> Pending | Polled r \<Rightarrow> Polled (map_err (handshake_error url) r))\<rparr>)"

definition connect_websocket :: "http \<Rightarrow> string option \<Rightarrow> string \<Rightarrow> connect_options \<Rightarrow> connect_deadline
    \<Rightarrow> (duration \<times> bool \<times> (handshake_failure + string option) poll) list \<Rightarrow> (connect_error + websocket_options) poll" where
  "connect_websocket H tls url opts d wakes =
     (case build_request H url opts of
        Inl e \<Rightarrow> Polled (Inl e)
      | Inr (_, scheme) \<Rightarrow>
          (case (if scheme = Some ''wss'' then tls else None) of
             Some why \<Rightarrow> Polled (Inl (ConnectRefused url why))
           | None \<Rightarrow>
               (case snd (connect_within url d 0 (map (dial_wake url) wakes)) of
                  Pending \<Rightarrow> Pending
                | Polled (Inl e) \<Rightarrow> Polled (Inl e)
                | Polled (Inr selected) \<Rightarrow>
                    if selected \<noteq> Some WEBSOCKET_SUBPROTOCOL then
                      Polled (Inl (ConnectRefused url
                        (''the acceptor selected subprotocol '' @ debug_option selected @ ''; expected ''
                         @ debug_str WEBSOCKET_SUBPROTOCOL)))
                    else Polled (Inr (co_websocket opts)))))"

section \<open>What the acceptor decides\<close>

lemma is_origin_allowed_iff:
  "is_origin_allowed origin allowed \<longleftrightarrow> (case origin of None \<Rightarrow> True | Some value \<Rightarrow> value \<in> set allowed)"
  by (auto simp: is_origin_allowed_def list_ex_iff split: option.splits)

text \<open>
  C29: An acceptor hands out a port exactly for an upgrade that offered the subprotocol, whose origin is
  absent or allow-listed (an origin that is not text is neither), and that the application authorised.
  Every other completed upgrade is closed with a code (4400, 4403, or the application's own), and an
  upgrade refused for its subprotocol or origin is refused whatever the application would say.
\<close>

theorem accept_websocket_decides:
  "(is_ok (snd (accept_websocket (Inr headers) opts authorize)) \<longleftrightarrow>
      up_offered_subprotocol (upgrade_read headers)
      \<and> (case first_header headers ORIGIN of None \<Rightarrow> True | Some None \<Rightarrow> False
         | Some (Some value) \<Rightarrow> value \<in> set (ao_allowed_origins opts))
      \<and> authorize (upgrade_read headers) = None)
   \<and> (fst (accept_websocket (Inr headers) opts authorize) = None \<longleftrightarrow>
        snd (accept_websocket (Inr headers) opts authorize) = Inr (ao_socket opts))
   \<and> (case snd (accept_websocket (Inr headers) opts authorize) of
        Inl AcceptSubprotocol \<Rightarrow> map_option fst (fst (accept_websocket (Inr headers) opts authorize)) = Some 4400
          \<and> accept_websocket (Inr headers) opts authorize = accept_websocket (Inr headers) opts other
      | Inl (AcceptOrigin _) \<Rightarrow> map_option fst (fst (accept_websocket (Inr headers) opts authorize)) = Some 4403
          \<and> accept_websocket (Inr headers) opts authorize = accept_websocket (Inr headers) opts other
      | Inl (AcceptUnauthorized code) \<Rightarrow> map_option fst (fst (accept_websocket (Inr headers) opts authorize)) = Some code
          \<and> authorize (upgrade_read headers) = Some code
      | Inl (AcceptHandshake _) \<Rightarrow> False
      | Inr port \<Rightarrow> port = ao_socket opts)"
  by (auto simp: accept_websocket_def Let_def is_origin_allowed_iff upgrade_read_def close_PROTOCOL_ERROR_def close_FORBIDDEN_def split: option.splits)

section \<open>The two ends together\<close>

text \<open>A dialler's request as the acceptor sees it: each header once, its value text.\<close>

definition as_seen :: "header_table \<Rightarrow> http_headers" where
  "as_seen headers name = (case hm_get headers name of None \<Rightarrow> [] | Some value \<Rightarrow> [Some value])"

lemma add_headers_other:
  assumes "add_headers H url extra headers = Inr headers'" and "\<forall>(n, v) \<in> set extra. ht_name H n \<noteq> Some name"
  shows "hm_get headers' name = hm_get headers name"
  using assms
  by (induction H url extra headers rule: add_headers.induct) (auto split: option.splits if_splits)

lemma bearer_token_header: "bearer_token (''Bearer '' @ token) = (if str_trim token = [] then None else Some (str_trim token))"
  by (simp add: bearer_token_def eq_ignore_ascii_case_def Let_def)

lemma subprotocol_offered: "list_ex (\<lambda>offered. str_trim offered = WEBSOCKET_SUBPROTOCOL) (split_on CHR 0x2C WEBSOCKET_SUBPROTOCOL)"
  by code_simp

lemma build_request_Inr:
  assumes "build_request H url opts = Inr (headers, scheme)"
    and "\<forall>(n, v) \<in> set (co_headers opts). ht_name H n \<noteq> Some SEC_WEBSOCKET_PROTOCOL \<and> ht_name H n \<noteq> Some AUTHORIZATION"
  shows "hm_get headers SEC_WEBSOCKET_PROTOCOL = Some WEBSOCKET_SUBPROTOCOL"
    and "co_bearer opts = Some token \<Longrightarrow> hm_get headers AUTHORIZATION = Some (''Bearer '' @ token)"
proof -
  obtain base where base: "ht_request H url = Inr (base, scheme)"
    using assms(1) by (auto simp: build_request_def and_then_Inr Let_def split: sum.splits)
  obtain mid where mid: "add_headers H url (co_headers opts) mid = Inr headers"
    and bearer: "mid = (case co_bearer opts of None \<Rightarrow> hm_insert SEC_WEBSOCKET_PROTOCOL WEBSOCKET_SUBPROTOCOL base
       | Some token \<Rightarrow> hm_insert AUTHORIZATION (''Bearer '' @ token) (hm_insert SEC_WEBSOCKET_PROTOCOL WEBSOCKET_SUBPROTOCOL base))"
    using assms(1) base by (auto simp: build_request_def and_then_Inr Let_def split: option.splits if_splits)
  have sub: "hm_get headers SEC_WEBSOCKET_PROTOCOL = hm_get mid SEC_WEBSOCKET_PROTOCOL"
    and auth: "hm_get headers AUTHORIZATION = hm_get mid AUTHORIZATION"
    using assms(2) by (auto intro!: add_headers_other [OF mid])
  have "SEC_WEBSOCKET_PROTOCOL \<noteq> AUTHORIZATION" by (simp add: SEC_WEBSOCKET_PROTOCOL_def AUTHORIZATION_def)
  then show "hm_get headers SEC_WEBSOCKET_PROTOCOL = Some WEBSOCKET_SUBPROTOCOL"
    using sub bearer by (simp split: option.splits)
  show "hm_get headers AUTHORIZATION = Some (''Bearer '' @ token)" if "co_bearer opts = Some token"
    using auth bearer that by simp
qed

text \<open>
  C30: What a dialler puts in its upgrade an acceptor reads back: the subprotocol is offered, and a
  bearer token that is not blank arrives as it was given, surrounding whitespace apart.  So when the
  dialler sets no \<open>origin\<close>, the acceptor's application authorises the upgrade and TLS is available where
  the scheme is \<open>wss\<close>, both ends get a port, the dialler at the first wake-up that finds the handshake
  complete.  The headers the dialler's caller adds must name neither \<open>sec-websocket-protocol\<close> nor
  \<open>authorization\<close>: they are put in last and would replace what the client set.
\<close>

theorem upgrade_round_trip:
  assumes "build_request H url opts = Inr (headers, scheme)"
    and "\<forall>(n, v) \<in> set (co_headers opts). ht_name H n \<noteq> Some SEC_WEBSOCKET_PROTOCOL \<and> ht_name H n \<noteq> Some AUTHORIZATION"
    and "co_bearer opts = Some token" and "str_trim token \<noteq> []"
    and "hm_get headers ORIGIN = None" and "authorize (upgrade_read (as_seen headers)) = None"
    and "scheme = Some ''wss'' \<longrightarrow> tls = None"
  shows "up_bearer (upgrade_read (as_seen headers)) = Some (str_trim token)
    \<and> accept_websocket (Inr (as_seen headers)) accepting authorize = (None, Inr (ao_socket accepting))
    \<and> connect_websocket H tls url opts connect_deadline_default
         [(waited, cancelled, Polled (Inr (selected_subprotocol (upgrade_read (as_seen headers)))))] =
       Polled (Inr (co_websocket opts))"
proof -
  let ?up = "upgrade_read (as_seen headers)"
  have sub: "as_seen headers SEC_WEBSOCKET_PROTOCOL = [Some WEBSOCKET_SUBPROTOCOL]"
    and auth: "as_seen headers AUTHORIZATION = [Some (''Bearer '' @ token)]" and origin: "as_seen headers ORIGIN = []"
    using build_request_Inr [OF assms(1,2)] assms(3,5) by (simp_all add: as_seen_def)
  have offered: "up_offered_subprotocol ?up"
    using subprotocol_offered sub by (simp add: upgrade_read_def Let_def List.map_filter_def)
  have bearer: "up_bearer ?up = Some (str_trim token)"
    using auth assms(4) bearer_token_header [of token]
    by (simp add: upgrade_read_def Let_def first_header_def)
  have no_origin: "up_origin ?up = None" "\<not> up_origin_undecodable ?up"
    using origin by (simp_all add: upgrade_read_def Let_def first_header_def)
  have "accept_websocket (Inr (as_seen headers)) accepting authorize = (None, Inr (ao_socket accepting))"
    using offered no_origin assms(6) by (simp add: accept_websocket_def Let_def is_origin_allowed_def)
  moreover have "connect_websocket H tls url opts connect_deadline_default
      [(waited, cancelled, Polled (Inr (selected_subprotocol ?up)))] = Polled (Inr (co_websocket opts))"
    using assms(1,7) offered
    by (auto simp: connect_websocket_def dial_wake_def connect_deadline_default_def dl_cancelled_def dl_elapsed_def
        selected_subprotocol_def map_err_def)
  ultimately show ?thesis using bearer by blast
qed

text \<open>A plain HTTP layer: every URL is a request, names are taken as they are, all text is a value.\<close>

definition plain_http :: http where
  "plain_http = \<lparr>ht_request = (\<lambda>url. Inr ([(''host'', url)], Some ''ws'')), ht_name = Some, ht_value = (\<lambda>v. True)\<rparr>"

theorem upgrade_round_trip_witness:
  "\<exists>headers. build_request plain_http ''hub'' (with_bearer ''s3cret'' connect_options_default) = Inr (headers, Some ''ws'')
     \<and> up_bearer (upgrade_read (as_seen headers)) = Some ''s3cret''"
proof -
  let ?opts = "with_bearer ''s3cret'' connect_options_default"
  obtain headers where b: "build_request plain_http ''hub'' ?opts = Inr (headers, Some ''ws'')"
    and o: "hm_get headers ORIGIN = None"
    by (simp add: build_request_def plain_http_def with_bearer_def connect_options_default_def Let_def
        hm_get_def ORIGIN_def AUTHORIZATION_def SEC_WEBSOCKET_PROTOCOL_def hm_insert_def)
  have trim: "str_trim ''s3cret'' = ''s3cret''" by code_simp
  have "\<forall>(n, v) \<in> set (co_headers ?opts). ht_name plain_http n \<noteq> Some SEC_WEBSOCKET_PROTOCOL \<and> ht_name plain_http n \<noteq> Some AUTHORIZATION"
    and "co_bearer ?opts = Some ''s3cret''"
    by (simp_all add: with_bearer_def connect_options_default_def)
  from upgrade_round_trip [OF b this _ o, of "\<lambda>_. None" None] b trim show ?thesis by auto
qed

end
