(* ===== verification/Session_Pair.thy ===== *)
theory Session_Pair
  imports Session_Delivery
begin

text \<open>
  Two sessions joined by a port each way.  A side is a session with the frames it has read so far and
  the \<open>request\<close> calls made on its handle; what it may read next is the next frame the other
  side's port took, in order, and after the last one how that port ended.  The connection may also be
  lost at any moment.  The actions are those of \<open>Session_Trace\<close>, of either side in any order.
\<close>

section \<open>One side\<close>

text \<open>
  How often \<open>request\<close> was called, and the calls that were given a reply channel: its name, the method
  and the parameters.
\<close>

type_synonym call_log = "nat \<times> (reply_ref \<times> string \<times> json) list"

record side =
  sd_at :: "phase \<times> session"
  sd_got :: "frame list"
  sd_calls :: call_log

definition side_open :: "session \<Rightarrow> side" where
  "side_open s = \<lparr>sd_at = (Starting, s), sd_got = [], sd_calls = (0, [])\<rparr>"

fun act_reads :: "action \<Rightarrow> phase \<times> session \<Rightarrow> frame list" where
  "act_reads (ActTurn rd joined) (Looping, s) = read_frame rd s"
| "act_reads _ _ = []"

fun log_call :: "serde_json \<Rightarrow> action \<Rightarrow> phase \<times> session \<Rightarrow> call_log \<Rightarrow> call_log" where
  "log_call S (ActHandle (HRequest method params options)) (ph, s) (n, asked) =
     (Suc n, asked @ (case accepted (snd (request_start S method params options s)) of
                        Some call \<Rightarrow> [(rc_reply call, method, params)] | None \<Rightarrow> []))"
| "log_call S _ _ calls = calls"

definition side_act :: "serde_json \<Rightarrow> (nat \<Rightarrow> send_outcome) \<Rightarrow> action \<Rightarrow> side \<Rightarrow> side" where
  "side_act S port a d =
     \<lparr>sd_at = act S port a (sd_at d), sd_got = sd_got d @ act_reads a (sd_at d),
      sd_calls = log_call S a (sd_at d) (sd_calls d)\<rparr>"

text \<open>
  \<open>service\<close> is what the side's handlers compute from the method and the parameters: a handler task
  that settles (and does not panic) settles with it.
\<close>

definition settles_as :: "(string \<Rightarrow> json \<Rightarrow> handler_outcome) \<Rightarrow> readiness \<Rightarrow> session \<Rightarrow> bool" where
  "settles_as service rd s =
     (case rd_settled rd of
        Some (t, Inr out) \<Rightarrow>
          (case hm_get (rt_tasks (dr_tracking (ss_driver s))) t of
             Some tk \<Rightarrow> out = service (cc_method (tk_context tk)) (tk_params tk)
           | None \<Rightarrow> True)
      | _ \<Rightarrow> True)"

fun act_serves :: "(string \<Rightarrow> json \<Rightarrow> handler_outcome) \<Rightarrow> action \<Rightarrow> phase \<times> session \<Rightarrow> bool" where
  "act_serves service (ActHello outcome) x = (outcome = Sent)"
| "act_serves service (ActTurn rd joined) (ph, s) = settles_as service rd s"
| "act_serves service _ x = True"

inductive party :: "serde_json \<Rightarrow> (nat \<Rightarrow> send_outcome) \<Rightarrow> nat option \<Rightarrow> session_options
    \<Rightarrow> (string \<Rightarrow> json \<Rightarrow> handler_outcome) \<Rightarrow> side \<Rightarrow> bool"
  for S port ceiling options service where
  party_open: "session_open ceiling options = Inr s \<Longrightarrow> party S port ceiling options service (side_open s)"
| party_act: "party S port ceiling options service d \<Longrightarrow> act_serves service a (sd_at d) \<Longrightarrow>
    party S port ceiling options service (side_act S port a d)"

lemma party_reachable:
  "party S port ceiling options service d \<Longrightarrow> session_reachable S port ceiling options (sd_at d)"
proof (induction rule: party.induct)
  case (party_open s)
  then show ?case by (simp add: side_open_def reach_open)
next
  case (party_act d a)
  then show ?case
    using act_step [of S port a "sd_at d"] by (auto simp: side_act_def intro: reach_step)
qed

section \<open>The link\<close>

definition carried :: "(nat \<Rightarrow> send_outcome) \<Rightarrow> session \<Rightarrow> frame list" where
  "carried port s =
     (case ss_hello s of Some h \<Rightarrow> [Hello h] | None \<Rightarrow> [])
     @ map snd (filter (\<lambda>(n, f). port n = Sent) (List.enumerate 0 (wr_sent (ss_writer s))))"

definition end_item :: "session \<Rightarrow> inbound" where
  "end_item s = InClosed (case ss_port_close s of Some (code, reason) \<Rightarrow> PortClosed (Some code) reason
                                               | None \<Rightarrow> PortClosed None None)"

text \<open>What the port offers the side that has read \<open>n\<close> frames.\<close>

definition offer :: "(nat \<Rightarrow> send_outcome) \<Rightarrow> phase \<times> session \<Rightarrow> nat \<Rightarrow> inbound option poll" where
  "offer port x n =
     (let fs = carried port (snd x) in
      if n < length fs then Polled (Some (InFrame (fs ! n)))
      else case fst x of Finished _ \<Rightarrow> Polled (Some (end_item (snd x))) | _ \<Rightarrow> Pending)"

fun is_frame :: "inbound option poll \<Rightarrow> bool" where
  "is_frame (Polled (Some (InFrame f))) = True"
| "is_frame _ = False"

text \<open>A turn that reads a frame reads the one on offer.\<close>

fun act_linked :: "inbound option poll \<Rightarrow> action \<Rightarrow> bool" where
  "act_linked item (ActTurn rd joined) = (is_frame (rd_inbound rd) \<longrightarrow> rd_inbound rd = item)"
| "act_linked item _ = True"

record endpoint =
  en_port :: "nat \<Rightarrow> send_outcome"
  en_ceiling :: "nat option"
  en_options :: session_options
  en_service :: "string \<Rightarrow> json \<Rightarrow> handler_outcome"

inductive pair_reachable :: "serde_json \<Rightarrow> endpoint \<Rightarrow> endpoint \<Rightarrow> side \<Rightarrow> side \<Rightarrow> bool"
  for S :: serde_json and ea :: endpoint and eb :: endpoint where
  pair_open: "session_open (en_ceiling ea) (en_options ea) = Inr s \<Longrightarrow>
    session_open (en_ceiling eb) (en_options eb) = Inr t \<Longrightarrow>
    pair_reachable S ea eb (side_open s) (side_open t)"
| pair_left: "pair_reachable S ea eb a b \<Longrightarrow> act_serves (en_service ea) x (sd_at a) \<Longrightarrow>
    act_linked (offer (en_port eb) (sd_at b) (length (sd_got a))) x \<Longrightarrow>
    pair_reachable S ea eb (side_act S (en_port ea) x a) b"
| pair_right: "pair_reachable S ea eb a b \<Longrightarrow> act_serves (en_service eb) x (sd_at b) \<Longrightarrow>
    act_linked (offer (en_port ea) (sd_at a) (length (sd_got b))) x \<Longrightarrow>
    pair_reachable S ea eb a (side_act S (en_port eb) x b)"

abbreviation (input) party_at :: "serde_json \<Rightarrow> endpoint \<Rightarrow> side \<Rightarrow> bool" where
  "party_at S e \<equiv> party S (en_port e) (en_ceiling e) (en_options e) (en_service e)"

lemma pair_parties: "pair_reachable S ea eb a b \<Longrightarrow> party_at S ea a \<and> party_at S eb b"
  by (induction rule: pair_reachable.induct) (auto intro: party.intros)

lemma pair_sym: "pair_reachable S ea eb a b \<Longrightarrow> pair_reachable S eb ea b a"
  by (induction rule: pair_reachable.induct) (auto intro: pair_reachable.intros)

end
