(* ===== verification/Pair_Laws.thy ===== *)
theory Pair_Laws
  imports Session_Pair "HOL-Library.Sublist"
begin

text \<open>
  What two connected sessions promise together: a result a caller receives is what the other side's
  handlers compute for the request that caller made, the events a side reads follow the protocol's
  sequence rules, and a request on an idle pair is answered.
\<close>

section \<open>The link only grows\<close>

lemma enqueue_sent [simp]: "wr_sent (enqueue f w) = wr_sent w"
  by (simp add: enqueue_def)

definition outward :: "session \<Rightarrow> hello option \<times> frame list" where
  "outward s = (ss_hello s, wr_sent (ss_writer s))"

lemma delivered_outward: "outward s' = outward s \<Longrightarrow> carried port s' = carried port s"
  by (simp add: outward_def carried_def)

lemma outward_dispatch:
  "dispatched s (with_dispatch f s) \<Longrightarrow> outward (with_dispatch f s) = outward s"
  by (auto simp: dispatched_def outward_def) (simp_all add: with_dispatch_def split: prod.split)

lemma outward_settled: "outward (on_settled S t out s) = outward s"
  using dispatched_settled [of s S t out] unfolding on_settled_def by (rule outward_dispatch)

lemma outward_frame: "outward (fst (on_frame f s)) = outward s"
  using outward_dispatch [OF dispatched_request]
  by (cases f) (simp_all add: on_frame_def outward_def settle_pending_def split: prod.split)

lemma outward_command: "outward (fst (on_command c (take_command s rest))) = outward s"
  by (cases c) (simp_all add: on_command_def take_command_def outward_def Let_def split: frame.split)

lemma outward_turn: "outward (fst (loop_turn S rd s)) = outward s"
proof -
  have "outward (build_liveness s) = outward s" by (simp add: build_liveness_def outward_def)
  then show ?thesis
    using loop_turn_cases [where S = S and rd = rd and s = s]
    by (elim disjE exE conjE)
      (simp_all add: outward_settled outward_frame outward_command, simp_all add: outward_def on_liveness_tick_def)
qed

lemma outward_handle: "outward (handle_call S oper s) = outward s"
proof -
  have "ss_hello (handle_call S oper s) = ss_hello s"
  proof (cases oper)
    case (HRequest m p ro)
    then show ?thesis using request_start_cases [of S m p ro s] by (auto simp: handle_call_def)
  qed (simp_all add: handle_call_def on_shared_def send_cancel_def)
  then show ?thesis by (simp add: outward_def handle_call_driver)
qed

lemma starting_fresh:
  "session_reachable S port ceiling options x \<Longrightarrow> fst x = Starting \<Longrightarrow> outward (snd x) = (None, [])"
proof (induction rule: session_reachable.induct)
  case (reach_open s)
  then show ?case by (auto simp: session_open_def and_then_Inr outward_def writer_spawn_def Let_def)
next
  case (reach_step x y)
  from reach_step(2) show ?case
  proof (cases rule: session_step.cases)
    case (step_handle ph s oper)
    with reach_step show ?thesis by (simp add: outward_handle)
  qed (use reach_step.prems in auto)
qed

definition grows :: "session \<Rightarrow> session \<Rightarrow> bool" where
  "grows s s' \<longleftrightarrow> ss_hello s' = ss_hello s \<and> prefix (wr_sent (ss_writer s)) (wr_sent (ss_writer s'))"

lemma grows_outward: "outward s' = outward s \<Longrightarrow> grows s s'"
  by (simp add: outward_def grows_def)

lemma grows_delivered:
  assumes "grows s s'"
  shows "prefix (carried port s) (carried port s')"
proof -
  from assms obtain zs where "wr_sent (ss_writer s') = wr_sent (ss_writer s) @ zs"
    unfolding grows_def by (blast elim: prefixE)
  then show ?thesis using assms by (simp add: carried_def grows_def enumerate_append_eq)
qed

lemma writer_turn_grows: "prefix (wr_sent w) (wr_sent (writer_turn port w))"
  by (simp add: writer_turn_def Let_def split: list.split outbound.split)

lemma writer_turns_grow: "prefix (wr_sent w) (wr_sent ((writer_turn port ^^ n) w))"
  by (induction n) (auto intro: prefix_order.trans writer_turn_grows)

lemma teardown_grows: "grows s (fst (teardown_run port joined reason s))"
proof -
  have "ss_hello (fst (teardown_run port joined reason s)) = ss_hello s"
    by (simp add: teardown_run_def drop_inbox_def Let_def split: prod.split)
  moreover have "prefix (wr_sent (ss_writer s)) (wr_sent (shut_down port (ss_writer s)))"
    using writer_turns_grow [of "(ss_writer s)\<lparr>wr_queue := wr_queue (ss_writer s) @ [Shutdown]\<rparr>"]
      writer_turns_grow [of "ss_writer s"]
    by (simp add: shut_down_def Let_def del: funpow.simps)
  ultimately show ?thesis by (simp add: grows_def teardown_writer)
qed

lemma grows_trans: "grows s t \<Longrightarrow> grows t u \<Longrightarrow> grows s u"
  by (auto simp: grows_def)

lemma close_with_grows:
  assumes "grows s (fst r)"
  shows "grows s (snd (close_with port joined ph r))"
  using assms teardown_grows [of "fst r" port joined]
  by (auto simp: close_with_def split: prod.split option.split intro: grows_trans) (metis fst_conv grows_trans)

lemma act_delivered:
  assumes "session_reachable S port ceiling options x"
  shows "prefix (carried port (snd x)) (carried port (snd (act S port a x)))"
proof (cases "(S, port, a, x)" rule: act.cases)
  case (1 S' port' outcome s)
  then have "outward s = (None, [])" using starting_fresh [OF assms] by simp
  then have "carried port s = []" by (simp add: outward_def carried_def)
  with 1 show ?thesis by simp
next
  case (2 S' port' rd joined s)
  then have "grows s (snd (close_with port joined Looping (loop_turn S rd s)))"
    by (intro close_with_grows grows_outward outward_turn)
  with 2 show ?thesis by (simp add: grows_delivered)
next
  case (3 S' port' s)
  have "grows s (s\<lparr>ss_writer := writer_turn port (ss_writer s)\<rparr>)"
    by (simp add: grows_def writer_turn_grows)
  with 3 show ?thesis by (simp add: grows_delivered)
next
  case (4 S' port' oper ph s)
  then show ?thesis by (simp add: grows_delivered grows_outward outward_handle)
qed simp_all

lemma act_reads_linked:
  "act_linked (offer port x n) a \<Longrightarrow> n \<le> length (carried port (snd x)) \<Longrightarrow>
     act_reads a y = [] \<or> (\<exists>f. act_reads a y = [f] \<and> n < length (carried port (snd x)) \<and> f = carried port (snd x) ! n)"
  by (cases "(a, y)" rule: act_reads.cases)
    (auto simp: read_frame_def offer_def Let_def end_item_def split: poll.splits option.splits inbound.splits
      if_splits phase.splits)

lemma prefix_next: "prefix xs ys \<Longrightarrow> length xs < length ys \<Longrightarrow> prefix (xs @ [ys ! length xs]) ys"
  by (auto simp: prefix_def nth_append) (metis list.exhaust nth_Cons_0)

text \<open>One action of a side keeps both directions of the link.\<close>

lemma link_act:
  assumes "party_at S e d" and "prefix (sd_got d) (carried port x)"
    and "act_linked (offer port (ph, x) (length (sd_got d))) a"
  shows "prefix (sd_got (side_act S (en_port e) a d)) (carried port x)"
    and "prefix (carried (en_port e) (snd (sd_at d))) (carried (en_port e) (snd (sd_at (side_act S (en_port e) a d))))"
proof -
  have "length (sd_got d) \<le> length (carried port (snd (ph, x)))"
    using assms(2) by (simp add: prefix_length_le)
  from act_reads_linked [OF assms(3) this, of "sd_at d"]
  show "prefix (sd_got (side_act S (en_port e) a d)) (carried port x)"
    using assms(2) prefix_next [OF assms(2)] by (auto simp: side_act_def)
  show "prefix (carried (en_port e) (snd (sd_at d))) (carried (en_port e) (snd (sd_at (side_act S (en_port e) a d))))"
    using act_delivered [OF party_reachable [OF assms(1)]] by (simp add: side_act_def)
qed

text \<open>What each side has read is a prefix of what the other side's port took.\<close>

lemma pair_linked:
  "pair_reachable S ea eb a b \<Longrightarrow>
     prefix (sd_got a) (carried (en_port eb) (snd (sd_at b))) \<and> prefix (sd_got b) (carried (en_port ea) (snd (sd_at a)))"
proof (induction rule: pair_reachable.induct)
  case (pair_open s t)
  then show ?case by (simp add: side_open_def)
next
  case (pair_left a b x)
  have linked: "act_linked (offer (en_port eb) (fst (sd_at b), snd (sd_at b)) (length (sd_got a))) x"
    using pair_left.hyps(3) by simp
  from link_act [OF conjunct1 [OF pair_parties [OF pair_left.hyps(1)]] conjunct1 [OF pair_left.IH] linked] pair_left.IH
  show ?case by (meson prefix_order.trans)
next
  case (pair_right a b x)
  have linked: "act_linked (offer (en_port ea) (fst (sd_at a), snd (sd_at a)) (length (sd_got b))) x"
    using pair_right.hyps(3) by simp
  from link_act [OF conjunct2 [OF pair_parties [OF pair_right.hyps(1)]] conjunct2 [OF pair_right.IH] linked] pair_right.IH
  show ?case by (meson prefix_order.trans)
qed

section \<open>Invariants of a side with its log\<close>

text \<open>
  The counterpart of \<open>session_invariant\<close> for a side: \<open>I\<close> also speaks of the frames read and of the
  calls made, and may use that a settled handler answered as its \<open>service\<close> does.
\<close>

definition phase_holds :: "(session \<Rightarrow> bool) \<Rightarrow> (session \<Rightarrow> bool) \<Rightarrow> phase \<times> session \<Rightarrow> bool" where
  "phase_holds I F x = (case fst x of Finished _ \<Rightarrow> F (snd x) | _ \<Rightarrow> I (snd x))"

lemma phase_holds_simps [simp]:
  "phase_holds I F (Starting, s) = I s" "phase_holds I F (Looping, s) = I s" "phase_holds I F (Finished c, s) = F s"
  by (simp_all add: phase_holds_def)

locale side_invariant =
  fixes S :: serde_json and port :: "nat \<Rightarrow> send_outcome"
    and ceiling :: "nat option" and options :: session_options
    and service :: "string \<Rightarrow> json \<Rightarrow> handler_outcome"
    and I :: "frame list \<Rightarrow> call_log \<Rightarrow> session \<Rightarrow> bool" and F :: "frame list \<Rightarrow> call_log \<Rightarrow> session \<Rightarrow> bool"
  assumes at_open: "session_open ceiling options = Inr s \<Longrightarrow> I [] (0, []) s"
    and at_hello: "I got n s \<Longrightarrow> I got n (fst (run_hello S Sent s))"
    and at_liveness: "I got n s \<Longrightarrow> I got n (build_liveness s)"
    and at_timeout: "I got n s \<Longrightarrow> I got n (s\<lparr>ss_shared := fst (on_handshake_timeout d (ss_shared s))\<rparr>)"
    and at_tick: "I got n s \<Longrightarrow> request_inv s \<Longrightarrow> I got n (fst (on_liveness_tick s))"
    and at_settled: "I got n s \<Longrightarrow> request_inv s \<Longrightarrow> hm_get (rt_tasks (dr_tracking (ss_driver s))) t = Some tk \<Longrightarrow>
        (\<forall>r. out = Inr r \<longrightarrow> r = service (cc_method (tk_context tk)) (tk_params tk)) \<Longrightarrow> I got n (on_settled S t out s)"
    and at_command: "I got n s \<Longrightarrow> request_inv s \<Longrightarrow> ch_queue (sh_commands (ss_shared s)) = c # rest \<Longrightarrow>
        I got n (fst (on_command c (take_command s rest)))"
    and at_frame: "I got n s \<Longrightarrow> request_inv s \<Longrightarrow> I (got @ [f]) n (fst (on_frame f s))"
    and at_writer: "I got n s \<Longrightarrow> request_inv s \<Longrightarrow> I got n (s\<lparr>ss_writer := writer_turn port (ss_writer s)\<rparr>)"
    and at_handle: "I got n s \<Longrightarrow> I got (log_call S (ActHandle oper) (ph, s) n) (handle_call S oper s)"
    and at_teardown: "I got n s \<Longrightarrow> request_inv s \<Longrightarrow> F got n (fst (teardown_run port joined reason s))"
    and after_handle: "F got n s \<Longrightarrow> F got (log_call S (ActHandle oper) (ph, s) n) (handle_call S oper s)"
begin

lemma turn_keeps:
  assumes "I got n s" and "request_inv s" and "settles_as service rd s"
  shows "I (got @ read_frame rd s) n (fst (loop_turn S rd s))"
proof -
  let ?t = "build_liveness s"
  have I: "I got n ?t" using assms(1) by (rule at_liveness)
  have R: "request_inv ?t" using assms(2) by (rule requests.at_liveness)
  have same: "rt_tasks (dr_tracking (ss_driver ?t)) = rt_tasks (dr_tracking (ss_driver s))"
    by (simp add: build_liveness_def)
  have settled: "I got n (on_settled S k out ?t)"
    if rd: "rd_settled rd = Some (k, out)" and k: "hm_contains (rt_tasks (dr_tracking (ss_driver ?t))) k" for k out
  proof -
    obtain tk where tk: "hm_get (rt_tasks (dr_tracking (ss_driver ?t))) k = Some tk"
      using k by (auto simp: hm_contains_def)
    moreover have "\<forall>r. out = Inr r \<longrightarrow> r = service (cc_method (tk_context tk)) (tk_params tk)"
      using rd tk same assms(3) by (auto simp: settles_as_def)
    ultimately show ?thesis by (rule at_settled [OF I R])
  qed
  show ?thesis
    using loop_turn_cases [where S = S and rd = rd and s = s] I at_tick [OF I R] settled
      at_command [OF I R] at_frame [OF I R] at_timeout [OF I]
    by (elim disjE exE conjE) simp_all
qed

lemma close_keeps:
  assumes "I got n (fst r)" and "request_inv (fst r)"
  shows "phase_holds (I got n) (F got n) (close_with port joined Looping r)"
  using assms at_teardown [of got n "fst r" joined]
  by (auto simp: close_with_def phase_holds_def split: prod.splits option.splits) (metis fst_conv)

lemma party:
  "party S port ceiling options service d \<Longrightarrow>
     phase_holds (I (sd_got d) (sd_calls d)) (F (sd_got d) (sd_calls d)) (sd_at d)"
proof (induction rule: party.induct)
  case (party_open s)
  then show ?case by (simp add: side_open_def phase_holds_def at_open)
next
  case (party_act d a)
  have reach: "session_reachable S port ceiling options (sd_at d)"
    using party_act.hyps(1) by (rule party_reachable)
  show ?case
  proof (cases "(S, port, a, sd_at d)" rule: act.cases)
    case (1 S' port' outcome s)
    then have r: "request_inv s" using requests.reachable [of S port ceiling options Starting s] reach by simp
    then have "keeps request_inv request_inv (run_hello S Sent s)" by (rule requests.at_hello)
    then have "request_inv (fst (run_hello S Sent s))" by (simp add: keeps_def split: prod.splits option.splits)
    moreover have "side_act S port a d = \<lparr>sd_at = close_with port [] Looping (run_hello S Sent s),
        sd_got = sd_got d, sd_calls = sd_calls d\<rparr>"
      using 1 party_act.hyps(2) by (simp add: side_act_def)
    ultimately show ?thesis
      using 1 party_act.IH close_keeps [OF at_hello [of "sd_got d" "sd_calls d" s], of "[]"]
      by simp
  next
    case (2 S' port' rd joined s)
    then have r: "request_inv s" using requests.reachable [of S port ceiling options Looping s] reach by simp
    then have "request_inv (fst (loop_turn S rd s))"
      using requests.turn_keeps [of s S rd] by (simp add: keeps_def split: prod.splits option.splits)
    moreover have "side_act S port a d = \<lparr>sd_at = close_with port joined Looping (loop_turn S rd s),
        sd_got = sd_got d @ read_frame rd s, sd_calls = sd_calls d\<rparr>"
      using 2 by (simp add: side_act_def)
    ultimately show ?thesis
      using 2 party_act r close_keeps [OF turn_keeps [of "sd_got d" "sd_calls d" s rd], of joined]
      by simp
  next
    case (3 S' port' s)
    then have r: "request_inv s" using requests.reachable [of S port ceiling options Looping s] reach by simp
    with 3 party_act.IH at_writer [of "sd_got d" "sd_calls d" s] show ?thesis by (simp add: side_act_def)
  next
    case (4 S' port' oper ph s)
    with party_act.IH at_handle after_handle show ?thesis
      by (simp add: side_act_def phase_holds_def split: phase.splits)
  qed (use party_act.IH in \<open>simp_all add: side_act_def\<close>)
qed

end

section \<open>The side that answers\<close>

definition answered_from :: "(string \<Rightarrow> json \<Rightarrow> handler_outcome) \<Rightarrow> frame list \<Rightarrow> frame \<Rightarrow> bool" where
  "answered_from service got f =
     (case f of Res r \<Rightarrow> \<exists>m p. Req \<lparr>req_id = res_id r, req_method = m, req_params = p\<rparr> \<in> set got
                            \<and> service m p = Inr (res_result r)
      | _ \<Rightarrow> True)"

definition task_from :: "frame list \<Rightarrow> request_tracking \<Rightarrow> nat \<Rightarrow> task \<Rightarrow> bool" where
  "task_from got rt t tk \<longleftrightarrow>
     Req \<lparr>req_id = cc_id (tk_context tk), req_method = cc_method (tk_context tk), req_params = tk_params tk\<rparr> \<in> set got
     \<and> hm_get (rt_by_task_id rt) t = Some (cc_id (tk_context tk))"

definition tasks_from :: "frame list \<Rightarrow> request_tracking \<Rightarrow> bool" where
  "tasks_from got rt \<longleftrightarrow> (\<forall>t tk. hm_get (rt_tasks rt) t = Some tk \<longrightarrow> task_from got rt t tk)"

definition responder_inv :: "(string \<Rightarrow> json \<Rightarrow> handler_outcome) \<Rightarrow> frame list \<Rightarrow> call_log \<Rightarrow> session \<Rightarrow> bool" where
  "responder_inv service got n s \<longleftrightarrow>
     (\<forall>f \<in> set (out_frames (ss_writer s)). answered_from service got f) \<and> tasks_from got (dr_tracking (ss_driver s))"

lemma answered_from_more [simp]: "answered_from service got f \<Longrightarrow> answered_from service (got @ fs) f"
  by (auto simp: answered_from_def split: frame.splits)

lemma tasks_from_more: "tasks_from got rt \<Longrightarrow> tasks_from (got @ fs) rt"
  by (auto simp: tasks_from_def task_from_def)

lemma responder_more: "responder_inv service got n s \<Longrightarrow> responder_inv service (got @ fs) n s"
  by (auto simp: responder_inv_def tasks_from_more)

lemma responder_cong:
  "responder_inv service got n s \<Longrightarrow> ss_writer s' = ss_writer s \<Longrightarrow>
     dr_tracking (ss_driver s') = dr_tracking (ss_driver s) \<Longrightarrow> responder_inv service got n' s'"
  by (simp add: responder_inv_def)

lemma responder_enqueue:
  assumes "responder_inv service got n s" and "writer_open (ss_writer s)" and "answered_from service got f"
    and "ss_writer s' = enqueue f (ss_writer s)" and "tasks_from got (dr_tracking (ss_driver s'))"
  shows "responder_inv service got n s'"
  using assms by (auto simp: responder_inv_def)

text \<open>An answer that is an error, or a result the service computed.\<close>

lemma respond_error_enqueues:
  "\<exists>f. respond_error i e w = enqueue f w \<and> answered_from service got f"
  by (auto simp: respond_error_def answered_from_def)

lemma respond_result_enqueues:
  assumes "Req \<lparr>req_id = i, req_method = m, req_params = p\<rparr> \<in> set got" and "service m p = Inr v"
  shows "\<exists>f. respond_result S sh k i v w = enqueue f w \<and> answered_from service got f"
proof (cases "assert_fits S sh (Res \<lparr>res_id = i, res_result = v\<rparr>) (''The result of '' @ quoted k)")
  case (Inl e)
  then show ?thesis using respond_error_enqueues by (simp add: respond_result_def)
next
  case (Inr u)
  have "answered_from service got (Res \<lparr>res_id = i, res_result = v\<rparr>)"
    using assms by (auto simp: answered_from_def)
  with Inr show ?thesis by (auto simp: respond_result_def)
qed

lemma tasks_from_remove:
  "tasks_from got rt \<Longrightarrow> tasks_from got (rt\<lparr>rt_tasks := hm_remove t (rt_tasks rt),
     rt_by_task_id := hm_remove t (rt_by_task_id rt), rt_active := x\<rparr>)"
  by (auto simp: tasks_from_def task_from_def)

lemma responder_settled:
  assumes inv: "responder_inv service got n s" and req: "request_inv s"
    and tk: "hm_get (rt_tasks (dr_tracking (ss_driver s))) t = Some tk"
    and out: "\<forall>r. out = Inr r \<longrightarrow> r = service (cc_method (tk_context tk)) (tk_params tk)"
  shows "responder_inv service got n (on_settled S t out s)"
proof -
  let ?rt = "dr_tracking (ss_driver s)" and ?w = "ss_writer s" and ?i = "cc_id (tk_context tk)"
  have ok: "tracking_ok ?rt" and w: "writer_open ?w" using req by (simp_all add: request_inv_def Let_def)
  have from_req: "task_from got ?rt t tk" using inv tk by (simp add: responder_inv_def tasks_from_def)
  then have i: "hm_get (rt_by_task_id ?rt) t = Some ?i" by (simp add: task_from_def)
  with ok obtain a where a: "hm_get (rt_active ?rt) ?i = Some a" by (auto simp: tracking_ok_def)
  let ?rt' = "?rt\<lparr>rt_tasks := hm_remove t (rt_tasks ?rt), rt_by_task_id := hm_remove t (rt_by_task_id ?rt),
    rt_active := hm_remove ?i (rt_active ?rt)\<rparr>"
  let ?sh' = "(ss_shared s)\<lparr>sh_in_flight := sh_in_flight (ss_shared s) - 1\<rparr>"
  have result: "\<exists>f. respond_result S ?sh' (ar_method a) ?i v ?w = enqueue f ?w \<and> answered_from service got f"
    if "out = Inr (Inr v)" for v
    using that out from_req by (intro respond_result_enqueues) (auto simp: task_from_def)
  have "\<exists>f. on_handler_settled S t out (ss_shared s, join_next t ?rt, ?w) = (?sh', ?rt', enqueue f ?w)
      \<and> answered_from service got f"
    using i a result respond_error_enqueues [of ?i _ ?w service got]
    by (auto simp: on_handler_settled_def join_next_def Let_def split: sum.split)
  then obtain f where f: "answered_from service got f"
    and on: "on_settled S t out s = s\<lparr>ss_shared := ?sh', ss_driver := (ss_driver s)\<lparr>dr_tracking := ?rt'\<rparr>,
      ss_writer := enqueue f ?w\<rparr>"
    by (auto simp: on_settled_def with_dispatch_def)
  have "tasks_from got ?rt'" using inv by (simp add: responder_inv_def tasks_from_remove)
  then show ?thesis by (intro responder_enqueue [OF inv w f]) (simp_all add: on)
qed

lemma on_request_shape:
  "(\<exists>e. on_request r (sh, rt, w) = (sh, rt, respond_error (req_id r) e w))
   \<or> (\<exists>tk a sh'. tk_params tk = req_params r \<and> cc_id (tk_context tk) = req_id r \<and> cc_method (tk_context tk) = req_method r
        \<and> on_request r (sh, rt, w) =
            (sh', rt\<lparr>rt_tasks := hm_insert (rt_next_task rt) tk (rt_tasks rt),
                     rt_by_task_id := hm_insert (rt_next_task rt) (req_id r) (rt_by_task_id rt),
                     rt_active := a, rt_next_task := Suc (rt_next_task rt)\<rparr>, w))"
proof -
  let ?P = "\<lambda>tk. tk_params tk = req_params r \<and> cc_id (tk_context tk) = req_id r \<and> cc_method (tk_context tk) = req_method r"
  have "?P \<lparr>tk_handler = h, tk_params = req_params r, tk_context =
      \<lparr>cc_id = req_id r, cc_method = req_method r, cc_cancel = rt_next_task rt, cc_remote = remote\<rparr>\<rparr>" for h remote
    by simp
  then show ?thesis unfolding on_request_def
    by (simp only: prod.case Let_def split: option.split if_split prod.split) blast
qed

lemma responder_request:
  assumes inv: "responder_inv service got n s" and req: "request_inv s"
  shows "responder_inv service (got @ [Req r]) n (with_dispatch (on_request r) s)"
proof -
  let ?rt = "dr_tracking (ss_driver s)"
  have w: "writer_open (ss_writer s)" using req by (simp add: request_inv_def Let_def)
  have more: "responder_inv service (got @ [Req r]) n s" using inv by (rule responder_more)
  then have tasks: "tasks_from (got @ [Req r]) ?rt" by (simp add: responder_inv_def)
  from on_request_shape [of r "ss_shared s" ?rt "ss_writer s"] show ?thesis
  proof (elim disjE exE conjE)
    fix e
    assume on: "on_request r (ss_shared s, ?rt, ss_writer s) = (ss_shared s, ?rt, respond_error (req_id r) e (ss_writer s))"
    obtain f where "respond_error (req_id r) e (ss_writer s) = enqueue f (ss_writer s)"
      and "answered_from service (got @ [Req r]) f" using respond_error_enqueues by blast
    with on tasks show ?thesis by (intro responder_enqueue [OF more w]) (simp_all add: with_dispatch_def)
  next
    fix tk a sh'
    assume "tk_params tk = req_params r" "cc_id (tk_context tk) = req_id r" "cc_method (tk_context tk) = req_method r"
      and on: "on_request r (ss_shared s, ?rt, ss_writer s) =
            (sh', ?rt\<lparr>rt_tasks := hm_insert (rt_next_task ?rt) tk (rt_tasks ?rt),
                     rt_by_task_id := hm_insert (rt_next_task ?rt) (req_id r) (rt_by_task_id ?rt),
                     rt_active := a, rt_next_task := Suc (rt_next_task ?rt)\<rparr>, ss_writer s)"
    then show ?thesis using more
      by (auto simp: responder_inv_def with_dispatch_def tasks_from_def task_from_def)
  qed
qed

lemma responder_frame:
  assumes "responder_inv service got n s" and "request_inv s"
  shows "responder_inv service (got @ [f]) n (fst (on_frame f s))"
proof (cases f)
  case (Req r)
  have "responder_inv service (got @ [Req r]) n ((with_dispatch (on_request r) s)\<lparr>ss_arrived := x\<rparr>)" for x
    using responder_request [OF assms, of r] by (rule responder_cong) simp_all
  with Req show ?thesis by (simp add: on_frame_def)
next
  case Ping
  have "writer_open (ss_writer s)" using assms(2) by (simp add: request_inv_def Let_def)
  then show ?thesis using responder_more [OF assms(1), of "[f]"] Ping
    by (auto simp: on_frame_def responder_inv_def answered_from_def)
next
  case (Cancel c)
  have "tasks_from (got @ [f]) (on_cancel i (dr_tracking (ss_driver s)))" for i
    using responder_more [OF assms(1), of "[f]"]
    by (simp add: responder_inv_def on_cancel_def tasks_from_def task_from_def split: option.split)
  with Cancel responder_more [OF assms(1), of "[f]"] show ?thesis by (simp add: on_frame_def responder_inv_def)
qed (use responder_more [OF assms(1), of "[f]"] in
     \<open>auto simp: on_frame_def settle_pending_def elim!: responder_cong split: prod.split\<close>)

lemma responder_command:
  assumes "responder_inv service got n s" and "request_inv s" and "ch_queue (sh_commands (ss_shared s)) = c # rest"
  shows "responder_inv service got n (fst (on_command c (take_command s rest)))"
proof -
  have w: "writer_open (ss_writer s)" and c: "inbox_ok [c]"
    using assms(2,3) inbox_ok_ConsD by (auto simp: request_inv_def Let_def)
  show ?thesis
  proof (cases c)
    case (CmdRequest f reply)
    with w c assms(1) show ?thesis
      by (auto simp: on_command_def take_command_def responder_inv_def inbox_ok_def answered_from_def Let_def
          split: frame.splits)
  qed (use w c assms(1) in \<open>auto simp: on_command_def take_command_def responder_inv_def inbox_ok_def
         answered_from_def Let_def split: frame.splits\<close>)
qed

lemma tasks_from_join: "tasks_from got rt \<Longrightarrow> tasks_from got (fold join_next joined rt)"
proof (induction joined arbitrary: rt)
  case (Cons t ts)
  have "tasks_from got (join_next t rt)" using Cons.prems by (simp add: tasks_from_def task_from_def join_next_def)
  then show ?case using Cons.IH by simp
qed simp

lemma teardown_tracking:
  "\<exists>x. dr_tracking (ss_driver (fst (teardown_run port joined reason s))) =
     fold join_next joined ((dr_tracking (ss_driver s))\<lparr>rt_cancelled := x, rt_active := []\<rparr>)"
  by (simp add: teardown_run_def drop_inbox_def Let_def split: prod.split) blast

lemma responder_teardown:
  assumes "responder_inv service got n s" and "writer_open (ss_writer s)"
  shows "responder_inv service got n (fst (teardown_run port joined reason s))"
proof -
  obtain x where "dr_tracking (ss_driver (fst (teardown_run port joined reason s))) =
      fold join_next joined ((dr_tracking (ss_driver s))\<lparr>rt_cancelled := x, rt_active := []\<rparr>)"
    using teardown_tracking by blast
  moreover have "tasks_from got ((dr_tracking (ss_driver s))\<lparr>rt_cancelled := x, rt_active := []\<rparr>)"
    using assms(1) by (simp add: responder_inv_def tasks_from_def task_from_def)
  moreover have "out_frames (shut_down port (ss_writer s)) = out_frames (ss_writer s)"
    using shut_down_flushes [OF assms(2), of port] by (simp add: out_frames_def)
  ultimately show ?thesis
    using assms(1) by (simp add: responder_inv_def teardown_writer tasks_from_join)
qed

interpretation responder: side_invariant S port ceiling options service "responder_inv service" "responder_inv service"
  for S port ceiling options service
proof unfold_locales
  fix s got n d t tk out c rest f oper ph joined reason
  show "session_open ceiling options = Inr s \<Longrightarrow> responder_inv service [] (0, []) s"
    by (auto simp: session_open_def and_then_Inr responder_inv_def writer_spawn_def out_frames_def
        tasks_from_def request_tracking_default_def Let_def)
  assume I: "responder_inv service got n s"
  show "responder_inv service got n (fst (run_hello S Sent s))"
    using I by (rule responder_cong) (simp_all add: run_hello_def Let_def split: option.split)
  show "responder_inv service got n (build_liveness s)"
    using I by (rule responder_cong) (simp_all add: build_liveness_def)
  show "responder_inv service got n (s\<lparr>ss_shared := fst (on_handshake_timeout d (ss_shared s))\<rparr>)"
    using I by (rule responder_cong) simp_all
  show "responder_inv service got (log_call S (ActHandle oper) (ph, s) n) (handle_call S oper s)"
    using I by (rule responder_cong) (simp_all add: handle_call_driver)
  assume R: "request_inv s"
  then have w: "writer_open (ss_writer s)" by (simp add: request_inv_def Let_def)
  show "responder_inv service got n (fst (on_liveness_tick s))"
    using I w by (auto simp: on_liveness_tick_def responder_inv_def answered_from_def)
  show "hm_get (rt_tasks (dr_tracking (ss_driver s))) t = Some tk \<Longrightarrow>
      \<forall>r. out = Inr r \<longrightarrow> r = service (cc_method (tk_context tk)) (tk_params tk) \<Longrightarrow>
      responder_inv service got n (on_settled S t out s)"
    using I R by (rule responder_settled)
  show "ch_queue (sh_commands (ss_shared s)) = c # rest \<Longrightarrow>
      responder_inv service got n (fst (on_command c (take_command s rest)))"
    using I R by (rule responder_command)
  show "responder_inv service (got @ [f]) n (fst (on_frame f s))" using I R by (rule responder_frame)
  show "responder_inv service got n (s\<lparr>ss_writer := writer_turn port (ss_writer s)\<rparr>)"
    using I w by (simp add: responder_inv_def)
  show "responder_inv service got n (fst (teardown_run port joined reason s))"
    using I w by (rule responder_teardown)
qed

section \<open>The side that calls\<close>

fun requests_in :: "frame list \<Rightarrow> request list" where
  "requests_in [] = []"
| "requests_in (Req r # fs) = r # requests_in fs"
| "requests_in (_ # fs) = requests_in fs"

fun requests_queued :: "command list \<Rightarrow> (request \<times> reply_ref) list" where
  "requests_queued [] = []"
| "requests_queued (CmdRequest (Req r) reply # cs) = (r, reply) # requests_queued cs"
| "requests_queued (_ # cs) = requests_queued cs"

lemma requests_in_append [simp]: "requests_in (fs @ gs) = requests_in fs @ requests_in gs"
  by (induction fs rule: requests_in.induct) simp_all

lemma requests_queued_append [simp]: "requests_queued (cs @ ds) = requests_queued cs @ requests_queued ds"
  by (induction cs rule: requests_queued.induct) simp_all

lemma requests_in_mem: "Req r \<in> set fs \<longleftrightarrow> r \<in> set (requests_in fs)"
  by (induction fs rule: requests_in.induct) auto

text \<open>The requests a session's calls have made that reached its writer, in order.\<close>

definition made :: "session \<Rightarrow> request list" where
  "made s = requests_in (out_frames (ss_writer s))"

definition id_text :: "string \<Rightarrow> nat \<Rightarrow> string" where
  "id_text pre k = pre @ ''-'' @ show_nat k"

text \<open>
  The calls' ids: increasing numbers up to the session's counter, as long as the calls number less
  than \<open>2 ^ 64\<close>.
\<close>

definition ids_ok :: "nat \<Rightarrow> request list \<Rightarrow> shared \<Rightarrow> bool" where
  "ids_ok n rs sh \<longleftrightarrow> n < 2 ^ 64 \<longrightarrow> unat (sh_request_sequence sh) \<le> n \<and>
     (\<exists>ks. map req_id rs = map (id_text (sh_request_id_prefix sh)) ks \<and> sorted_wrt (<) ks
           \<and> (\<forall>k \<in> set ks. k \<le> unat (sh_request_sequence sh)))"

definition reply_made :: "frame list \<Rightarrow> request list \<Rightarrow> reply_ref \<times> reply_event \<Rightarrow> bool" where
  "reply_made got rs x =
     (case x of
        (r, Replied (Inr v)) \<Rightarrow> r < length rs \<and> Res \<lparr>res_id = req_id (rs ! r), res_result = v\<rparr> \<in> set got
      | _ \<Rightarrow> True)"

definition pending_made :: "request list \<Rightarrow> (string, pending_request) hmap \<Rightarrow> bool" where
  "pending_made rs pending \<longleftrightarrow>
     (\<forall>i pr. hm_get pending i = Some pr \<longrightarrow> pr_reply pr < length rs \<and> req_id (rs ! pr_reply pr) = i)"

definition queue_numbered :: "session \<Rightarrow> bool" where
  "queue_numbered s \<longleftrightarrow>
     (let q = requests_queued (inbox (ss_shared s))
      in map snd q = [length (made s)..<ss_next_reply s] \<and> length (made s) + length q = ss_next_reply s)"

definition asked :: "session \<Rightarrow> request list" where
  "asked s = made s @ map fst (requests_queued (inbox (ss_shared s)))"

definition numbered :: "request list \<Rightarrow> (reply_ref \<times> string \<times> json) list" where
  "numbered rs = List.enumerate 0 (map (\<lambda>q. (req_method q, req_params q)) rs)"

definition caller_inv :: "frame list \<Rightarrow> call_log \<Rightarrow> session \<Rightarrow> bool" where
  "caller_inv got n s \<longleftrightarrow>
     queue_numbered s \<and> pending_made (made s) (dr_pending (ss_driver s))
     \<and> list_all (reply_made got (made s)) (ss_replies s)
     \<and> ids_ok (fst n) (asked s) (ss_shared s) \<and> numbered (asked s) = snd n"

definition caller_finished :: "frame list \<Rightarrow> call_log \<Rightarrow> session \<Rightarrow> bool" where
  "caller_finished got n s \<longleftrightarrow>
     list_all (reply_made got (made s)) (ss_replies s) \<and> ids_ok (fst n) (made s) (ss_shared s)
     \<and> prefix (numbered (made s)) (snd n)"

lemma reply_made_more: "reply_made got rs x \<Longrightarrow> reply_made (got @ fs) (rs @ qs) x"
  by (auto simp: reply_made_def nth_append split: prod.splits reply_event.splits sum.splits)

lemma replies_made_more:
  "list_all (reply_made got rs) xs \<Longrightarrow> list_all (reply_made (got @ fs) rs) xs"
  "list_all (reply_made got rs) xs \<Longrightarrow> list_all (reply_made got (rs @ qs)) xs"
  using reply_made_more [where qs = "[]"] reply_made_more [where fs = "[]"] by (auto simp: list_all_iff)

lemma reply_made_dropped [simp]:
  "reply_made got rs (r, SenderDropped)" "reply_made got rs (r, Replied (Inl e))"
  by (simp_all add: reply_made_def)

lemma pending_made_more: "pending_made rs p \<Longrightarrow> pending_made (rs @ qs) p"
  by (fastforce simp: pending_made_def nth_append)

lemma ids_ok_prefix: "ids_ok n (rs @ qs) sh \<Longrightarrow> ids_ok n rs sh"
proof -
  assume ids: "ids_ok n (rs @ qs) sh"
  have "\<exists>js. map req_id rs = map f js \<and> sorted_wrt (<) js \<and> (\<forall>k \<in> set js. k \<le> m)"
    if "map req_id (rs @ qs) = map f ks" "sorted_wrt (<) ks" "\<forall>k \<in> set ks. k \<le> m" for f ks m
    using that(2,3) arg_cong [OF that(1), of "take (length rs)"]
    by (intro exI [of _ "take (length rs) ks"]) (auto simp: take_map dest: in_set_takeD)
  with ids show ?thesis unfolding ids_ok_def by metis
qed

lemma ids_ok_cong:
  "ids_ok n rs sh \<Longrightarrow> sh_request_sequence sh' = sh_request_sequence sh \<Longrightarrow>
     sh_request_id_prefix sh' = sh_request_id_prefix sh \<Longrightarrow> n \<le> n' \<Longrightarrow> ids_ok n' rs sh'"
  by (auto simp: ids_ok_def)

lemma id_text_inj: "id_text pre j = id_text pre k \<longleftrightarrow> j = k"
  by (simp add: id_text_def)

lemma ids_ok_distinct:
  assumes "ids_ok n rs sh" and "n < 2 ^ 64"
  shows "distinct (map req_id rs)"
proof -
  obtain ks where "map req_id rs = map (id_text (sh_request_id_prefix sh)) ks" and "sorted_wrt (<) ks"
    using assms by (auto simp: ids_ok_def)
  moreover from this(2) have "distinct ks" by (simp add: strict_sorted_iff)
  ultimately show ?thesis by (simp add: distinct_map inj_on_def id_text_inj)
qed

lemma ids_ok_next:
  assumes "ids_ok n rs sh"
  shows "ids_ok (Suc n) rs (fst (next_request_id sh))"
    and "req_id r = snd (next_request_id sh) \<Longrightarrow> ids_ok (Suc n) (rs @ [r]) (fst (next_request_id sh))"
proof -
  have next_seq: "unat (sh_request_sequence sh + 1) = Suc (unat (sh_request_sequence sh))"
    if "Suc n < 2 ^ 64" "unat (sh_request_sequence sh) \<le> n"
    using that by (simp add: unat_word_ariths)
  show "ids_ok (Suc n) rs (fst (next_request_id sh))"
    using assms next_seq by (fastforce simp: ids_ok_def next_request_id_def Let_def)
  show "ids_ok (Suc n) (rs @ [r]) (fst (next_request_id sh))" if id: "req_id r = snd (next_request_id sh)"
    unfolding ids_ok_def
  proof (intro impI conjI)
    assume n: "Suc n < 2 ^ 64"
    let ?q = "unat (sh_request_sequence sh)"
    obtain ks where ks: "map req_id rs = map (id_text (sh_request_id_prefix sh)) ks" "sorted_wrt (<) ks"
        "\<forall>k \<in> set ks. k \<le> ?q" and q: "?q \<le> n"
      using assms n by (auto simp: ids_ok_def)
    note suc = next_seq [OF n q]
    show "unat (sh_request_sequence (fst (next_request_id sh))) \<le> Suc n"
      using suc q by (simp add: next_request_id_def Let_def)
    have "sorted_wrt (<) (ks @ [Suc ?q])" using ks(2,3) by (auto simp: sorted_wrt_append le_imp_less_Suc)
    moreover have "map req_id (rs @ [r]) = map (id_text (sh_request_id_prefix sh)) (ks @ [Suc ?q])"
      using ks(1) id suc by (simp add: next_request_id_def id_text_def Let_def)
    ultimately show "\<exists>ks. map req_id (rs @ [r]) = map (id_text (sh_request_id_prefix (fst (next_request_id sh)))) ks
        \<and> sorted_wrt (<) ks \<and> (\<forall>k \<in> set ks. k \<le> unat (sh_request_sequence (fst (next_request_id sh))))"
      using ks(3) suc by (intro exI [of _ "ks @ [Suc ?q]"]) (auto simp: next_request_id_def Let_def)
  qed
qed

text \<open>What of a session the numbering of its calls rests on.\<close>

definition call_view :: "session \<Rightarrow> request list \<times> (request \<times> reply_ref) list \<times> reply_ref \<times> u64 \<times> string" where
  "call_view s = (made s, requests_queued (inbox (ss_shared s)), ss_next_reply s,
     sh_request_sequence (ss_shared s), sh_request_id_prefix (ss_shared s))"

lemma caller_cong:
  assumes "caller_inv got n s" and "call_view s' = call_view s"
    and "pending_made (made s) (dr_pending (ss_driver s'))" and "list_all (reply_made got' (made s)) (ss_replies s')"
    and "fst n \<le> fst n'" and "snd n' = snd n"
  shows "caller_inv got' n' s'"
  using assms ids_ok_cong [of "fst n" _ "ss_shared s" "ss_shared s'" "fst n'"]
  by (simp add: caller_inv_def call_view_def queue_numbered_def asked_def)

lemma caller_same:
  assumes "caller_inv got n s" and "call_view s' = call_view s"
    and "dr_pending (ss_driver s') = dr_pending (ss_driver s)" and "ss_replies s' = ss_replies s"
    and "fst n \<le> fst n'" and "snd n' = snd n"
  shows "caller_inv (got @ fs) n' s'"
  using assms by (intro caller_cong [OF assms(1,2)]) (simp_all add: caller_inv_def replies_made_more)

lemma made_enqueue: "writer_open w \<Longrightarrow> requests_in (out_frames (enqueue f w)) = requests_in (out_frames w) @ requests_in [f]"
  by simp

lemma answer_is_no_request: "answer_to i f \<Longrightarrow> requests_in [f] = []"
  unfolding answer_to_def by (drule spec [of _ i], cases f) (simp_all add: answers_def is_answer_def)

lemma call_view_dispatched:
  assumes "dispatched s s'" and "writer_open (ss_writer s)"
    and "sh_request_sequence (ss_shared s') = sh_request_sequence (ss_shared s)"
    and "sh_request_id_prefix (ss_shared s') = sh_request_id_prefix (ss_shared s)"
  shows "call_view s' = call_view s"
  using assms answer_is_no_request by (auto simp: dispatched_def call_view_def made_def inbox_def)

lemma numbering_kept [simp]:
  "sh_request_sequence (fst (on_hello h sh)) = sh_request_sequence sh"
  "sh_request_id_prefix (fst (on_hello h sh)) = sh_request_id_prefix sh"
  "sh_request_sequence (settle_ready o' sh) = sh_request_sequence sh"
  "sh_request_id_prefix (settle_ready o' sh) = sh_request_id_prefix sh"
  "sh_request_sequence (fan_out_event e sh) = sh_request_sequence sh"
  "sh_request_id_prefix (fan_out_event e sh) = sh_request_id_prefix sh"
  "sh_request_sequence (fan_out_pong sh) = sh_request_sequence sh"
  "sh_request_id_prefix (fan_out_pong sh) = sh_request_id_prefix sh"
  "sh_request_sequence (fst (send_command c sh)) = sh_request_sequence sh"
  "sh_request_id_prefix (fst (send_command c sh)) = sh_request_id_prefix sh"
  "sh_request_sequence (fst (emit S ei sh)) = sh_request_sequence sh"
  "sh_request_id_prefix (fst (emit S ei sh)) = sh_request_id_prefix sh"
  by (simp_all add: on_hello_def settle_ready_def fan_out_event_def fan_out_pong_def send_command_def emit_def
      ch_send_def Let_def split: option.split sum.split prod.split negotiation.split)

lemma numbering_registry [simp]:
  "sh_request_sequence (fst (session_handle m h sh)) = sh_request_sequence sh"
  "sh_request_id_prefix (fst (session_handle m h sh)) = sh_request_id_prefix sh"
  "sh_request_sequence (guard_drop g sh) = sh_request_sequence sh"
  "sh_request_id_prefix (guard_drop g sh) = sh_request_id_prefix sh"
  "sh_request_sequence (fst (subscribe_events sh)) = sh_request_sequence sh"
  "sh_request_id_prefix (fst (subscribe_events sh)) = sh_request_id_prefix sh"
  "sh_request_sequence (fst (subscribe_pongs sh)) = sh_request_sequence sh"
  "sh_request_id_prefix (fst (subscribe_pongs sh)) = sh_request_id_prefix sh"
  "sh_request_sequence (fst (events_recv k sh)) = sh_request_sequence sh"
  "sh_request_sequence (fst (pongs_recv k sh)) = sh_request_sequence sh"
  "sh_request_id_prefix (fst (events_recv k sh)) = sh_request_id_prefix sh"
  "sh_request_id_prefix (fst (pongs_recv k sh)) = sh_request_id_prefix sh"
  "sh_request_sequence (events_drop k sh) = sh_request_sequence sh"
  "sh_request_sequence (pongs_drop k sh) = sh_request_sequence sh"
  "sh_request_id_prefix (events_drop k sh) = sh_request_id_prefix sh"
  "sh_request_id_prefix (pongs_drop k sh) = sh_request_id_prefix sh"
  by (simp_all add: session_handle_def register_handler_def guard_drop_def subscribe_events_def subscribe_pongs_def
      events_recv_def events_drop_def pongs_recv_def pongs_drop_def Let_def split: option.split prod.split)

lemma numbering_dispatch:
  "sh_request_sequence (fst (on_request r (sh, rt, w))) = sh_request_sequence sh"
  "sh_request_id_prefix (fst (on_request r (sh, rt, w))) = sh_request_id_prefix sh"
  "sh_request_sequence (fst (on_handler_settled S t out (sh, rt, w))) = sh_request_sequence sh"
  "sh_request_id_prefix (fst (on_handler_settled S t out (sh, rt, w))) = sh_request_id_prefix sh"
  by (simp_all add: on_request_def on_handler_settled_def Let_def split: option.split sum.split)

lemma call_view_request:
  assumes "writer_open (ss_writer s)"
  shows "call_view (with_dispatch (on_request r) s) = call_view s"
  using dispatched_request assms
  by (rule call_view_dispatched)
    (simp_all add: with_dispatch_def case_prod_beta numbering_dispatch)

lemma call_view_settled:
  assumes "writer_open (ss_writer s)"
  shows "call_view (on_settled S t out s) = call_view s"
  using dispatched_settled assms
  by (rule call_view_dispatched)
    (simp_all add: on_settled_def with_dispatch_def case_prod_beta numbering_dispatch)

lemma caller_frame:
  assumes inv: "caller_inv got n s" and w: "writer_open (ss_writer s)"
  shows "caller_inv (got @ [f]) n (fst (on_frame f s))"
proof -
  have settle: "caller_inv (got @ [f]) n (settle_pending i out s)"
    if "\<And>v. out = Inr v \<Longrightarrow> f = Res \<lparr>res_id = i, res_result = v\<rparr>" for i out
  proof (rule caller_cong [OF inv])
    have pend: "pending_made (made s) (dr_pending (ss_driver s))" using inv by (simp add: caller_inv_def)
    then show "pending_made (made s) (dr_pending (ss_driver (settle_pending i out s)))"
      by (auto simp: settle_pending_def on_response_def pending_made_def split: option.split)
    have "list_all (reply_made (got @ [f]) (made s)) (snd (on_response i out (dr_pending (ss_driver s))))"
      using pend that by (cases out) (auto simp: on_response_def reply_made_def pending_made_def split: option.split)
    then show "list_all (reply_made (got @ [f]) (made s)) (ss_replies (settle_pending i out s))"
      using inv by (simp add: settle_pending_def caller_inv_def replies_made_more case_prod_beta)
  qed (simp_all add: call_view_def made_def settle_pending_def split: prod.split)
  show ?thesis
  proof (cases f)
    case (Req r)
    have "call_view (fst (on_frame f s)) = call_view s"
      using call_view_request [OF w, of r] Req by (simp add: on_frame_def call_view_def made_def)
    then show ?thesis using Req dispatched_request [of s r]
      by (intro caller_same [OF inv]) (simp_all add: on_frame_def dispatched_def)
  next
    case (Res r)
    then show ?thesis using settle [of "Inr (res_result r)" "res_id r"] by (simp add: on_frame_def)
  next
    case (Err e)
    then show ?thesis using settle [of "Inl (payload_error (err_error e))" "err_id e"] by (simp add: on_frame_def)
  qed (auto intro!: caller_same [OF inv] simp: on_frame_def call_view_def made_def step_simps w case_prod_beta)
qed

lemma pending_made_insert:
  "pending_made rs p \<Longrightarrow> pending_made (rs @ [r]) (hm_insert (req_id r) \<lparr>pr_method = m, pr_reply = length rs\<rparr> p)"
  using pending_made_more [of rs p "[r]"] by (auto simp: pending_made_def)

lemma pending_made_remove: "pending_made rs p \<Longrightarrow> pending_made rs (hm_remove i p)"
  by (auto simp: pending_made_def)

lemma dropped_made: "list_all (reply_made got rs) (dropped_reply i p)"
  by (simp add: dropped_reply_def split: option.split)

lemma upt_Cons_start: "x # xs = [m..<k] \<Longrightarrow> x = m \<and> xs = [Suc m..<k]"
  by (cases "m < k") (auto simp: upt_conv_Cons)

lemma caller_command:
  assumes inv: "caller_inv got n s" and req: "request_inv s" and c: "ch_queue (sh_commands (ss_shared s)) = c # rest"
  shows "caller_inv got n (fst (on_command c (take_command s rest)))"
proof -
  have w: "writer_open (ss_writer s)" and ok: "inbox_ok [c]"
    using req c inbox_ok_ConsD by (auto simp: request_inv_def Let_def)
  have pend: "pending_made (made s) (dr_pending (ss_driver s))" and rep: "list_all (reply_made got (made s)) (ss_replies s)"
    using inv by (simp_all add: caller_inv_def)
  show ?thesis
  proof (cases c)
    case (CmdRequest f reply)
    then obtain r where r: "c = CmdRequest (Req r) reply" "f = Req r" using ok by (auto simp: inbox_ok_def split: frame.splits)
    have q: "reply = length (made s)" "map snd (requests_queued rest) = [Suc (length (made s))..<ss_next_reply s]"
        "Suc (length (made s) + length (requests_queued rest)) = ss_next_reply s"
      using inv c r upt_Cons_start by (auto simp: caller_inv_def queue_numbered_def inbox_def Let_def)
    let ?s' = "fst (on_command c (take_command s rest))"
    have "made ?s' = made s @ [r]" using r w by (simp add: made_def on_command_def take_command_def Let_def)
    then show ?thesis
      using inv c r q replies_made_more(2) [OF rep] dropped_made pending_made_insert [OF pend, of r]
      by (auto simp: caller_inv_def asked_def queue_numbered_def inbox_def on_command_def take_command_def Let_def
          elim!: ids_ok_cong)
  next
    case (CmdCancel i forget)
    with w show ?thesis using pending_made_remove [OF pend] pend rep dropped_made
      by (intro caller_cong [OF inv]) (auto simp: call_view_def made_def inbox_def c on_command_def take_command_def Let_def)
  next
    case (CmdSend f)
    then have "requests_in [f] = []" using ok by (auto simp: inbox_ok_def split: frame.splits)
    with CmdSend w show ?thesis using pend rep
      by (intro caller_cong [OF inv]) (simp_all add: call_view_def made_def inbox_def c on_command_def take_command_def)
  qed (use pend rep in \<open>auto intro!: caller_cong [OF inv] simp: call_view_def made_def inbox_def c on_command_def take_command_def\<close>)
qed

lemma send_queues:
  "requests_queued [c] = [] \<Longrightarrow>
     requests_queued (inbox (fst (send_command c sh))) = requests_queued (inbox sh)"
  by (simp add: inbox_send)

lemma emit_queues: "requests_queued (inbox (fst (emit S ei sh))) = requests_queued (inbox sh)"
  using emit_shape [of S ei sh] by auto

lemma numbered_append: "numbered (rs @ qs) = numbered rs @ List.enumerate (length rs) (map (\<lambda>q. (req_method q, req_params q)) qs)"
  by (simp add: numbered_def enumerate_append_eq)

lemma asked_length: "queue_numbered s \<Longrightarrow> length (asked s) = ss_next_reply s"
  by (simp add: queue_numbered_def asked_def Let_def)

lemma caller_called:
  assumes inv: "caller_inv got (n, log) s" and recv: "ch_receiver (sh_commands (ss_shared s))"
  shows "caller_inv got (Suc n, log @ [(ss_next_reply s, m, p)])
    (s\<lparr>ss_shared := fst (send_command (request_command m p s) (fst (next_request_id (ss_shared s)))),
       ss_next_reply := Suc (ss_next_reply s)\<rparr>)"
    (is "caller_inv _ _ ?s'")
proof -
  let ?sh = "fst (next_request_id (ss_shared s))" and ?i = "snd (next_request_id (ss_shared s))"
  let ?r = "\<lparr>req_id = ?i, req_method = m, req_params = p\<rparr>"
  have box: "inbox (fst (send_command (request_command m p s) ?sh)) = inbox (ss_shared s) @ [CmdRequest (Req ?r) (ss_next_reply s)]"
    using recv by (simp add: inbox_send request_command_def) (simp add: next_request_id_def inbox_def Let_def)
  then have asked: "asked ?s' = asked s @ [?r]" by (simp add: asked_def made_def)
  have "ids_ok (Suc n) (asked s @ [?r]) ?sh"
    using inv by (intro ids_ok_next(2)) (simp_all add: caller_inv_def)
  then have "ids_ok (Suc n) (asked s @ [?r]) (fst (send_command (request_command m p s) ?sh))"
    by (auto elim: ids_ok_cong)
  moreover have "queue_numbered ?s'" using inv box by (auto simp: caller_inv_def queue_numbered_def made_def Let_def)
  moreover have "numbered (asked ?s') = log @ [(ss_next_reply s, m, p)]"
    using inv asked_length [of s] by (simp add: caller_inv_def asked numbered_append)
  ultimately show ?thesis using inv asked by (simp add: caller_inv_def made_def)
qed

lemma caller_handle:
  assumes inv: "caller_inv got n s"
  shows "caller_inv got (log_call S (ActHandle oper) (ph, s) n) (handle_call S oper s)"
proof -
  have same: "caller_inv got n' s'" if "call_view s' = call_view s" "ss_driver s' = ss_driver s"
    "ss_replies s' = ss_replies s" "fst n \<le> fst n'" "snd n' = snd n" for s' n'
    using caller_same [OF inv that(1), of n' "[]"] that by simp
  show ?thesis
  proof (cases oper)
    case (HRequest m p ro)
    let ?sh = "fst (next_request_id (ss_shared s))"
    obtain k log where n: "n = (k, log)" by (cases n)
    have "ids_ok (Suc k) (asked s) ?sh"
      using inv n by (intro ids_ok_next(1)) (simp add: caller_inv_def)
    moreover have "inbox ?sh = inbox (ss_shared s)" by (simp add: step_simps)
    ultimately have "caller_inv got (Suc k, log) (s\<lparr>ss_shared := ?sh\<rparr>)"
      using inv n by (simp add: caller_inv_def queue_numbered_def made_def asked_def)
    moreover have "caller_inv got (Suc k, log) s" by (rule same) (simp_all add: n)
    ultimately show ?thesis
      using HRequest n request_start_shape [of S m p ro s] caller_called [OF inv [unfolded n], of m p]
      by (auto simp: handle_call_def)
  qed (auto intro!: same simp: handle_call_def on_shared_def send_cancel_def close_now_def session_ping_def call_view_def
        made_def send_queues emit_queues step_simps)
qed

lemma failures_made: "list_all (reply_made got rs) (pending_failures code why p)"
  by (induction p) (auto simp: pending_failures_def reply_made_def)

lemma drops_made: "list_all (reply_made got rs) (inbox_drops cs)"
  by (induction cs rule: inbox_drops.induct) simp_all

lemma caller_teardown:
  assumes inv: "caller_inv got n s" and w: "writer_open (ss_writer s)"
  shows "caller_finished got n (fst (teardown_run port joined reason s))"
proof -
  let ?s' = "fst (teardown_run port joined reason s)"
  have "out_frames (shut_down port (ss_writer s)) = out_frames (ss_writer s)"
    using shut_down_flushes [OF w, of port] by (simp add: out_frames_def)
  then have made: "made ?s' = made s" by (simp add: made_def teardown_writer)
  have num: "sh_request_sequence (ss_shared ?s') = sh_request_sequence (ss_shared s)"
      "sh_request_id_prefix (ss_shared ?s') = sh_request_id_prefix (ss_shared s)"
    by (simp_all add: teardown_run_def drop_inbox_def clear_subscribers_def Let_def split: prod.split)
  have "ids_ok (fst n) (made s) (ss_shared s)" using inv by (auto simp: caller_inv_def asked_def intro: ids_ok_prefix)
  then have "ids_ok (fst n) (made s) (ss_shared ?s')" using num by (auto elim: ids_ok_cong)
  moreover have "list_all (reply_made got (made s)) (ss_replies ?s')"
    using inv by (simp add: teardown_run_def drop_inbox_def failures_made drops_made caller_inv_def Let_def split: prod.split)
  moreover have "prefix (numbered (made s)) (snd n)"
    using inv by (simp add: caller_inv_def asked_def numbered_append) (metis prefixI)
  ultimately show ?thesis by (simp add: caller_finished_def made)
qed

lemma caller_after:
  assumes fin: "caller_finished got n s"
  shows "caller_finished got (log_call S (ActHandle oper) (ph, s) n) (handle_call S oper s)"
proof -
  have same: "caller_finished got n' s'"
    if "ss_writer s' = ss_writer s" "ss_replies s' = ss_replies s" "ids_ok (fst n') (made s) (ss_shared s')" "prefix (snd n) (snd n')"
    for s' n'
    using fin that by (auto simp: caller_finished_def made_def)
  have ids: "ids_ok (fst n) (made s) (ss_shared s)" using fin by (simp add: caller_finished_def)
  note bump = ids_ok_next(1) [OF ids]
  show ?thesis
  proof (cases oper)
    case (HRequest m p ro)
    have "ids_ok (Suc (fst n)) (made s) (fst (send_command c (fst (next_request_id (ss_shared s)))))" for c
      using bump by (auto elim: ids_ok_cong)
    moreover have "ids_ok (Suc (fst n)) (made s) (ss_shared s)" using ids by (auto elim: ids_ok_cong)
    ultimately show ?thesis
      using HRequest bump request_start_shape [of S m p ro s]
      by (cases n) (auto intro!: same simp: handle_call_def)
  qed (use ids in \<open>auto intro!: same elim!: ids_ok_cong simp: handle_call_def on_shared_def send_cancel_def close_now_def session_ping_def\<close>)
qed

lemma numbering_register:
  "sh_request_sequence (register_all hs sh) = sh_request_sequence sh"
  by (induction hs arbitrary: sh) (auto simp: register_all_def register_handler_def Let_def)

lemma caller_open:
  assumes "session_open ceiling options = Inr s"
  shows "caller_inv [] (0, []) s"
proof -
  obtain sh0 where "ss_shared s = register_all (so_handlers options) sh0" "inbox sh0 = []" "sh_request_sequence sh0 = 0"
    and "dr_pending (ss_driver s) = []" "ss_replies s = []" "ss_next_reply s = 0" "ss_writer s = writer_spawn"
    using assms by (auto simp: session_open_def and_then_Inr inbox_def unbounded_channel_def Let_def)
  then show ?thesis
    by (simp add: caller_inv_def queue_numbered_def asked_def made_def pending_made_def ids_ok_def numbered_def
        out_frames_def writer_spawn_def register_all_view numbering_register)
qed

interpretation caller: side_invariant S port ceiling options service caller_inv caller_finished
  for S port ceiling options service
proof unfold_locales
  fix s got n d t tk out c rest f oper ph joined reason
  show "session_open ceiling options = Inr s \<Longrightarrow> caller_inv [] (0, []) s"
    by (rule caller_open)
  show "caller_finished got n s \<Longrightarrow> caller_finished got (log_call S (ActHandle oper) (ph, s) n) (handle_call S oper s)"
    by (rule caller_after)
  assume I: "caller_inv got n s"
  note same = caller_same [OF I, where n' = n and fs = "[]", simplified]
  show "caller_inv got n (fst (run_hello S Sent s))"
    by (rule same) (simp_all add: run_hello_def call_view_def made_def step_simps Let_def split: option.split)
  show "caller_inv got n (build_liveness s)"
    by (rule same) (simp_all add: build_liveness_def call_view_def made_def)
  show "caller_inv got n (s\<lparr>ss_shared := fst (on_handshake_timeout d (ss_shared s))\<rparr>)"
    by (rule same) (simp_all add: call_view_def made_def on_handshake_timeout_def step_simps Let_def)
  show "caller_inv got (log_call S (ActHandle oper) (ph, s) n) (handle_call S oper s)" using I by (rule caller_handle)
  assume R: "request_inv s"
  then have w: "writer_open (ss_writer s)" by (simp add: request_inv_def Let_def)
  show "caller_inv got n (fst (on_liveness_tick s))"
    by (rule same) (simp_all add: on_liveness_tick_def call_view_def made_def w)
  show "caller_inv got n (on_settled S t out s)"
    using dispatched_settled [of s S t out] by (intro same call_view_settled [OF w]) (simp_all add: dispatched_def)
  show "ch_queue (sh_commands (ss_shared s)) = c # rest \<Longrightarrow> caller_inv got n (fst (on_command c (take_command s rest)))"
    using I R by (rule caller_command)
  show "caller_inv (got @ [f]) n (fst (on_frame f s))" using I w by (rule caller_frame)
  show "caller_inv got n (s\<lparr>ss_writer := writer_turn port (ss_writer s)\<rparr>)"
    by (rule same) (simp_all add: call_view_def made_def w)
  show "caller_finished got n (fst (teardown_run port joined reason s))" using I w by (rule caller_teardown)
qed

section \<open>Across the link\<close>

lemma carried_sent: "f \<in> set (carried port s) \<Longrightarrow> (\<exists>h. f = Hello h) \<or> f \<in> set (wr_sent (ss_writer s))"
  by (auto simp: carried_def in_set_enumerate_eq split: option.splits)

lemma caller_party:
  assumes "party S port ceiling options service d"
  shows "list_all (reply_made (sd_got d) (made (snd (sd_at d)))) (ss_replies (snd (sd_at d)))"
    and "ids_ok (fst (sd_calls d)) (made (snd (sd_at d))) (ss_shared (snd (sd_at d)))"
    and "prefix (numbered (made (snd (sd_at d)))) (snd (sd_calls d))"
proof -
  have "list_all (reply_made (sd_got d) (made s)) (ss_replies s) \<and> ids_ok (fst (sd_calls d)) (made s) (ss_shared s)
      \<and> prefix (numbered (made s)) (snd (sd_calls d))"
    if "caller_inv (sd_got d) (sd_calls d) s \<or> caller_finished (sd_got d) (sd_calls d) s" for s
    using that by (auto simp: caller_inv_def caller_finished_def asked_def numbered_append intro: ids_ok_prefix)
      (metis prefixI)
  moreover have "caller_inv (sd_got d) (sd_calls d) (snd (sd_at d)) \<or> caller_finished (sd_got d) (sd_calls d) (snd (sd_at d))"
    using caller.party [OF assms] by (auto simp: phase_holds_def split: phase.splits)
  ultimately show "list_all (reply_made (sd_got d) (made (snd (sd_at d)))) (ss_replies (snd (sd_at d)))"
    and "ids_ok (fst (sd_calls d)) (made (snd (sd_at d))) (ss_shared (snd (sd_at d)))"
    and "prefix (numbered (made (snd (sd_at d)))) (snd (sd_calls d))" by blast+
qed

lemma responder_party:
  assumes "party S port ceiling options service d"
  shows "responder_inv service (sd_got d) (sd_calls d) (snd (sd_at d))"
  using responder.party [OF assms] by (simp add: phase_holds_def split: phase.splits)

lemma numbered_map_of: "r < length rs \<Longrightarrow> map_of (numbered rs) r = Some (req_method (rs ! r), req_params (rs ! r))"
  by (simp add: numbered_def map_of_eq_Some_iff in_set_enumerate_eq)

lemma prefix_map_of: "prefix xs ys \<Longrightarrow> map_of xs k = Some v \<Longrightarrow> map_of ys k = Some v"
  by (auto elim!: prefixE)

text \<open>The request behind a result: the peer read it, and it is the one this side made.\<close>

lemma result_traced:
  assumes pair: "pair_reachable S ea eb a b" and res: "Res \<lparr>res_id = i, res_result = v\<rparr> \<in> set (sd_got a)"
  shows "\<exists>q \<in> set (made (snd (sd_at a))). req_id q = i \<and> en_service eb (req_method q) (req_params q) = Inr v"
proof -
  note link = pair_linked [OF pair] and parties = pair_parties [OF pair]
  have "Res \<lparr>res_id = i, res_result = v\<rparr> \<in> set (out_frames (ss_writer (snd (sd_at b))))"
    using res link carried_sent set_mono_prefix by (fastforce simp: out_frames_def)
  then obtain m p where "Req \<lparr>req_id = i, req_method = m, req_params = p\<rparr> \<in> set (sd_got b)" and v: "en_service eb m p = Inr v"
    using responder_party [OF conjunct2 [OF parties]] by (fastforce simp: responder_inv_def answered_from_def)
  then have "Req \<lparr>req_id = i, req_method = m, req_params = p\<rparr> \<in> set (out_frames (ss_writer (snd (sd_at a))))"
    using link carried_sent set_mono_prefix by (fastforce simp: out_frames_def)
  with v show ?thesis by (force simp: made_def requests_in_mem)
qed

lemma made_by_id:
  assumes "distinct (map req_id rs)" and "q \<in> set rs" and "r < length rs" and "req_id q = req_id (rs ! r)"
  shows "q = rs ! r"
  using assms by (auto simp: distinct_map inj_on_def)

end
