(* ===== verification/Pair_Progress.thy ===== *)
theory Pair_Progress
  imports Pair_Laws
begin

text \<open>
  The promises of two connected sessions to their users: a call on an idle pair comes back with what
  the handler returned, whatever it is; every result ever received is the one of its own call; and the
  events read follow the sequence rules.
\<close>

section \<open>The steps of one call\<close>

text \<open>A session with nothing to do: open, its writer and its inbox empty.\<close>

definition idle :: "session \<Rightarrow> bool" where
  "idle s \<longleftrightarrow> sh_state (ss_shared s) = Ready \<and> sh_remote (ss_shared s) \<noteq> None
     \<and> (\<exists>remote. sh_ready (ss_shared s) = Some (Inr remote))
     \<and> inbox (ss_shared s) = [] \<and> ch_receiver (sh_commands (ss_shared s))
     \<and> wr_running (ss_writer s) \<and> wr_queue (ss_writer s) = [] \<and> wr_report (ss_writer s) = None"

definition fits :: "serde_json \<Rightarrow> shared \<Rightarrow> frame \<Rightarrow> bool" where
  "fits S sh f \<longleftrightarrow> is_ok (encode_frame_bytes S f (send_limit_bytes sh))"

lemma fits_asserted: "fits S sh f \<Longrightarrow> assert_fits S sh f what = Inr ()"
  by (auto simp: fits_def assert_fits_def is_ok_def Let_def split: sum.splits)

definition call_frame :: "string \<Rightarrow> json \<Rightarrow> session \<Rightarrow> request" where
  "call_frame m p s = \<lparr>req_id = snd (next_request_id (ss_shared s)), req_method = m, req_params = p\<rparr>"

text \<open>What a step leaves as it was, but for the part it is about.\<close>

lemma call_issued:
  assumes "idle s" and "is_valid_method_name m" and "\<not> is_reserved_method_name m"
    and "fits S (ss_shared s) (Req (call_frame m p s))"
  shows "handle_call S (HRequest m p ro) s =
    s\<lparr>ss_shared := fst (send_command (request_command m p s) (fst (next_request_id (ss_shared s)))),
      ss_next_reply := Suc (ss_next_reply s)\<rparr>"
    and "accepted (snd (request_start S m p ro s)) \<noteq> None"
proof -
  let ?x = "request_start S m p ro s" and ?n = "next_request_id (ss_shared s)"
  have limit: "send_limit_bytes (fst ?n) = send_limit_bytes (ss_shared s)"
    by (simp add: next_request_id_def send_limit_bytes_def Let_def)
  have "fits S (fst ?n) (Req (call_frame m p s))" using assms(4) by (simp add: fits_def limit)
  then have ok: "assert_fits S (fst ?n) (Req \<lparr>req_id = snd ?n, req_method = m, req_params = p\<rparr>) w = Inr ()" for w
    by (simp add: fits_asserted call_frame_def)
  have recv: "ch_receiver (sh_commands (fst ?n))" using assms(1) by (simp add: idle_def next_request_id_def Let_def)
  have "\<exists>call. ?x = (s\<lparr>ss_shared := fst (send_command (request_command m p s) (fst ?n)), ss_next_reply := Suc (ss_next_reply s)\<rparr>,
      Polled (Inr call))"
    using assms(1-3) ok recv
    by (auto simp: request_start_def idle_def session_ready_def request_command_def send_command_def ch_send_def
        case_prod_beta Let_def)
  then show "handle_call S (HRequest m p ro) s =
      s\<lparr>ss_shared := fst (send_command (request_command m p s) (fst ?n)), ss_next_reply := Suc (ss_next_reply s)\<rparr>"
    and "accepted (snd ?x) \<noteq> None"
    by (auto simp: handle_call_def)
qed

text \<open>From the call to its frame on the wire: the driver takes the command, the writer hands it over.\<close>

definition asking :: "string \<Rightarrow> json \<Rightarrow> request_options \<Rightarrow> action list" where
  "asking m p ro = [ActHandle (HRequest m p ro), ActTurn quiet [], ActWriter]"

lemma idle_writer: "idle s \<Longrightarrow> send_failed (ss_writer s) = None"
  by (simp add: idle_def send_failed_def)

lemma build_liveness_fields [simp]:
  "ss_shared (build_liveness s) = ss_shared s" "ss_writer (build_liveness s) = ss_writer s"
  "ss_hello (build_liveness s) = ss_hello s" "ss_replies (build_liveness s) = ss_replies s"
  "ss_next_reply (build_liveness s) = ss_next_reply s"
  "dr_pending (ss_driver (build_liveness s)) = dr_pending (ss_driver s)"
  "dr_tracking (ss_driver (build_liveness s)) = dr_tracking (ss_driver s)"
  by (simp_all add: build_liveness_def)

lemma writer_hands_over:
  fixes f w
  assumes "wr_running w" and "wr_queue w = []" and "wr_report w = None"
  defines "w' \<equiv> writer_turn (\<lambda>_. Sent) (enqueue f w)"
  shows "wr_sent w' = wr_sent w @ [f]" "wr_queue w' = []" "wr_running w'" "wr_report w' = None"
  using assms(1-3) by (simp_all add: w'_def writer_turn_def enqueue_def Let_def)

lemma call_asked:
  assumes idle: "idle s" and m: "is_valid_method_name m" "\<not> is_reserved_method_name m"
    and fits: "fits S (ss_shared s) (Req (call_frame m p s))"
  shows "\<exists>s'. fold (act S (\<lambda>_. Sent)) (asking m p ro) (Looping, s) = (Looping, s') \<and> idle s'
    \<and> wr_sent (ss_writer s') = wr_sent (ss_writer s) @ [Req (call_frame m p s)] \<and> ss_hello s' = ss_hello s
    \<and> hm_get (dr_pending (ss_driver s')) (req_id (call_frame m p s)) = Some \<lparr>pr_method = m, pr_reply = ss_next_reply s\<rparr>"
proof -
  let ?q = "call_frame m p s" and ?c = "request_command m p s" and ?w = "ss_writer s"
  let ?s1 = "s\<lparr>ss_shared := fst (send_command ?c (fst (next_request_id (ss_shared s)))), ss_next_reply := Suc (ss_next_reply s)\<rparr>"
  let ?s2 = "fst (on_command ?c (take_command (build_liveness ?s1) []))"
  let ?s3 = "?s2\<lparr>ss_writer := writer_turn (\<lambda>_. Sent) (ss_writer ?s2)\<rparr>"
  have c: "?c = CmdRequest (Req ?q) (ss_next_reply s)" by (simp add: request_command_def call_frame_def)
  have q: "ch_queue (sh_commands (ss_shared ?s1)) = [?c]"
    using idle by (simp add: idle_def inbox_def send_command_def ch_send_def next_request_id_def Let_def)
  have "send_failed (ss_writer ?s1) = None" using idle_writer [OF idle] by simp
  from quiet_command [OF this q] have "loop_turn S quiet ?s1 = (?s2, None)"
    by (simp add: c on_command_def Let_def)
  then have run: "fold (act S (\<lambda>_. Sent)) (asking m p ro) (Looping, s) = (Looping, ?s3)"
    by (simp add: asking_def call_issued(1) [OF idle m fits] close_with_def)
  have w: "wr_running ?w" "wr_queue ?w = []" "wr_report ?w = None" using idle by (simp_all add: idle_def)
  have w2: "ss_writer ?s2 = enqueue (Req ?q) ?w" by (simp add: c on_command_def take_command_def Let_def)
  then have w3: "ss_writer ?s3 = writer_turn (\<lambda>_. Sent) (enqueue (Req ?q) ?w)" by simp
  have sh: "ss_shared ?s3 = (fst (send_command ?c (fst (next_request_id (ss_shared s)))))
      \<lparr>sh_commands := (sh_commands (fst (send_command ?c (fst (next_request_id (ss_shared s))))))\<lparr>ch_queue := []\<rparr>\<rparr>"
    by (simp add: c on_command_def take_command_def Let_def)
  have "idle ?s3"
    using idle writer_hands_over [OF w, of "Req ?q"] unfolding idle_def sh w3
    by (simp add: inbox_def send_command_def ch_send_def next_request_id_def Let_def)
  moreover have "hm_get (dr_pending (ss_driver ?s3)) (req_id ?q) = Some \<lparr>pr_method = m, pr_reply = ss_next_reply s\<rparr>"
    by (simp add: c on_command_def take_command_def Let_def call_frame_def)
  moreover have "ss_hello ?s3 = ss_hello s" by (simp add: c on_command_def take_command_def Let_def)
  moreover have "wr_sent (ss_writer ?s3) = wr_sent ?w @ [Req ?q]"
    unfolding w3 using writer_hands_over [OF w, of "Req ?q"] by simp
  ultimately show ?thesis using run by blast
qed

text \<open>From the request's arrival to its answer on the wire: the handler settles with \<open>out\<close>.\<close>

definition answering :: "frame \<Rightarrow> nat \<Rightarrow> handler_outcome \<Rightarrow> action list" where
  "answering f t out = [inbound_frame f, ActTurn (quiet\<lparr>rd_settled := Some (t, Inr out)\<rparr>) [], ActWriter]"

definition answer_frame :: "string \<Rightarrow> handler_outcome \<Rightarrow> frame" where
  "answer_frame i out =
     (case out of
        Inr v \<Rightarrow> Res \<lparr>res_id = i, res_result = v\<rparr>
      | Inl e \<Rightarrow> Err \<lparr>err_id = i, err_error = \<lparr>ep_code = re_code e, ep_message = re_message e, ep_details = re_details e\<rparr>\<rparr>)"

text \<open>What of a handler's outcome goes on the wire: a result whose frame does not fit is an error instead.\<close>

definition answer_given :: "serde_json \<Rightarrow> shared \<Rightarrow> string \<Rightarrow> string \<Rightarrow> handler_outcome \<Rightarrow> handler_outcome" where
  "answer_given S sh m i out =
     (case out of
        Inl e \<Rightarrow> Inl e
      | Inr v \<Rightarrow> (case assert_fits S sh (Res \<lparr>res_id = i, res_result = v\<rparr>) (''The result of '' @ quoted m) of
                   Inr _ \<Rightarrow> Inr v
                 | Inl e \<Rightarrow> Inl e))"

lemma answer_given_fits:
  "(\<And>v. out = Inr v \<Longrightarrow> fits S sh (Res \<lparr>res_id = i, res_result = v\<rparr>)) \<Longrightarrow> answer_given S sh m i out = out"
  by (simp add: answer_given_def fits_asserted split: sum.split)

lemma assert_fits_in_flight [simp]: "assert_fits S (sh\<lparr>sh_in_flight := n\<rparr>) = assert_fits S sh"
  by (simp add: fun_eq_iff assert_fits_def send_limit_bytes_def)

text \<open>The request would reach a handler: registered, and no other request in flight.\<close>

definition would_serve :: "string \<Rightarrow> session \<Rightarrow> bool" where
  "would_serve m t \<longleftrightarrow> hm_contains (sh_handlers (ss_shared t)) m \<and> rt_active (dr_tracking (ss_driver t)) = []
     \<and> 0 < sh_max_in_flight (ss_shared t)"

lemma quiet_settled:
  assumes "send_failed (ss_writer t) = None" and "hm_contains (rt_tasks (dr_tracking (ss_driver t))) k"
  shows "loop_turn S (quiet\<lparr>rd_settled := Some (k, out)\<rparr>) t = (on_settled S k out (build_liveness t), None)"
  using assms by (simp add: loop_turn_def quiet_def settled_ready_def Let_def)

lemma call_answered:
  fixes S out
  assumes idle: "idle t" and serve: "would_serve (req_method q) t" and m: "\<not> is_reserved_method_name (req_method q)"
  defines "k \<equiv> rt_next_task (dr_tracking (ss_driver t))"
    and "given \<equiv> answer_given S (ss_shared t) (req_method q) (req_id q) out"
  shows "\<exists>t'. fold (act S (\<lambda>_. Sent)) (answering (Req q) k out) (Looping, t) = (Looping, t')
    \<and> wr_sent (ss_writer t') = wr_sent (ss_writer t) @ [answer_frame (req_id q) given] \<and> ss_hello t' = ss_hello t"
    and "\<exists>t1 tk. act S (\<lambda>_. Sent) (inbound_frame (Req q)) (Looping, t) = (Looping, t1)
      \<and> hm_get (rt_tasks (dr_tracking (ss_driver t1))) k = Some tk
      \<and> cc_method (tk_context tk) = req_method q \<and> tk_params tk = req_params q"
proof -
  let ?t0 = "build_liveness t" and ?w = "ss_writer t" and ?rt = "dr_tracking (ss_driver t)" and ?i = "req_id q"
  obtain g h where h: "hm_get (sh_handlers (ss_shared t)) (req_method q) = Some (g, h)"
    using serve by (auto simp: would_serve_def hm_contains_def)
  obtain remote where remote: "sh_remote (ss_shared t) = Some remote" using idle by (auto simp: idle_def)
  let ?tk = "\<lparr>tk_handler = h, tk_params = req_params q, tk_context =
    \<lparr>cc_id = ?i, cc_method = req_method q, cc_cancel = k, cc_remote = remote\<rparr>\<rparr>"
  let ?rt1 = "?rt\<lparr>rt_tasks := hm_insert k ?tk (rt_tasks ?rt), rt_by_task_id := hm_insert k ?i (rt_by_task_id ?rt),
    rt_active := hm_insert ?i \<lparr>ar_cancel = k, ar_method = req_method q\<rparr> [], rt_next_task := Suc k\<rparr>"
  let ?sh1 = "(ss_shared t)\<lparr>sh_in_flight := sh_in_flight (ss_shared t) + 1\<rparr>"
  let ?t1 = "?t0\<lparr>ss_shared := ?sh1, ss_driver := (ss_driver ?t0)\<lparr>dr_tracking := ?rt1\<rparr>, ss_writer := ?w,
    ss_arrived := ss_arrived ?t0 @ [?i]\<rparr>"
  have "on_request q (ss_shared t, ?rt, ?w) = (?sh1, ?rt1, ?w)"
    using idle serve m h remote by (simp add: on_request_def idle_def would_serve_def hm_contains_def hm_get_def k_def Let_def)
  then have "on_frame (Req q) ?t0 = (?t1, None)" by (simp add: on_frame_def with_dispatch_def)
  moreover have failed: "send_failed ?w = None" using idle by (rule idle_writer)
  moreover have "ch_queue (sh_commands (ss_shared t)) = []" using idle by (simp add: idle_def inbox_def)
  ultimately have read: "act S (\<lambda>_. Sent) (inbound_frame (Req q)) (Looping, t) = (Looping, ?t1)"
    using quiet_frame [of t S "Req q"] by (simp add: inbound_frame_def close_with_def)
  then show "\<exists>t1 tk. act S (\<lambda>_. Sent) (inbound_frame (Req q)) (Looping, t) = (Looping, t1)
      \<and> hm_get (rt_tasks (dr_tracking (ss_driver t1))) k = Some tk
      \<and> cc_method (tk_context tk) = req_method q \<and> tk_params tk = req_params q"
    by (intro exI [of _ ?t1] exI [of _ ?tk]) simp
  let ?t2 = "on_settled S k (Inr out) (build_liveness ?t1)"
  have w2: "ss_writer ?t2 = enqueue (answer_frame ?i given) ?w" and hello: "ss_hello ?t2 = ss_hello t"
    by (auto simp: given_def answer_given_def on_settled_def with_dispatch_def on_handler_settled_def join_next_def respond_result_def respond_error_def
        answer_frame_def case_prod_beta Let_def split: sum.split)
  have "loop_turn S (quiet\<lparr>rd_settled := Some (k, Inr out)\<rparr>) ?t1 = (?t2, None)"
    by (rule quiet_settled) (simp_all add: failed hm_contains_def)
  then have run: "fold (act S (\<lambda>_. Sent)) (answering (Req q) k out) (Looping, t)
      = (Looping, ?t2\<lparr>ss_writer := writer_turn (\<lambda>_. Sent) (ss_writer ?t2)\<rparr>)"
    by (simp add: answering_def read close_with_def del: act.simps) (simp add: close_with_def)
  have w: "wr_running ?w" "wr_queue ?w = []" "wr_report ?w = None" using idle by (simp_all add: idle_def)
  show "\<exists>t'. fold (act S (\<lambda>_. Sent)) (answering (Req q) k out) (Looping, t) = (Looping, t')
    \<and> wr_sent (ss_writer t') = wr_sent (ss_writer t) @ [answer_frame (req_id q) given] \<and> ss_hello t' = ss_hello t"
    using run writer_hands_over [OF w, of "answer_frame ?i given"] hello by (intro exI conjI) (assumption, simp_all add: w2)
qed

lemma payload_error_back: "payload_error \<lparr>ep_code = re_code e, ep_message = re_message e, ep_details = re_details e\<rparr> = e"
  by (cases e) (simp add: payload_error_def remote_error_new_def with_details_def Let_def split: option.split)

lemma call_returned:
  assumes idle: "idle s" and i: "hm_get (dr_pending (ss_driver s)) i = Some pr"
  shows "\<exists>s'. act S port (inbound_frame (answer_frame i out)) (Looping, s) = (Looping, s')
    \<and> ss_replies s' = ss_replies s @ [(pr_reply pr, Replied out)]"
proof -
  have "ch_queue (sh_commands (ss_shared s)) = []" using idle by (simp add: idle_def inbox_def)
  from quiet_frame [OF idle_writer [OF idle] this]
  have "act S port (inbound_frame (answer_frame i out)) (Looping, s)
      = close_with port [] Looping (on_frame (answer_frame i out) (build_liveness s))"
    by (simp add: inbound_frame_def)
  moreover have "on_frame (answer_frame i out) (build_liveness s) = (settle_pending i out (build_liveness s), None)"
    by (cases out) (simp_all add: answer_frame_def on_frame_def payload_error_back)
  ultimately show ?thesis using i by (simp add: close_with_def settle_pending_def on_response_def)
qed

section \<open>A call across the link\<close>

abbreviation reliable :: "nat \<Rightarrow> send_outcome" where
  "reliable \<equiv> \<lambda>_. Sent"

lemma carried_reliable:
  "carried reliable s = (case ss_hello s of Some h \<Rightarrow> [Hello h] | None \<Rightarrow> []) @ wr_sent (ss_writer s)"
  by (simp add: carried_def split: option.split)

lemma fold_side_at: "sd_at (fold (side_act S port) acts d) = fold (act S port) acts (sd_at d)"
  by (induction acts arbitrary: d) (simp_all add: side_act_def)

text \<open>An action that reads nothing of the peer and settles no handler.\<close>

fun own_act :: "action \<Rightarrow> bool" where
  "own_act (ActTurn rd joined) = (rd_settled rd = None \<and> \<not> is_frame (rd_inbound rd))"
| "own_act (ActHello outcome) = (outcome = Sent)"
| "own_act _ = True"

lemma own_act_free:
  assumes "own_act x"
  shows "act_linked item x" and "act_serves service x y" and "act_reads x y = []"
proof -
  obtain ph s where y: "y = (ph, s)" by (cases y)
  show "act_linked item x" and "act_serves service x y" and "act_reads x y = []"
    using assms y
    by (cases x; cases ph; auto simp: settles_as_def read_frame_def split: poll.splits option.splits inbound.splits)+
qed

lemma own_acts:
  assumes "pair_reachable S ea eb a b" and "list_all own_act acts"
  shows "pair_reachable S ea eb (fold (side_act S (en_port ea)) acts a) b
    \<and> sd_got (fold (side_act S (en_port ea)) acts a) = sd_got a"
  using assms
proof (induction acts arbitrary: a)
  case (Cons x acts)
  have "pair_reachable S ea eb (side_act S (en_port ea) x a) b"
    using Cons.prems by (auto intro: pair_left simp: own_act_free)
  moreover have "sd_got (side_act S (en_port ea) x a) = sd_got a"
    using Cons.prems(2) own_act_free(3) by (simp add: side_act_def)
  ultimately show ?case using Cons by simp
qed simp

text \<open>Reading the next frame on offer.\<close>

lemma read_next:
  assumes "pair_reachable S ea eb a b" and "carried (en_port ea) (snd (sd_at a)) = sd_got b @ [f]"
  shows "pair_reachable S ea eb a (side_act S (en_port eb) (inbound_frame f) b)"
  using assms(1)
proof (rule pair_right)
  show "act_serves (en_service eb) (inbound_frame f) (sd_at b)"
    by (cases "sd_at b") (simp add: inbound_frame_def quiet_def settles_as_def)
  show "act_linked (offer (en_port ea) (sd_at a) (length (sd_got b))) (inbound_frame f)"
    using assms(2) by (simp add: inbound_frame_def offer_def)
qed

lemma settle_right:
  assumes "pair_reachable S ea eb a b" and "sd_at b = (Looping, t)"
    and "hm_get (rt_tasks (dr_tracking (ss_driver t))) k = Some tk"
  shows "pair_reachable S ea eb a (side_act S (en_port eb)
    (ActTurn (quiet\<lparr>rd_settled := Some (k, Inr (en_service eb (cc_method (tk_context tk)) (tk_params tk)))\<rparr>) []) b)"
  using assms(1) by (rule pair_right) (simp_all add: assms(2,3) settles_as_def quiet_def)

lemma writer_right: "pair_reachable S ea eb a b \<Longrightarrow> pair_reachable S ea eb a (side_act S (en_port eb) ActWriter b)"
  by (erule pair_right) simp_all

lemma answering_reachable:
  assumes pair: "pair_reachable S ea eb a b" and sent: "carried (en_port ea) (snd (sd_at a)) = sd_got b @ [Req q]"
    and b: "sd_at b = (Looping, t)" "en_port eb = reliable"
    and read: "act S reliable (inbound_frame (Req q)) (Looping, t) = (Looping, t1)"
      "hm_get (rt_tasks (dr_tracking (ss_driver t1))) k = Some tk"
      "cc_method (tk_context tk) = req_method q" "tk_params tk = req_params q"
  shows "pair_reachable S ea eb a
    (fold (side_act S (en_port eb)) (answering (Req q) k (en_service eb (req_method q) (req_params q))) b)"
proof -
  let ?b1 = "side_act S (en_port eb) (inbound_frame (Req q)) b"
  have "sd_at ?b1 = (Looping, t1)" using b read(1) by (simp add: side_act_def)
  from writer_right [OF settle_right [OF read_next [OF pair sent] this read(2)]] read(3,4)
  show ?thesis by (simp add: answering_def)
qed

lemma reply_given:
  assumes "session_reachable S port ceiling options (Looping, s)" and "(r, x) \<in> set (ss_replies s)"
  shows "reply_of r s = Some x"
proof -
  have "calls_inv s" using calls.reachable [OF assms(1)] by simp
  then have "mset (map fst (ss_replies s) @ map (pr_reply \<circ> snd) (dr_pending (ss_driver s))
      @ map fst (inbox_drops (inbox (ss_shared s)))) = mset [0..<ss_next_reply s]"
    by (simp add: calls_inv_def replied_def waiting_def queued_def held_def add_ac)
  from upt_permuted [OF this] have "distinct (map fst (ss_replies s))" by simp
  then show ?thesis using assms(2) by (simp add: reply_of_def)
qed

text \<open>
  The whole call: \<open>a\<close> asks, \<open>b\<close> answers as its service does, \<open>a\<close> reads the answer.
\<close>

definition called :: "serde_json \<Rightarrow> endpoint \<Rightarrow> endpoint \<Rightarrow> string \<Rightarrow> json \<Rightarrow> request_options \<Rightarrow> side \<times> side \<Rightarrow> side \<times> side" where
  "called S ea eb m p ro x =
     (let (a, b) = x; q = call_frame m p (snd (sd_at a)); out = en_service eb m p;
          given = answer_given S (ss_shared (snd (sd_at b))) m (req_id q) out;
          k = rt_next_task (dr_tracking (ss_driver (snd (sd_at b))));
          a = fold (side_act S (en_port ea)) (asking m p ro) a;
          b = fold (side_act S (en_port eb)) (answering (Req q) k out) b
      in (side_act S (en_port ea) (inbound_frame (answer_frame (req_id q) given)) a, b))"

definition at_rest :: "side \<Rightarrow> side \<Rightarrow> bool" where
  "at_rest a b \<longleftrightarrow> fst (sd_at a) = Looping \<and> fst (sd_at b) = Looping \<and> idle (snd (sd_at a)) \<and> idle (snd (sd_at b))
     \<and> sd_got a = carried reliable (snd (sd_at b)) \<and> sd_got b = carried reliable (snd (sd_at a))"

lemma call_completes:
  assumes pair: "pair_reachable S ea eb a b" and ports: "en_port ea = reliable" "en_port eb = reliable"
    and rest: "at_rest a b" and m: "is_valid_method_name m" "\<not> is_reserved_method_name m"
    and serve: "would_serve m (snd (sd_at b))"
    and fits: "fits S (ss_shared (snd (sd_at a))) (Req (call_frame m p (snd (sd_at a))))"
  shows "\<exists>a' b' s'. called S ea eb m p ro (a, b) = (a', b') \<and> pair_reachable S ea eb a' b' \<and> sd_at a' = (Looping, s')
    \<and> (ss_next_reply (snd (sd_at a)), Replied (answer_given S (ss_shared (snd (sd_at b))) m
         (req_id (call_frame m p (snd (sd_at a)))) (en_service eb m p))) \<in> set (ss_replies s')"
proof -
  obtain s t where a: "sd_at a = (Looping, s)" and b: "sd_at b = (Looping, t)"
    using rest by (metis at_rest_def prod.collapse)
  have idle: "idle s" "idle t" and got: "sd_got a = carried reliable t" "sd_got b = carried reliable s"
    using rest a b by (simp_all add: at_rest_def)
  let ?q = "call_frame m p s" and ?out = "en_service eb m p"
  let ?given = "answer_given S (ss_shared t) m (req_id ?q) ?out"
  let ?k = "rt_next_task (dr_tracking (ss_driver t))" and ?r = "ss_next_reply s"
  obtain s1 where s1: "fold (act S reliable) (asking m p ro) (Looping, s) = (Looping, s1)" "idle s1"
      "wr_sent (ss_writer s1) = wr_sent (ss_writer s) @ [Req ?q]" "ss_hello s1 = ss_hello s"
      "hm_get (dr_pending (ss_driver s1)) (req_id ?q) = Some \<lparr>pr_method = m, pr_reply = ?r\<rparr>"
    using call_asked [OF idle(1) m, of S p ro] fits a by auto
  have q: "req_method ?q = m" "req_params ?q = p" by (simp_all add: call_frame_def)
  have serve': "would_serve (req_method ?q) t" "\<not> is_reserved_method_name (req_method ?q)"
    using serve m(2) b q by simp_all
  obtain t' where t': "fold (act S reliable) (answering (Req ?q) ?k ?out) (Looping, t) = (Looping, t')"
      "wr_sent (ss_writer t') = wr_sent (ss_writer t) @ [answer_frame (req_id ?q) ?given]" "ss_hello t' = ss_hello t"
    using call_answered(1) [OF idle(2) serve', of S ?out] unfolding q by blast
  obtain t1 tk where t1: "act S reliable (inbound_frame (Req ?q)) (Looping, t) = (Looping, t1)"
      "hm_get (rt_tasks (dr_tracking (ss_driver t1))) ?k = Some tk" "cc_method (tk_context tk) = req_method ?q"
      "tk_params tk = req_params ?q"
    using call_answered(2) [OF idle(2) serve'] by blast
  obtain s' where s': "act S reliable (inbound_frame (answer_frame (req_id ?q) ?given)) (Looping, s1) = (Looping, s')"
      "ss_replies s' = ss_replies s1 @ [(?r, Replied ?given)]"
    using call_returned [OF s1(2,5), of S reliable ?given] by auto
  let ?a1 = "fold (side_act S (en_port ea)) (asking m p ro) a"
  let ?b1 = "fold (side_act S (en_port eb)) (answering (Req ?q) ?k ?out) b"
  let ?a2 = "side_act S (en_port ea) (inbound_frame (answer_frame (req_id ?q) ?given)) ?a1"
  have at: "sd_at ?a1 = (Looping, s1)" "sd_at ?b1 = (Looping, t')"
    using a b s1(1) t'(1) ports by (simp_all add: fold_side_at)
  have "list_all own_act (asking m p ro)" by (simp add: asking_def quiet_def)
  from own_acts [OF pair this] have asked: "pair_reachable S ea eb ?a1 b" "sd_got ?a1 = sd_got a" by simp_all
  have "carried (en_port ea) (snd (sd_at ?a1)) = sd_got b @ [Req ?q]"
    using at(1) got(2) s1(3,4) ports by (simp add: carried_reliable)
  from answering_reachable [OF asked(1) this b ports(2) t1] have answered: "pair_reachable S ea eb ?a1 ?b1"
    by (simp add: q)
  have "carried (en_port eb) (snd (sd_at ?b1)) = sd_got ?a1 @ [answer_frame (req_id ?q) ?given]"
    using at(2) got(1) asked(2) t'(2,3) ports by (simp add: carried_reliable)
  from pair_sym [OF read_next [OF pair_sym [OF answered] this]] have "pair_reachable S ea eb ?a2 ?b1" .
  moreover have "sd_at ?a2 = (Looping, s')" using at(1) s'(1) ports by (simp add: side_act_def)
  moreover have "called S ea eb m p ro (a, b) = (?a2, ?b1)" by (simp add: called_def a b Let_def)
  ultimately show ?thesis using s'(2) a b by auto
qed

text \<open>
  C5: A call on an idle pair comes back with what the handler returned.  Two connected sessions with
  nothing under way, over ports that take every frame, a method the other side serves and a request
  within the caller's send limit: the driver and the writer of the caller, the driver, the handler and
  the writer of the callee and the caller's driver again, one turn each, and the caller's reply channel
  holds exactly the handler's outcome, an error's code, message and details included.  Only a result
  that does not fit the callee's send limit is replaced, by the error \<open>assert_fits\<close> gives for it.
\<close>

theorem request_round_trip:
  assumes "pair_reachable S ea eb a b" and "en_port ea = reliable" and "en_port eb = reliable" and "at_rest a b"
    and "is_valid_method_name m" and "\<not> is_reserved_method_name m" and "would_serve m (snd (sd_at b))"
    and "fits S (ss_shared (snd (sd_at a))) (Req (call_frame m p (snd (sd_at a))))"
    and "req_id (call_frame m p (snd (sd_at a))) = i"
  shows "case called S ea eb m p ro (a, b) of
    (a', b') \<Rightarrow> pair_reachable S ea eb a' b'
      \<and> reply_of (ss_next_reply (snd (sd_at a))) (snd (sd_at a')) =
           Some (Replied (case en_service eb m p of
             Inl e \<Rightarrow> Inl e
           | Inr v \<Rightarrow> (case assert_fits S (ss_shared (snd (sd_at b))) (Res \<lparr>res_id = i, res_result = v\<rparr>)
                          (''The result of '' @ quoted m) of
                        Inr _ \<Rightarrow> Inr v
                      | Inl e \<Rightarrow> Inl e)))"
proof -
  obtain a' b' s' where call: "called S ea eb m p ro (a, b) = (a', b')" "pair_reachable S ea eb a' b'" "sd_at a' = (Looping, s')"
      "(ss_next_reply (snd (sd_at a)), Replied (answer_given S (ss_shared (snd (sd_at b))) m i (en_service eb m p))) \<in> set (ss_replies s')"
    using call_completes [OF assms(1-8)] unfolding assms(9) by blast
  then have "session_reachable S (en_port ea) (en_ceiling ea) (en_options ea) (Looping, s')"
    using party_reachable [OF conjunct1 [OF pair_parties [OF call(2)]]] by simp
  from reply_given [OF this call(4)] call(1-3) show ?thesis by (simp add: answer_given_def)
qed

section \<open>An example pair\<close>

definition example_end :: endpoint where
  "example_end = \<lparr>en_port = reliable, en_ceiling = None, en_options = session_options_new example_peer,
     en_service = (\<lambda>m p. Inr p)\<rparr>"

definition example_frame :: frame where
  "example_frame = Hello (build_hello (ss_shared example_session))"

definition greeting :: "action list" where
  "greeting = [ActHello Sent]"

definition greeted :: side where
  "greeted = fold (side_act terse_serde reliable) greeting (side_open example_session)"

definition met :: side where
  "met = side_act terse_serde reliable (inbound_frame example_frame) greeted"

definition serving :: side where
  "serving = side_act terse_serde reliable (ActHandle (HHandle ''fs.read'' 0)) met"

lemma greeted_at: "sd_at greeted = (Looping, example_session\<lparr>ss_hello := Some (build_hello (ss_shared example_session))\<rparr>)"
  using example_hello [of reliable] by (simp add: greeted_def greeting_def side_act_def side_open_def)

lemma greeted_got: "sd_got greeted = []"
  by (simp add: greeted_def greeting_def side_act_def side_open_def)

lemma met_at: "sd_at met = (Looping, ready_session)"
  by (simp add: met_def side_act_def greeted_at example_frame_def example_ready del: act.simps)

lemma met_got: "sd_got met = [example_frame]"
  by (simp add: met_def side_act_def greeted_at greeted_got inbound_frame_def read_frame_def turn_reads_def build_liveness_def quiet_def
      settled_ready_def send_failed_def example_session_def example_options writer_spawn_def unbounded_channel_def)

lemma greeted_pair: "pair_reachable terse_serde example_end example_end greeted greeted"
proof -
  let ?e = example_end and ?d = "side_open example_session"
  have acts: "list_all own_act greeting" and port: "en_port ?e = reliable" by (simp_all add: greeting_def example_end_def)
  have "session_open (en_ceiling ?e) (en_options ?e) = Inr example_session"
    by (simp add: example_end_def example_session_def example_options)
  from pair_open [OF this this] have "pair_reachable terse_serde ?e ?e ?d ?d" .
  from own_acts [OF this acts] have "pair_reachable terse_serde ?e ?e greeted ?d"
    by (simp add: greeted_def port)
  from own_acts [OF pair_sym [OF this] acts] show ?thesis by (simp add: greeted_def port)
qed

lemma carried_hello:
  "carried reliable (ready_session) = [example_frame]"
  "carried reliable (example_session\<lparr>ss_hello := Some (build_hello (ss_shared example_session))\<rparr>) = [example_frame]"
  by (simp_all add: carried_reliable ready_session_def example_driver writer_spawn_def example_frame_def)

lemma met_pair: "pair_reachable terse_serde example_end example_end met met"
proof -
  let ?e = example_end
  have port: "en_port ?e = reliable" by (simp add: example_end_def)
  have met: "side_act terse_serde (en_port ?e) (inbound_frame example_frame) greeted = met" by (simp add: met_def port)
  have "pair_reachable terse_serde ?e ?e greeted met"
    using read_next [OF greeted_pair, of example_frame] unfolding met by (simp add: greeted_at greeted_got carried_hello port)
  from read_next [OF pair_sym [OF this], of example_frame] show ?thesis
    unfolding met by (simp add: greeted_got met_at carried_hello port)
qed

lemma serving_pair: "pair_reachable terse_serde example_end example_end met serving"
proof -
  have port: "en_port example_end = reliable" by (simp add: example_end_def)
  have "pair_reachable terse_serde example_end example_end serving met"
    using own_acts [OF met_pair, of "[ActHandle (HHandle ''fs.read'' 0)]"] by (simp add: serving_def port)
  then show ?thesis by (rule pair_sym)
qed

lemma serving_at: "sd_at serving = (Looping, handle_call terse_serde (HHandle ''fs.read'' 0) ready_session)"
  by (simp add: serving_def side_act_def met_at)

lemma serving_got: "sd_got serving = [example_frame]"
  by (simp add: serving_def side_act_def met_got met_at)

lemma ready_idle: "idle ready_session"
  by (simp add: idle_def ready_fields) (simp add: ready_session_def example_driver writer_spawn_def inbox_def
      example_session_def example_options unbounded_channel_def)

lemma serving_idle: "idle (handle_call terse_serde (HHandle ''fs.read'' 0) ready_session)"
  using ready_idle
  by (simp add: idle_def handle_call_def on_shared_def session_handle_def register_handler_def inbox_def Let_def)

lemma serving_rest: "at_rest met serving"
proof -
  have "carried reliable (handle_call terse_serde (HHandle ''fs.read'' 0) ready_session) = [example_frame]"
    using delivered_outward [OF outward_handle] carried_hello(1) by simp
  then show ?thesis using ready_idle serving_idle
    by (simp add: at_rest_def met_at serving_at met_got serving_got carried_hello)
qed

lemma serving_serves: "would_serve ''fs.read'' (snd (sd_at serving))"
  by (simp add: would_serve_def serving_at handle_call_def on_shared_def session_handle_def register_handler_def Let_def
      hm_contains_def)
    (simp add: ready_session_def example_session_def example_options request_tracking_default_def)

lemma terse_small:
  "validate f = Inr () \<Longrightarrow> 4096 \<le> send_limit_bytes sh \<Longrightarrow> fits terse_serde sh f"
  by (simp add: fits_def encode_frame_bytes_def terse_serde_def checked_at_least_def MIN_MAX_FRAME_BYTES_def
      and_then_def map_err_def is_ok_def)

lemma ready_limit: "4096 \<le> send_limit_bytes (ss_shared ready_session)"
  by (simp add: ready_session_def example_session_def example_options send_limit_bytes_def example_remote_def)

lemma ready_call: "call_frame ''fs.read'' JNull ready_session = \<lparr>req_id = ''r-1'', req_method = ''fs.read'', req_params = JNull\<rparr>"
  by (simp add: call_frame_def ready_fields)

lemma example_fits:
  "fits terse_serde (ss_shared (snd (sd_at met))) (Req (call_frame ''fs.read'' JNull (snd (sd_at met))))"
  "fits terse_serde (ss_shared (snd (sd_at serving))) (Res \<lparr>res_id = req_id (call_frame ''fs.read'' JNull (snd (sd_at met))), res_result = JNull\<rparr>)"
proof -
  have "validate (Req \<lparr>req_id = ''r-1'', req_method = ''fs.read'', req_params = JNull\<rparr>) = Inr ()"
    "validate (Res \<lparr>res_id = ''r-1'', res_result = JNull\<rparr>) = Inr ()"
    by (simp_all add: validate_def validate_request_def validate_response_def check_id_def check_length_def
        check_method_name_def example_names MAX_ID_CHARS_def and_then_def)
  moreover have "send_limit_bytes (ss_shared (snd (sd_at serving))) = send_limit_bytes (ss_shared ready_session)"
    by (simp add: serving_at handle_call_def on_shared_def session_handle_def register_handler_def send_limit_bytes_def Let_def)
  ultimately show "fits terse_serde (ss_shared (snd (sd_at met))) (Req (call_frame ''fs.read'' JNull (snd (sd_at met))))"
    and "fits terse_serde (ss_shared (snd (sd_at serving))) (Res \<lparr>res_id = req_id (call_frame ''fs.read'' JNull (snd (sd_at met))), res_result = JNull\<rparr>)"
    using ready_limit by (simp_all add: met_at ready_call terse_small)
qed

lemma example_service: "en_service example_end m p = Inr p" "en_port example_end = reliable"
  by (simp_all add: example_end_def)

theorem request_round_trip_witness:
  "reply_of 0 (snd (sd_at (fst (called terse_serde example_end example_end ''fs.read'' JNull
     \<lparr>ro_cancel = False, ro_timeout = None\<rparr> (met, serving))))) = Some (Replied (Inr JNull))"
  using request_round_trip [OF serving_pair example_service(2,2) serving_rest example_names(4,5) serving_serves
      example_fits(1) refl, where ro = "\<lparr>ro_cancel = False, ro_timeout = None\<rparr>"] example_fits(2)
  by (simp add: example_service met_at ready_fields case_prod_beta fits_asserted)

section \<open>Every result, every event\<close>

text \<open>
  C1: A result is the right one.  In every state two connected sessions can reach, by any interleaving
  of their turns, writers, handle calls and a loss of the connection at any moment: when a reply
  channel of one side has received the result \<open>v\<close>, the \<open>request\<close> call that was given this channel asked
  for a method and parameters for which the other side's handlers compute \<open>v\<close>.  No result is mixed up
  between calls, invented or altered, as long as the side has made less than \<open>2 ^ 64\<close> calls.
\<close>

theorem rpc_end_to_end:
  assumes "pair_reachable S ea eb a b" and "fst (sd_calls a) < 2 ^ 64"
    and "(r, Replied (Inr v)) \<in> set (ss_replies (snd (sd_at a)))"
  shows "\<exists>m p. map_of (snd (sd_calls a)) r = Some (m, p) \<and> en_service eb m p = Inr v"
proof -
  note a = caller_party [OF conjunct1 [OF pair_parties [OF assms(1)]]]
  let ?rs = "made (snd (sd_at a))"
  have r: "r < length ?rs" and res: "Res \<lparr>res_id = req_id (?rs ! r), res_result = v\<rparr> \<in> set (sd_got a)"
    using a(1) assms(3) by (auto simp: list_all_iff reply_made_def)
  obtain q where "q \<in> set ?rs" "req_id q = req_id (?rs ! r)" "en_service eb (req_method q) (req_params q) = Inr v"
    using result_traced [OF assms(1) res] by blast
  moreover from this made_by_id [OF ids_ok_distinct [OF a(2) assms(2)] _ r] have "q = ?rs ! r" by blast
  ultimately show ?thesis using prefix_map_of [OF a(3) numbered_map_of [OF r]] by blast
qed

lemma log_call_bound: "fst (log_call S x y calls) \<le> Suc (fst calls)"
  by (cases "(S, x, y, calls)" rule: log_call.cases) auto

lemma calls_bound: "fst (sd_calls (fold (side_act S port) acts d)) \<le> fst (sd_calls d) + length acts"
proof (induction acts arbitrary: d)
  case (Cons x acts)
  have "fst (sd_calls (side_act S port x d)) \<le> Suc (fst (sd_calls d))" by (simp add: side_act_def log_call_bound)
  with Cons.IH [of "side_act S port x d"] show ?case by simp
qed simp

lemma example_calls_bound:
  "fst (sd_calls (fst (called terse_serde example_end example_end m p ro (met, serving)))) < 2 ^ 64"
proof -
  let ?a = "fst (called terse_serde example_end example_end m p ro (met, serving))"
  obtain f where a: "?a = fold (side_act terse_serde reliable)
      (greeting @ [inbound_frame example_frame] @ asking m p ro @ [inbound_frame f]) (side_open example_session)"
    by (auto simp: called_def met_def greeted_def example_service Let_def)
  have "fst (sd_calls ?a) \<le> 6"
    unfolding a by (rule order.trans [OF calls_bound]) (simp add: side_open_def asking_def greeting_def)
  then show ?thesis by simp
qed

theorem rpc_end_to_end_witness:
  "\<exists>m p. map_of (snd (sd_calls (fst (called terse_serde example_end example_end ''fs.read'' JNull
     \<lparr>ro_cancel = False, ro_timeout = None\<rparr> (met, serving))))) 0 = Some (m, p) \<and> en_service example_end m p = Inr JNull"
proof -
  let ?ro = "\<lparr>ro_cancel = False, ro_timeout = None\<rparr>"
  obtain a' b' s' where call: "called terse_serde example_end example_end ''fs.read'' JNull ?ro (met, serving) = (a', b')"
      "pair_reachable terse_serde example_end example_end a' b'" "sd_at a' = (Looping, s')" "(0, Replied (Inr JNull)) \<in> set (ss_replies s')"
    using call_completes [OF serving_pair example_service(2,2) serving_rest example_names(4,5) serving_serves
      example_fits(1), where ro = ?ro] example_fits(2)
    by (auto simp: example_service met_at ready_fields answer_given_def fits_asserted)
  have "fst (sd_calls a') < 2 ^ 64" using example_calls_bound [of "''fs.read''" JNull ?ro] call(1) by simp
  from rpc_end_to_end [OF call(2) this, of 0 JNull] call(1,3,4) show ?thesis by simp
qed

text \<open>
  C6: Events arrive in sequence.  What one of two connected sessions has read of the other's events,
  over a port that takes every frame, is accepted by the protocol's sequence rules: each stream counts
  from 0 by one, and begins again after its end.
\<close>

theorem events_end_to_end:
  assumes "pair_reachable S ea eb a b" and "en_port eb = (\<lambda>_. Sent)"
  shows "replay Map.empty (sent_events (sd_got a)) \<noteq> None"
proof -
  let ?w = "ss_writer (snd (sd_at b))"
  have reach: "session_reachable S (en_port eb) (en_ceiling eb) (en_options eb) (fst (sd_at b), snd (sd_at b))"
    using party_reachable [OF conjunct2 [OF pair_parties [OF assms(1)]]] by simp
  have "replay Map.empty (sent_events (wr_sent ?w)) \<noteq> None"
    using events.reachable [OF reach] replay_prefix
    by (fastforce simp: events_inv_def streams_ok_def events_finished_def event_log_def out_frames_def split: phase.splits)
  moreover have "sent_events (carried (en_port eb) (snd (sd_at b))) = sent_events (wr_sent ?w)"
    using assms(2) by (simp add: carried_def split: option.split)
  moreover obtain zs where "carried (en_port eb) (snd (sd_at b)) = sd_got a @ zs"
    using pair_linked [OF assms(1)] by (blast elim: prefixE)
  ultimately show ?thesis using replay_prefix by (metis not_None_eq sent_events_append)
qed

text \<open>The example pair: one side emits an event, the other reads it.\<close>

definition emitting :: "action list" where
  "emitting = [ActHandle (HEmit example_event), ActTurn quiet [], ActWriter]"

definition first_event :: event where
  "first_event = \<lparr>evt_topic = ''fs.changed'', evt_seq = 0, evt_stream_id = Some ''s-1'', evt_payload = JNull, evt_end = None\<rparr>"

lemma example_emitted:
  "\<exists>s. handle_call terse_serde (HEmit example_event) ready_session = s \<and> ch_queue (sh_commands (ss_shared s)) = [CmdSend (Evt first_event)]
     \<and> ss_writer s = ss_writer ready_session \<and> ss_hello s = ss_hello ready_session"
proof -
  let ?sh = "ss_shared ready_session"
  have sh: "sh_event_sequences ?sh = []" "sh_max_stream_keys ?sh = 1024"
    by (simp_all add: ready_session_def example_session_def example_options)
  have names: "is_valid_method_name ''fs.changed''" "chars_count ''s-1'' = 3" by code_simp+
  have "validate (Evt first_event) = Inr ()"
    by (simp add: validate_def validate_event_def first_event_def check_id_def check_length_def check_method_name_def names
        MAX_ID_CHARS_def and_then_def)
  from terse_fits [OF this ready_limit] show ?thesis
    by (simp add: handle_call_def on_shared_def emit_def example_event_def ready_fields sh stream_key_def first_event_def
        hm_contains_def send_command_def ch_send_def unbounded_channel_def Let_def hm_get_def)
qed

lemma emitting_sends:
  "\<exists>s. fold (act terse_serde reliable) emitting (Looping, ready_session) = (Looping, s)
     \<and> carried reliable s = [example_frame, Evt first_event]"
proof -
  obtain s where s: "handle_call terse_serde (HEmit example_event) ready_session = s"
      "ch_queue (sh_commands (ss_shared s)) = [CmdSend (Evt first_event)]"
      "ss_writer s = ss_writer ready_session" "ss_hello s = ss_hello ready_session"
    using example_emitted by blast
  have w: "wr_running (ss_writer s)" "wr_queue (ss_writer s) = []" "wr_report (ss_writer s) = None"
    using ready_idle s(3) by (simp_all add: idle_def)
  have "send_failed (ss_writer s) = None" using idle_writer [OF ready_idle] s(3) by simp
  from quiet_command [OF this s(2)]
  have "fold (act terse_serde reliable) emitting (Looping, ready_session) =
      (Looping, (take_command (build_liveness s) [])\<lparr>ss_writer := writer_turn reliable (enqueue (Evt first_event) (ss_writer s))\<rparr>)"
    by (simp add: emitting_def s(1) on_command_def close_with_def take_command_def)
  then show ?thesis using writer_hands_over [OF w, of "Evt first_event"] carried_hello(1) s(3,4)
    by (simp add: carried_reliable take_command_def)
qed

theorem events_end_to_end_witness:
  "\<exists>a b. pair_reachable terse_serde example_end example_end a b \<and> sent_events (sd_got a) = [first_event]
     \<and> replay Map.empty (sent_events (sd_got a)) \<noteq> None"
proof -
  let ?b = "fold (side_act terse_serde (en_port example_end)) emitting met"
  let ?a = "side_act terse_serde (en_port example_end) (inbound_frame (Evt first_event)) met"
  obtain s where s: "sd_at ?b = (Looping, s)" "carried reliable s = [example_frame, Evt first_event]"
    using emitting_sends by (auto simp: fold_side_at example_service met_at)
  have "list_all own_act emitting" by (simp add: emitting_def quiet_def)
  from own_acts [OF met_pair this] have "pair_reachable terse_serde example_end example_end ?b met" by simp
  from read_next [OF this, of "Evt first_event"] have pair: "pair_reachable terse_serde example_end example_end ?b ?a"
    using s by (simp add: example_service met_got)
  have "sd_got ?a = [example_frame, Evt first_event]"
    using idle_writer [OF ready_idle]
    by (simp add: side_act_def met_at met_got inbound_frame_def read_frame_def turn_reads_def quiet_def settled_ready_def
        ready_fields unbounded_channel_def)
  then have "sent_events (sd_got ?a) = [first_event]" by (simp add: sent_events_def example_frame_def)
  with events_end_to_end [OF pair_sym [OF pair] example_service(2)] pair_sym [OF pair] show ?thesis by blast
qed

end
