(* ===== verification/Spec2Isabelle.thy ===== *)
theory Spec2Isabelle
  imports Contract_Laws Websocket_Laws Spawn_Laws Ipc_Laws Upgrade Pair_Progress
begin

text \<open>
  A verification of the Rust crate \<open>mango-protocol\<close> (\<open>src/crates/mango-protocol/src\<close>; file names below
  are relative to it).

  \<^bold>\<open>The program.\<close>  Two peers exchange JSON frames over a port.  A frame is validated
  (\<open>validate.rs\<close>), encoded as a line or as chunks (\<open>codec/\<close>) and carried by a transport
  (\<open>port/pair.rs\<close>, \<open>transports/\<close>).  A session (\<open>session/\<close>) runs on a port: a driver loop that owns the
  tables, a writer task, handler tasks, and handles that reach the driver through a command channel.
  A contract (\<open>contract.rs\<close>, \<open>contract/\<close>) is compiled from a catalog (\<open>catalog.rs\<close>) and served and
  called over a session.

  \<^bold>\<open>Conventions\<close> (\<open>Prelude\<close>, \<open>Tables\<close>).  A Rust \<open>String\<close> is a HOL string with one character per byte
  of its UTF-8; \<open>Vec<u8>\<close> is a list of 8-bit words; \<open>u16\<close>, \<open>u32\<close> and \<open>u64\<close> are words; \<open>usize\<close> is a nat;
  a \<open>Duration\<close> is its nanoseconds; \<open>Result\<close> is a sum with the error on the left, and so is a call that
  may panic, with the message.  A \<open>HashMap\<close> or \<open>BTreeMap\<close> is an association list behind the locale
  \<open>table\<close>.  A channel is a record of its queue and its ends.  An await is a value of \<open>poll\<close> or an
  argument that says what became ready.

  \<^bold>\<open>The wire.\<close>  \<open>Wire\<close> has the versions, codes, errors and frames of \<open>version.rs\<close>, \<open>close.rs\<close>,
  \<open>error.rs\<close> and \<open>frame.rs\<close>.  \<open>Validate\<close> has \<open>validate.rs\<close>: \<open>validate\<close> accepts exactly the frames
  the schema allows but for a role with a trailing dash, and the name scanners the language of their
  patterns.  \<open>Ndjson\<close> has \<open>codec/ndjson.rs\<close> and
  \<open>codec/limits.rs\<close>: frames round-trip, the decoder does not depend on how the stream is cut, it is
  bounded, and an error sticks (locale \<open>incremental_decoder\<close>).  \<open>Chunk\<close> has \<open>codec/chunk.rs\<close>: chunks
  round-trip, the reassembler is sound and bounded.  The locale \<open>frame_codec\<close> is the contract both
  codecs meet.

  \<^bold>\<open>Ports.\<close>  \<open>Port\<close> has \<open>port.rs\<close> and \<open>port/pair.rs\<close>.  The locale \<open>port_receiver\<close> is the contract of a
  receiving half (one closure, then nothing); it is interpreted on the in-process, NDJSON, WebSocket and
  spawned halves.  \<open>Ndjson_Port\<close> has \<open>transports/ndjson.rs\<close> and \<open>stdio.rs\<close>: the operations on the shared
  writer interleave freely, and what arrives is exactly what was reported sent and the one frame, if
  any, that was taken whole and reported closed.  \<open>Websocket\<close> and \<open>Websocket_Laws\<close> have
  \<open>transports/websocket.rs\<close>: the backlog is accounted and bounded and delivery is in order.  \<open>Upgrade\<close>
  has \<open>websocket/server.rs\<close> and \<open>websocket/client.rs\<close>: what is accepted, and that the two ends agree.
  \<open>Deadline\<close> has \<open>transports/deadline.rs\<close>.  \<open>Ssh\<close> has \<open>transports/ssh.rs\<close> with a POSIX shell
  reader to read the argv back.  \<open>Spawn\<close> and \<open>Spawn_Laws\<close> have \<open>transports/spawn.rs\<close>: the environment a
  launched command has, the bounded escalation, the launch that never became a process.  \<open>Ipc\<close> and \<open>Ipc_Laws\<close>
  have \<open>transports/ipc.rs\<close>, \<open>ipc/unix.rs\<close> and \<open>ipc/windows.rs\<close>: \<open>listen_ipc\<close> is one step per system call
  on a model file system of names, owners and modes, other processes act between the steps (\<open>listening\<close>)
  as file permissions let other users (\<open>other_users_act\<close>) and as processes of the same user keep out of
  the staging directory (\<open>same_user_act\<close>), and the address is owner-only throughout.

  \<^bold>\<open>The session.\<close>  \<open>Session_Shared\<close> has \<open>session/options.rs\<close> and \<open>shared.rs\<close>; \<open>Session_Driver\<close> has
  \<open>driver.rs\<close>, \<open>dispatch.rs\<close> and \<open>teardown.rs\<close> (\<open>loop_turn\<close> is one turn of the \<open>select!\<close>, its readiness an
  argument, in the biased order of the source); \<open>Session_Handle\<close> has \<open>handle.rs\<close> and the step relation
  \<open>session_step\<close> of turns, writer steps and handle calls.  The locale \<open>session_invariant\<close>
  (\<open>Session_Invariants\<close>) does the case analysis over the steps once.  Its interpretations give the
  handshake (\<open>Session_Handshake\<close>), the request tables and that every request is answered once
  (\<open>Session_Requests\<close>), that every call is settled once (\<open>Session_Calls\<close>), the event sequences
  (\<open>Session_Events\<close>) and the well-formed tables (\<open>Session_Tables\<close>).  \<open>Session_Delivery\<close> has the laws of
  single calls and \<open>Session_Trace\<close> executable runs.

  \<^bold>\<open>Two sessions.\<close>  \<open>Session_Pair\<close> joins two sessions by a port each way: each side reads the frames the
  other side's port took, in order, and the connection may be lost at any moment (\<open>pair_reachable\<close>).
  \<open>Pair_Laws\<close> shows that what is read is a prefix of what was carried, and has the locale
  \<open>side_invariant\<close>, the counterpart of \<open>session_invariant\<close> for a side with the frames it read and the
  calls it made, interpreted once for the side that answers and once for the side that calls.
  \<open>Pair_Progress\<close> composes them: a result is the one of its own call, events arrive in sequence, and
  a call on an idle pair returns what the handler returned, or the error for a result that is too large.

  \<^bold>\<open>Contracts.\<close>  \<open>Catalog\<close> has \<open>catalog.rs\<close>: validation accepts exactly the catalogs that
  meet the schema's rules but for the one on the protocol version.  \<open>Contract\<close>
  and \<open>Contract_Laws\<close> have \<open>contract.rs\<close> and \<open>contract/\<close>: what compiles, the order of the checks on a
  request, what serving registers and leaves behind, discovery, and typed subscriptions.

  \<^bold>\<open>Parameters.\<close>  \<open>serde_json\<close> is the record \<open>S\<close> with the hypothesis \<open>serde_ok\<close> (a frame
  serialises to an object without a raw newline, which parses back to the same frame when it is
  \<open>frame_exact\<close>: no floating-point number, objects in key order, nesting at most 120); \<open>jsonschema\<close>, the
  HTTP handshake, TLS and header tables, \<open>str::to_uppercase\<close> and the operating system are arguments.  Each property with such a hypothesis has a
  witness on a concrete instance.

  \<^bold>\<open>Bounds.\<close>  No definition needs fuel: loops recurse on the bytes, the queue or the list of
  events, with a termination proof where that is not structural.  A count of \<open>recv\<close> calls (\<open>recvs\<close>)
  is part of a statement, with how many are enough.  \<open>listen_ipc\<close> makes at most sixteen system calls
  (\<open>listen_calls_return\<close>), thirteen when none fails.

  \<^bold>\<open>Not modelled.\<close>  Scheduling and real time: a timer is ready or not, missed interval ticks are not
  counted, and a wake-up is an element of a list.  The teardown is one step, atomics are one step per call,
  and a \<open>recv\<close> that is dropped is dropped at a read.  Tasks aborted when their handle goes
  (\<open>AbortOnDrop\<close>).  The file system follows no symbolic links, does not track parent directories and
  never uses an inode number again.
  \<open>ipc/windows/security.rs\<close> calls the Windows API.  \<open>schema.rs\<close> builds JSON Schema with macros and
  \<open>testing.rs\<close> is a test driver.  The TypeScript package, the scripts, the fuzz targets and
  the examples are other programs.
\<close>

end
